(* ===== verification/Prelude.thy ===== *)
theory Prelude
  imports Main "HOL-Library.Word"
begin

text \<open>
  The shared vocabulary of the development: bytes, fixed-width integers, and the parts of
  Go's \<open>math/big\<close> the sources call. A \<open>*big.Int\<close> is an \<^typ>\<open>int\<close>; a \<open>uint64\<close> is
  a \<^typ>\<open>64 word\<close>; a fixed array \<open>[n]byte\<close> (\<open>common.Hash\<close>, \<open>common.Address\<close>) is the
  word of \<open>8 * n\<close> bits that its bytes spell in big-endian order, which is a bijection.
  The lemmas relate big-endian byte strings to the numbers they denote; every component
  that encodes, hashes or copies bytes uses them.
\<close>

section \<open>Types\<close>

type_synonym byte = "8 word"
type_synonym bytes = "8 word list"
type_synonym u64 = "64 word"
type_synonym hash = "256 word"
type_synonym address = "160 word"

named_theorems gosimps \<open>unfolding rules for the model of Go's standard library\<close>

section \<open>Go's big integers\<close>

text \<open>\<open>(*big.Int).SetBytes\<close>: the number a big-endian byte string denotes.\<close>

definition SetBytes :: "bytes \<Rightarrow> int" where
  "SetBytes bs = foldl (\<lambda>a b. a * 256 + uint b) 0 bs"

text \<open>\<open>be_bytes k n\<close>: the low \<open>k\<close> bytes of \<open>n\<close>, most significant first.\<close>

fun be_bytes :: "nat \<Rightarrow> nat \<Rightarrow> bytes" where
  "be_bytes 0 n = []"
| "be_bytes (Suc k) n = be_bytes k (n div 256) @ [word_of_nat n]"

text \<open>The shortest big-endian byte string of a number; empty for zero.\<close>

fun nat_bytes :: "nat \<Rightarrow> bytes" where
  "nat_bytes n = (if n = 0 then [] else nat_bytes (n div 256) @ [word_of_nat n])"

declare nat_bytes.simps [simp del]

text \<open>\<open>(*big.Int).Bytes\<close>: the absolute value in as few big-endian bytes as possible.\<close>

definition big_Bytes :: "int \<Rightarrow> bytes" where
  "big_Bytes x = nat_bytes (nat \<bar>x\<bar>)"

text \<open>\<open>(*big.Int).BitLen\<close>: the length of the absolute value in bits; 0 for zero.\<close>

fun nat_bitlen :: "nat \<Rightarrow> nat" where
  "nat_bitlen n = (if n = 0 then 0 else Suc (nat_bitlen (n div 2)))"

declare nat_bitlen.simps [simp del]

definition BitLen :: "int \<Rightarrow> nat" where
  "BitLen x = nat_bitlen (nat \<bar>x\<bar>)"

text \<open>\<open>(*big.Int).Uint64\<close> and \<open>Int64\<close> return the low 64 bits of the absolute value, the
  latter negated (at 64 bits) for a negative number.\<close>

definition big_Uint64 :: "int \<Rightarrow> u64" where
  "big_Uint64 x = word_of_int \<bar>x\<bar>"

definition big_Int64 :: "int \<Rightarrow> int" where
  "big_Int64 x = (let v = (word_of_int \<bar>x\<bar> :: u64) in sint (if x < 0 then - v else v))"

text \<open>\<open>(*big.Int).Bits\<close>: the absolute value as 64-bit words, least significant first.\<close>

fun nat_words :: "nat \<Rightarrow> u64 list" where
  "nat_words n = (if n = 0 then [] else word_of_nat n # nat_words (n div 2 ^ 64))"

declare nat_words.simps [simp del]

definition big_Bits :: "int \<Rightarrow> u64 list" where
  "big_Bits x = nat_words (nat \<bar>x\<bar>)"

text \<open>\<open>(*big.Int).Sign\<close> and \<open>(*big.Int).Cmp\<close>.\<close>

definition big_Sign :: "int \<Rightarrow> int" where
  "big_Sign x = sgn x"

definition big_Cmp :: "int \<Rightarrow> int \<Rightarrow> int" where
  "big_Cmp x y = (if x < y then -1 else if x = y then 0 else 1)"

section \<open>Lemmas\<close>

lemma uint_byte_less [simp]: "uint (b :: byte) < 256"
  using uint_lt2p [of b] by simp

lemma unat_byte_less [simp]: "unat (b :: byte) < 256"
  using uint_byte_less [of b] by (simp only: unat_eq_nat_uint nat_less_iff uint_ge_0)

lemma SetBytes_Nil [simp]: "SetBytes [] = 0"
  by (simp add: SetBytes_def)

lemma SetBytes_snoc [simp]: "SetBytes (bs @ [b]) = SetBytes bs * 256 + uint b"
  by (simp add: SetBytes_def)

lemma SetBytes_nonneg [simp]: "0 \<le> SetBytes bs"
  by (induction bs rule: rev_induct) simp_all

lemma SetBytes_bound: "SetBytes bs < 256 ^ length bs"
proof (induction bs rule: rev_induct)
  case (snoc b bs)
  have "SetBytes bs * 256 + uint b < (SetBytes bs + 1) * 256"
    by (simp add: algebra_simps)
  also have "\<dots> \<le> 256 ^ length bs * 256" using snoc by (intro mult_right_mono) simp_all
  finally show ?case by (simp add: mult.commute)
qed simp

lemma SetBytes_append: "SetBytes (as @ bs) = SetBytes as * 256 ^ length bs + SetBytes bs"
  by (induction bs rule: rev_induct)
     (simp_all add: algebra_simps flip: append_assoc)

lemma SetBytes_single [simp]: "SetBytes [b] = uint b"
  using SetBytes_snoc [of "[]" b] by simp

lemma SetBytes_Cons: "SetBytes (b # bs) = uint b * 256 ^ length bs + SetBytes bs"
  using SetBytes_append [of "[b]" bs] by simp

lemma SetBytes_zeros [simp]: "SetBytes (replicate n 0) = 0"
  by (induction n) (simp_all add: SetBytes_Cons)

lemma SetBytes_leading_zeros [simp]: "SetBytes (replicate n 0 @ bs) = SetBytes bs"
  by (simp add: SetBytes_append)

lemma length_be_bytes [simp]: "length (be_bytes k n) = k"
  by (induction k arbitrary: n) simp_all

lemma uint_byte_of_nat [simp]: "uint (word_of_nat n :: byte) = int (n mod 256)"
proof -
  have "uint (word_of_nat n :: byte) = int (unat (word_of_nat n :: byte))" by simp
  also have "unat (word_of_nat n :: byte) = n mod 256"
    by (simp add: unat_of_nat)
  finally show ?thesis .
qed

lemma SetBytes_be_bytes: "SetBytes (be_bytes k n) = int (n mod 256 ^ k)"
proof (induction k arbitrary: n)
  case (Suc k)
  have "n mod (256 * 256 ^ k) = 256 * (n div 256 mod 256 ^ k) + n mod 256"
    by (rule mod_mult2_eq)
  with Suc show ?case by simp
qed simp

lemma nat_bytes_eq_Nil [simp]: "nat_bytes n = [] \<longleftrightarrow> n = 0"
  by (subst nat_bytes.simps) simp

lemma nat_bytes_0 [simp]: "nat_bytes 0 = []"
  by simp

lemma SetBytes_nat_bytes [simp]: "SetBytes (nat_bytes n) = int n"
proof (induction n rule: nat_bytes.induct)
  case (1 n)
  have "int (n div 256) * 256 + int (n mod 256) = int n"
    by (metis div_mult_mod_eq of_nat_add of_nat_mult of_nat_numeral)
  with 1 show ?case
    by (cases "n = 0") (simp_all add: nat_bytes.simps [of n])
qed

lemma SetBytes_big_Bytes [simp]: "SetBytes (big_Bytes x) = \<bar>x\<bar>"
  by (simp add: big_Bytes_def)

lemma be_bytes_SetBytes: "be_bytes (length bs) (nat (SetBytes bs)) = bs"
proof (induction bs rule: rev_induct)
  case (snoc b bs)
  let ?n = "nat (SetBytes bs * 256 + uint b)"
  have e: "?n = nat (SetBytes bs) * 256 + unat b"
    by (simp add: nat_add_distrib nat_mult_distrib)
  have b: "unat b < 256" by (rule unat_byte_less)
  then have d: "?n div 256 = nat (SetBytes bs)" unfolding e by simp
  have "unat (word_of_nat (nat (SetBytes bs) * 256 + unat b) :: byte) = unat b"
    using b by (simp only: unat_of_nat) simp
  then have "unat (word_of_nat ?n :: byte) = unat b" by (simp only: e)
  then have "(word_of_nat ?n :: byte) = b" by (rule word_unat_eq_iff [THEN iffD2])
  with snoc show ?case by (simp add: d)
qed simp

lemma be_bytes_mod: "be_bytes k (n mod 256 ^ k) = be_bytes k n"
  using be_bytes_SetBytes [of "be_bytes k n"] by (simp add: SetBytes_be_bytes)

lemma SetBytes_inject:
  assumes "length as = length bs" and "SetBytes as = SetBytes bs"
  shows "as = bs"
  using assms by (metis be_bytes_SetBytes)

lemma hd_nat_bytes: "0 < n \<Longrightarrow> hd (nat_bytes n) \<noteq> 0"
proof (induction n rule: nat_bytes.induct)
  case (1 n)
  show ?case
  proof (cases "n div 256 = 0")
    case True
    with "1.prems" have "n < 256" by (simp add: div_eq_0_iff)
    then have "unat (word_of_nat n :: byte) = n" by (simp add: unat_of_nat)
    with "1.prems" have "(word_of_nat n :: byte) \<noteq> 0" by (metis gr_implies_not0 unat_0)
    with True "1.prems" show ?thesis by (simp add: nat_bytes.simps [of n])
  next
    case False
    with "1.IH" "1.prems" have "hd (nat_bytes (n div 256)) \<noteq> 0" by simp
    with False "1.prems" show ?thesis by (simp add: nat_bytes.simps [of n])
  qed
qed

lemma length_nat_bytes_le: "length (nat_bytes n) \<le> k \<longleftrightarrow> n < 256 ^ k"
proof (induction k arbitrary: n)
  case (Suc k)
  show ?case
  proof (cases "n = 0")
    case False
    then have "length (nat_bytes n) \<le> Suc k \<longleftrightarrow> length (nat_bytes (n div 256)) \<le> k"
      by (simp add: nat_bytes.simps [of n])
    also have "\<dots> \<longleftrightarrow> n div 256 < 256 ^ k" by (rule Suc.IH)
    also have "\<dots> \<longleftrightarrow> n < 256 ^ Suc k"
      by (simp add: div_less_iff_less_mult mult.commute)
    finally show ?thesis .
  qed simp
qed simp

lemma be_bytes_pad: "be_bytes k n = replicate (k - length (nat_bytes n)) 0 @ nat_bytes n"
  if "length (nat_bytes n) \<le> k"
proof (rule SetBytes_inject)
  show "length (be_bytes k n) = length (replicate (k - length (nat_bytes n)) 0 @ nat_bytes n)"
    using that by simp
  have "n < 256 ^ k" using that by (simp add: length_nat_bytes_le)
  then show "SetBytes (be_bytes k n) = SetBytes (replicate (k - length (nat_bytes n)) 0 @ nat_bytes n)"
    by (simp add: SetBytes_be_bytes)
qed

lemma SetBytes_less_Cons:
  assumes "b \<noteq> (0 :: byte)"
  shows "256 ^ length bs \<le> SetBytes (b # bs)"
proof -
  have "uint b \<noteq> 0" using assms by (simp add: uint_0_iff)
  then have "1 \<le> uint b" using uint_ge_0 [of b] by linarith
  then have "1 * 256 ^ length bs \<le> uint b * 256 ^ length bs" by (rule mult_right_mono) simp
  then show ?thesis by (simp add: SetBytes_Cons add_increasing2)
qed

lemma nat_bytes_SetBytes:
  assumes "bs = [] \<or> hd bs \<noteq> 0"
  shows "nat_bytes (nat (SetBytes bs)) = bs"
proof (cases bs)
  case (Cons b cs)
  let ?n = "nat (SetBytes bs)"
  have up: "length (nat_bytes ?n) \<le> length bs"
    using SetBytes_bound [of bs] by (simp add: length_nat_bytes_le nat_less_iff)
  have "256 ^ length cs \<le> SetBytes bs"
    using assms Cons SetBytes_less_Cons by simp
  then have "\<not> ?n < 256 ^ length cs" by (simp add: nat_less_iff)
  then have "\<not> length (nat_bytes ?n) \<le> length cs" by (simp add: length_nat_bytes_le)
  with up Cons have len: "length (nat_bytes ?n) = length bs" by simp
  then show ?thesis by (rule SetBytes_inject) simp
qed simp

lemma nat_bitlen_le: "nat_bitlen n \<le> k \<longleftrightarrow> n < 2 ^ k"
proof (induction k arbitrary: n)
  case 0
  show ?case by (subst nat_bitlen.simps) simp
next
  case (Suc k)
  show ?case
  proof (cases "n = 0")
    case True
    then show ?thesis by (simp add: nat_bitlen.simps [of 0])
  next
    case False
    then have "nat_bitlen n \<le> Suc k \<longleftrightarrow> nat_bitlen (n div 2) \<le> k"
      by (simp add: nat_bitlen.simps [of n])
    also have "\<dots> \<longleftrightarrow> n div 2 < 2 ^ k" by (rule Suc.IH)
    also have "\<dots> \<longleftrightarrow> n < 2 ^ Suc k" by (simp add: div_less_iff_less_mult mult.commute)
    finally show ?thesis .
  qed
qed

lemma BitLen_le: "BitLen x \<le> k \<longleftrightarrow> \<bar>x\<bar> < 2 ^ k"
  by (simp add: BitLen_def nat_bitlen_le nat_less_iff)

lemma BitLen_gt: "k < BitLen x \<longleftrightarrow> 2 ^ k \<le> \<bar>x\<bar>"
  using BitLen_le [of x k] by linarith

lemma uint_big_Uint64: "uint (big_Uint64 x) = \<bar>x\<bar> mod 2 ^ 64"
  by (simp add: big_Uint64_def uint_word_of_int)

lemma unat_big_Uint64: "0 \<le> x \<Longrightarrow> x < 2 ^ 64 \<Longrightarrow> unat (big_Uint64 x) = nat x"
  using uint_big_Uint64 [of x] by (simp add: unat_eq_nat_uint)

lemma big_Int64_small: "0 \<le> x \<Longrightarrow> x < 2 ^ 63 \<Longrightarrow> big_Int64 x = x"
  by (simp add: big_Int64_def sint_sbintrunc' signed_take_bit_int_eq_self)

end
