(* ===== verification/Common.thy ===== *)
theory Common
  imports Prelude
begin

unbundle bit_operations_syntax

text \<open>
  The helpers of packages \<open>common\<close> and \<open>common/math\<close>: 256-bit arithmetic on big integers
  (\<open>common/math/big.go\<close>), overflow-checked 64-bit arithmetic (\<open>common/math/integer.go\<close>),
  byte padding (\<open>common/bytes.go\<close>) and the conversions between byte strings, big integers,
  hashes and addresses (\<open>common/types.go\<close>). The lemmas show that the loops over machine
  words compute the mathematical functions: \<open>Exp\<close> is exponentiation modulo \<open>2^256\<close>,
  \<open>ReadBits\<close> and \<open>PaddedBigBytes\<close> write the big-endian representation, \<open>Byte\<close> selects
  one of its bytes, and the \<open>Safe\<close> operations report exactly the overflows.
\<close>

section \<open>common/math/big.go\<close>

definition tt255 :: int where "tt255 = 2 ^ 255"
definition tt256 :: int where "tt256 = 2 ^ 256"
definition tt256m1 :: int where "tt256m1 = tt256 - 1"

definition BigMax :: "int \<Rightarrow> int \<Rightarrow> int" where
  "BigMax x y = (if big_Cmp x y < 0 then y else x)"

definition BigMin :: "int \<Rightarrow> int \<Rightarrow> int" where
  "BigMin x y = (if big_Cmp x y > 0 then y else x)"

text \<open>The inner loop of \<open>ReadBits\<close>: \<open>k\<close> more bytes of the word \<open>d\<close> go in front of position \<open>i\<close>.\<close>

fun ReadBits_word :: "nat \<Rightarrow> u64 \<Rightarrow> nat \<Rightarrow> bytes \<Rightarrow> nat \<times> bytes" where
  "ReadBits_word 0 d i buf = (i, buf)"
| "ReadBits_word (Suc k) d i buf =
     (if 0 < i then ReadBits_word k (drop_bit 8 d) (i - 1) (buf[i - 1 := ucast d])
      else (i, buf))"

fun ReadBits_loop :: "u64 list \<Rightarrow> nat \<Rightarrow> bytes \<Rightarrow> bytes" where
  "ReadBits_loop [] i buf = buf"
| "ReadBits_loop (d # ds) i buf =
     (let (i', buf') = ReadBits_word 8 d i buf in ReadBits_loop ds i' buf')"

definition ReadBits :: "int \<Rightarrow> bytes \<Rightarrow> bytes" where
  "ReadBits bigint buf = ReadBits_loop (big_Bits bigint) (length buf) buf"

definition PaddedBigBytes :: "int \<Rightarrow> nat \<Rightarrow> bytes" where
  "PaddedBigBytes bigint n =
     (if n \<le> BitLen bigint div 8 then big_Bytes bigint
      else ReadBits bigint (replicate n 0))"

definition bigEndianByteAt :: "int \<Rightarrow> nat \<Rightarrow> byte" where
  "bigEndianByteAt bigint n =
     (let words = big_Bits bigint; i = n div 8
      in if length words \<le> i then 0
         else ucast (drop_bit (8 * (n mod 8)) (words ! i)))"

definition Byte :: "int \<Rightarrow> nat \<Rightarrow> nat \<Rightarrow> byte" where
  "Byte bigint padlength n =
     (if padlength \<le> n then 0 else bigEndianByteAt bigint (padlength - 1 - n))"

definition U256 :: "int \<Rightarrow> int" where
  "U256 x = x AND tt256m1"

definition S256 :: "int \<Rightarrow> int" where
  "S256 x = (if big_Cmp x tt255 < 0 then x else x - tt256)"

text \<open>\<open>Exp\<close> multiplies \<open>base\<close> in place, so the model returns what is left in it beside
  the result.\<close>

fun Exp_word :: "nat \<Rightarrow> u64 \<Rightarrow> int \<times> int \<Rightarrow> int \<times> int" where
  "Exp_word 0 word (result, base) = (result, base)"
| "Exp_word (Suc k) word (result, base) =
     Exp_word k (drop_bit 1 word)
       (if word AND 1 = 1 then U256 (result * base) else result, U256 (base * base))"

definition Exp :: "int \<Rightarrow> int \<Rightarrow> int \<times> int" where
  "Exp base exponent = fold (Exp_word 64) (big_Bits exponent) (1, base)"

section \<open>common/math/integer.go\<close>

definition SafeSub :: "u64 \<Rightarrow> u64 \<Rightarrow> u64 \<times> bool" where
  "SafeSub x y = (x - y, x < y)"

definition SafeAdd :: "u64 \<Rightarrow> u64 \<Rightarrow> u64 \<times> bool" where
  "SafeAdd x y = (x + y, y > -1 - x)"

definition SafeMul :: "u64 \<Rightarrow> u64 \<Rightarrow> u64 \<times> bool" where
  "SafeMul x y = (if x = 0 \<or> y = 0 then (0, False) else (x * y, y > -1 div x))"

section \<open>common/bytes.go\<close>

definition RightPadBytes :: "bytes \<Rightarrow> nat \<Rightarrow> bytes" where
  "RightPadBytes sl l =
     (if l \<le> length sl then sl else sl @ replicate (l - length sl) 0)"

definition LeftPadBytes :: "bytes \<Rightarrow> nat \<Rightarrow> bytes" where
  "LeftPadBytes sl l =
     (if l \<le> length sl then sl else replicate (l - length sl) 0 @ sl)"

section \<open>common/types.go\<close>

definition Hash_SetBytes :: "bytes \<Rightarrow> bytes" where
  "Hash_SetBytes b =
     (let b' = (if 32 < length b then drop (length b - 32) b else b)
      in replicate (32 - length b') 0 @ b')"

definition Address_SetBytes :: "bytes \<Rightarrow> bytes" where
  "Address_SetBytes b =
     (let b' = (if 20 < length b then drop (length b - 20) b else b)
      in replicate (20 - length b') 0 @ b')"

definition hash_bytes :: "hash \<Rightarrow> bytes" where
  "hash_bytes h = be_bytes 32 (unat h)"

definition address_bytes :: "address \<Rightarrow> bytes" where
  "address_bytes a = be_bytes 20 (unat a)"

definition BytesToHash :: "bytes \<Rightarrow> hash" where
  "BytesToHash b = word_of_int (SetBytes (Hash_SetBytes b))"

definition BytesToAddress :: "bytes \<Rightarrow> address" where
  "BytesToAddress b = word_of_int (SetBytes (Address_SetBytes b))"

definition BigToHash :: "int \<Rightarrow> hash" where
  "BigToHash b = BytesToHash (big_Bytes b)"

definition BigToAddress :: "int \<Rightarrow> address" where
  "BigToAddress b = BytesToAddress (big_Bytes b)"

definition Hash_Big :: "hash \<Rightarrow> int" where
  "Hash_Big h = SetBytes (hash_bytes h)"

definition Address_Big :: "address \<Rightarrow> int" where
  "Address_Big a = SetBytes (address_bytes a)"

definition EmptyHash :: "hash \<Rightarrow> bool" where
  "EmptyHash h = (h = 0)"

section \<open>256-bit arithmetic\<close>

lemma BigMax_max: "BigMax x y = max x y"
  by (simp add: BigMax_def big_Cmp_def max_def)

lemma BigMin_min: "BigMin x y = min x y"
  by (simp add: BigMin_def big_Cmp_def min_def)

lemma U256_mod: "U256 x = x mod 2 ^ 256"
proof -
  have "tt256m1 = mask 256" by (simp add: tt256m1_def tt256_def mask_eq_exp_minus_1)
  then have "U256 x = take_bit 256 x" by (simp only: U256_def take_bit_eq_mask)
  then show ?thesis by (simp only: take_bit_eq_mod)
qed

lemma U256_range [simp]: "0 \<le> U256 x" "U256 x < 2 ^ 256"
  unfolding U256_mod by simp_all

lemma U256_id: "0 \<le> x \<Longrightarrow> x < 2 ^ 256 \<Longrightarrow> U256 x = x"
  unfolding U256_mod by (rule mod_pos_pos_trivial)

lemma U256_word: "U256 x = uint (word_of_int x :: 256 word)"
  unfolding U256_mod by (simp only: uint_word_of_int take_bit_eq_mod) simp

lemma S256_sint:
  assumes "0 \<le> x" and "x < 2 ^ 256"
  shows "S256 x = sint (word_of_int x :: 256 word)"
proof (cases "x < 2 ^ 255")
  case True
  then have "S256 x = x" by (simp add: S256_def big_Cmp_def tt255_def)
  moreover have "sint (word_of_int x :: 256 word) = x"
    using True assms(1) by (simp add: sint_sbintrunc' signed_take_bit_int_eq_self)
  ultimately show ?thesis by simp
next
  case False
  then have "S256 x = x - 2 ^ 256" by (auto simp: S256_def big_Cmp_def tt255_def tt256_def)
  moreover have "sint (word_of_int x :: 256 word) = sint (word_of_int (x - 2 ^ 256) :: 256 word)"
    by (rule arg_cong [where f = sint]) (simp add: word_of_int_eq_iff take_bit_eq_mod)
  moreover have "sint (word_of_int (x - 2 ^ 256) :: 256 word) = x - 2 ^ 256"
    unfolding sint_sbintrunc' using False assms(2) by (simp add: signed_take_bit_int_eq_self)
  ultimately show ?thesis by simp
qed

section \<open>Byte representations\<close>

lemma unat_drop_bit_8: "unat (drop_bit 8 (d :: u64)) = unat d div 256"
  by (simp add: drop_bit_eq_div unat_div)

lemma be_bytes_0: "be_bytes k 0 = replicate k 0"
  by (rule SetBytes_inject) (simp_all add: SetBytes_be_bytes)

lemma be_bytes_split: "be_bytes (a + b) n = be_bytes a (n div 256 ^ b) @ be_bytes b n"
  by (induction b arbitrary: n) (simp_all add: div_mult2_eq)

lemma be_bytes_mod_le: "j \<le> k \<Longrightarrow> be_bytes j (n mod 256 ^ k) = be_bytes j n"
  by (metis be_bytes_mod mod_mod_cancel le_imp_power_dvd)

lemma ReadBits_word:
  assumes "i \<le> length buf"
  shows "ReadBits_word k d i buf =
    (i - k, take (i - k) buf @ be_bytes (min k i) (unat d) @ drop i buf)"
  using assms
proof (induction k arbitrary: d i buf)
  case 0
  then show ?case by simp
next
  case (Suc k)
  show ?case
  proof (cases i)
    case 0
    then show ?thesis by simp
  next
    case (Suc i')
    let ?buf = "buf[i' := ucast d]"
    have dr: "drop i' ?buf = ucast d # drop (Suc i') buf"
      using Suc Suc.prems Cons_nth_drop_Suc [of i' ?buf] by simp
    have "ReadBits_word (Suc k) d i buf = ReadBits_word k (drop_bit 8 d) i' ?buf"
      using Suc by simp
    also have "\<dots> = (i' - k, take (i' - k) ?buf @ be_bytes (min k i') (unat d div 256) @ drop i' ?buf)"
      using Suc Suc.prems by (subst Suc.IH) (simp_all add: unat_drop_bit_8)
    finally show ?thesis
      using Suc by (simp add: dr)
  qed
qed

lemma ReadBits_loop:
  "ReadBits_loop (nat_words n) i (replicate i 0 @ rest) = be_bytes i n @ rest"
proof (induction n arbitrary: i rest rule: nat_words.induct)
  case (1 n)
  show ?case
  proof (cases "n = 0")
    case True
    then show ?thesis by (simp add: nat_words.simps [of 0] be_bytes_0)
  next
    case False
    let ?w = "word_of_nat n :: u64"
    have m: "be_bytes (min 8 i) (unat ?w) = be_bytes (min 8 i) n"
      using be_bytes_mod_le [of "min 8 i" 8 n] by (simp add: unat_of_nat)
    have "ReadBits_loop (nat_words n) i (replicate i 0 @ rest) =
        ReadBits_loop (nat_words (n div 2 ^ 64)) (i - 8)
          (replicate (i - 8) 0 @ be_bytes (min 8 i) n @ rest)"
      using False by (simp add: nat_words.simps [of n] ReadBits_word m)
    also have "\<dots> = be_bytes (i - 8) (n div 2 ^ 64) @ be_bytes (min 8 i) n @ rest"
      by (rule "1.IH" [OF False])
    also have "\<dots> = be_bytes i n @ rest"
      using be_bytes_split [of "i - 8" 8 n] by (cases "8 \<le> i") simp_all
    finally show ?thesis .
  qed
qed

lemma ReadBits_zeros: "ReadBits x (replicate n 0) = be_bytes n (nat \<bar>x\<bar>)"
  using ReadBits_loop [of "nat \<bar>x\<bar>" n "[]"] by (simp add: ReadBits_def big_Bits_def)

lemma PaddedBigBytes_be:
  assumes "0 \<le> x" and "x < 256 ^ n"
  shows "PaddedBigBytes x n = be_bytes n (nat x)"
proof (cases "n \<le> BitLen x div 8")
  case True
  have lt: "nat x < 256 ^ n" using assms by (simp add: nat_less_iff)
  then have le: "length (nat_bytes (nat x)) \<le> n" by (simp add: length_nat_bytes_le)
  have "\<not> length (nat_bytes (nat x)) \<le> n - 1" if "0 < n"
  proof
    assume "length (nat_bytes (nat x)) \<le> n - 1"
    then have "nat x < 2 ^ (8 * (n - 1))" by (simp add: length_nat_bytes_le power_mult)
    then have "BitLen x \<le> 8 * (n - 1)" by (simp add: BitLen_def nat_bitlen_le assms)
    with True \<open>0 < n\<close> show False by auto
  qed
  with le have "length (nat_bytes (nat x)) = n" by (cases "n = 0") auto
  then show ?thesis
    using True assms be_bytes_pad [of "nat x" n] by (simp add: PaddedBigBytes_def big_Bytes_def)
next
  case False
  then show ?thesis using assms by (simp add: PaddedBigBytes_def ReadBits_zeros)
qed

lemma nth_be_bytes: "j < k \<Longrightarrow> be_bytes k n ! j = word_of_nat (n div 256 ^ (k - 1 - j))"
proof (induction k arbitrary: n)
  case (Suc k)
  show ?case
  proof (cases "j < k")
    case True
    then have "be_bytes (Suc k) n ! j = word_of_nat (n div 256 div 256 ^ (k - 1 - j))"
      by (simp add: nth_append Suc.IH)
    also have "n div 256 div 256 ^ (k - 1 - j) = n div 256 ^ (Suc k - 1 - j)"
      using True by (simp add: Suc_diff_Suc flip: div_mult2_eq power_Suc)
    finally show ?thesis .
  next
    case False
    with Suc.prems show ?thesis by (simp add: nth_append)
  qed
qed simp

lemma nth_nat_words:
  "i < length (nat_words n) \<Longrightarrow> nat_words n ! i = word_of_nat (n div 2 ^ (64 * i))"
proof (induction n arbitrary: i rule: nat_words.induct)
  case (1 n)
  have n: "n \<noteq> 0"
    using "1.prems" by (cases "n = 0") (simp_all add: nat_words.simps [of 0])
  show ?case
  proof (cases i)
    case (Suc j)
    with "1.prems" n have "j < length (nat_words (n div 2 ^ 64))"
      by (simp add: nat_words.simps [of n])
    then have "nat_words n ! i = word_of_nat (n div 2 ^ 64 div 2 ^ (64 * j))"
      using "1.IH" [OF n] n Suc by (simp add: nat_words.simps [of n])
    also have "n div 2 ^ 64 div 2 ^ (64 * j) = n div 2 ^ (64 * i)"
      unfolding Suc div_mult2_eq [symmetric] power_add [symmetric] by simp
    finally show ?thesis .
  qed (use n in \<open>simp add: nat_words.simps [of n]\<close>)
qed

lemma nat_words_exhausted: "length (nat_words n) \<le> i \<Longrightarrow> n < 2 ^ (64 * i)"
proof (induction n arbitrary: i rule: nat_words.induct)
  case (1 n)
  show ?case
  proof (cases "n = 0")
    case False
    with "1.prems" obtain j where j: "i = Suc j" "length (nat_words (n div 2 ^ 64)) \<le> j"
      by (cases i) (simp_all add: nat_words.simps [of n])
    then have "n div 2 ^ 64 < 2 ^ (64 * j)" by (intro "1.IH" [OF False])
    then have "n < 2 ^ (64 * j) * 2 ^ 64" by (simp add: div_less_iff_less_mult)
    also have "\<dots> = 2 ^ (64 * i)" unfolding j power_add [symmetric] by simp
    finally show ?thesis .
  qed simp
qed

lemma byte_of_word:
  assumes "k + 8 \<le> 64"
  shows "ucast (drop_bit k (word_of_nat y :: u64)) = (word_of_nat (y div 2 ^ k) :: byte)"
  by (rule bit_word_eqI) (use assms in \<open>auto simp: bit_simps simp flip: drop_bit_eq_div\<close>)

lemma bigEndianByteAt_eq: "bigEndianByteAt x n = word_of_nat (nat \<bar>x\<bar> div 256 ^ n)"
proof -
  let ?x = "nat \<bar>x\<bar>" and ?i = "n div 8"
  have "(256::nat) ^ n = 2 ^ (64 * ?i + 8 * (n mod 8))"
  proof -
    have "64 * ?i + 8 * (n mod 8) = 8 * n" by presburger
    then show ?thesis by (simp add: power_mult)
  qed
  then have pw: "(256::nat) ^ n = 2 ^ (64 * ?i) * 2 ^ (8 * (n mod 8))"
    by (simp only: power_add)
  show ?thesis
  proof (cases "length (nat_words ?x) \<le> ?i")
    case True
    then have "?x < 2 ^ (64 * ?i)" by (rule nat_words_exhausted)
    then have "?x div 256 ^ n = 0" unfolding pw div_mult2_eq by simp
    with True show ?thesis by (simp add: bigEndianByteAt_def big_Bits_def)
  next
    case False
    let ?y = "?x div 2 ^ (64 * ?i)" and ?k = "8 * (n mod 8)"
    have "ucast (drop_bit ?k (word_of_nat ?y :: u64)) = (word_of_nat (?y div 2 ^ ?k) :: byte)"
      by (rule byte_of_word) simp
    with False show ?thesis
      by (simp add: bigEndianByteAt_def big_Bits_def nth_nat_words pw div_mult2_eq)
  qed
qed

lemma Byte_be_bytes: "n < padlength \<Longrightarrow> Byte x padlength n = be_bytes padlength (nat \<bar>x\<bar>) ! n"
  by (simp add: Byte_def bigEndianByteAt_eq nth_be_bytes)

section \<open>Exponentiation by squaring\<close>

lemma and_1_odd_unat: "(w :: u64) AND 1 = 1 \<longleftrightarrow> odd (unat w)"
  by (simp add: and_one_eq odd_iff_mod_2_eq_one word_unat_eq_iff unat_mod)

lemma mod_power_right: "x * (y mod M) ^ e mod M = x * y ^ e mod (M :: int)"
  by (metis mod_mult_right_eq power_mod)

lemma mod_mult_power: "(x mod M) * (y mod M) ^ e mod M = x * y ^ e mod (M :: int)"
  unfolding mod_mult_left_eq by (rule mod_power_right)

lemma pow_step:
  "(r * b ^ (unat w mod 2 ^ Suc k)) =
    ((if w AND 1 = 1 then r * b else r) * (b * b) ^ (unat (drop_bit 1 (w::u64)) mod 2 ^ k) :: int)"
proof -
  have "unat w mod 2 ^ Suc k = (unat w mod 2) + 2 * (unat (drop_bit 1 w) mod 2 ^ k)"
    by (simp add: drop_bit_eq_div unat_div mod_mult2_eq)
  moreover have "unat w mod 2 = (if odd (unat w) then 1 else 0)"
    by (simp add: odd_iff_mod_2_eq_one)
  ultimately show ?thesis
    by (simp add: and_1_odd_unat power_add power_mult power2_eq_square)
qed

lemma Exp_word:
  fixes M :: int
  defines "M \<equiv> 2 ^ 256"
  shows "fst (Exp_word k w (r, b)) mod M = r * b ^ (unat w mod 2 ^ k) mod M
    \<and> snd (Exp_word k w (r, b)) mod M = b ^ (2 ^ k) mod M
    \<and> (0 \<le> r \<and> r < M \<longrightarrow> 0 \<le> fst (Exp_word k w (r, b)) \<and> fst (Exp_word k w (r, b)) < M)"
proof (induction k arbitrary: w r b)
  case 0
  then show ?case by simp
next
  case (Suc k)
  let ?r = "if w AND 1 = 1 then U256 (r * b) else r" and ?b = "U256 (b * b)"
  let ?e = "unat (drop_bit 1 w) mod 2 ^ k"
  have U: "U256 x = x mod M" for x by (simp only: U256_mod M_def)
  have "0 < M" by (simp add: M_def)
  have st: "Exp_word (Suc k) w (r, b) = Exp_word k (drop_bit 1 w) (?r, ?b)" by simp
  have "?r * ?b ^ ?e mod M = (if w AND 1 = 1 then r * b else r) * (b * b) ^ ?e mod M"
    using mod_mult_power [of "r * b" M "b * b" ?e] mod_power_right [of r "b * b" M ?e] by (simp add: U)
  also have "\<dots> = r * b ^ (unat w mod 2 ^ Suc k) mod M"
    by (simp only: pow_step)
  finally have 1: "?r * ?b ^ ?e mod M = r * b ^ (unat w mod 2 ^ Suc k) mod M" .
  have 2: "?b ^ 2 ^ k mod M = b ^ 2 ^ Suc k mod M"
    unfolding U power_mod by (simp add: power_mult power2_eq_square)
  have 3: "0 \<le> r \<and> r < M \<Longrightarrow> 0 \<le> ?r \<and> ?r < M" using \<open>0 < M\<close> by (simp add: U)
  show ?case unfolding st using Suc.IH [of "drop_bit 1 w" ?r ?b] 1 2 3 by metis
qed

lemma Exp_fold:
  fixes M :: int
  defines "M \<equiv> 2 ^ 256"
  assumes "0 \<le> r" and "r < M"
  shows "fst (fold (Exp_word 64) (nat_words n) (r, b)) = r * b ^ n mod M"
  using assms(2,3)
proof (induction n arbitrary: r b rule: nat_words.induct)
  case (1 n)
  show ?case
  proof (cases "n = 0")
    case True
    with "1.prems" show ?thesis by (simp add: nat_words.simps [of 0])
  next
    case False
    let ?w = "word_of_nat n :: u64"
    obtain r1 b1 where rb: "Exp_word 64 ?w (r, b) = (r1, b1)" by fastforce
    have w: "unat ?w mod 2 ^ 64 = n mod 2 ^ 64" by (simp add: unat_of_nat)
    have 1: "r1 mod M = r * b ^ (n mod 2 ^ 64) mod M" "b1 mod M = b ^ (2 ^ 64) mod M"
      "0 \<le> r1" "r1 < M"
      using Exp_word [of 64 ?w r b] "1.prems" unfolding rb M_def [symmetric] w by simp_all
    have "fst (fold (Exp_word 64) (nat_words n) (r, b)) =
        fst (fold (Exp_word 64) (nat_words (n div 2 ^ 64)) (r1, b1))"
      using False rb by (simp add: nat_words.simps [of n])
    also have "\<dots> = r1 * b1 ^ (n div 2 ^ 64) mod M"
      using "1.IH" [OF False] 1 by simp
    also have "\<dots> = r * b ^ (n mod 2 ^ 64) * (b ^ (2 ^ 64)) ^ (n div 2 ^ 64) mod M"
      using 1(1,2) by (metis mod_mult_cong power_mod)
    also have "r * b ^ (n mod 2 ^ 64) * (b ^ (2 ^ 64)) ^ (n div 2 ^ 64) = r * b ^ n"
      unfolding mult.assoc power_mult [symmetric] power_add [symmetric] by simp
    finally show ?thesis .
  qed
qed

lemma Exp_mod: "0 \<le> e \<Longrightarrow> fst (Exp b e) = b ^ nat e mod 2 ^ 256"
  using Exp_fold [of 1 "nat e" b] by (simp add: Exp_def big_Bits_def)

section \<open>Checked arithmetic, hashes and addresses\<close>

lemma unat_u64_less: "unat (x :: u64) < 2 ^ 64"
proof -
  have "unat x < 2 ^ LENGTH(64)" by (rule unsigned_less)
  then show ?thesis by simp
qed

lemma unat_u64_max: "unat (-1 :: u64) = 2 ^ 64 - 1"
  by (simp add: unsigned_minus_1_eq_mask mask_eq_exp_minus_1)

lemma unat_max_minus: "unat (-1 - x :: u64) = 2 ^ 64 - 1 - unat x"
  by (subst unat_sub) (simp_all add: unat_u64_max)

lemma SafeAdd_correct:
  "SafeAdd x y = (x + y, 2 ^ 64 \<le> unat x + unat y)"
  using unat_u64_less [of x] by (auto simp: SafeAdd_def word_less_nat_alt unat_max_minus)

lemma SafeMul_overflow:
  "snd (SafeMul x y) \<longleftrightarrow> 2 ^ 64 \<le> unat x * unat y"
proof (cases "x = 0 \<or> y = 0")
  case False
  then have "0 < unat x" by (simp add: unat_gt_0)
  then have "unat y > (2 ^ 64 - 1) div unat x \<longleftrightarrow> 2 ^ 64 - 1 < unat y * unat x"
    by (simp add: div_less_iff_less_mult)
  with False show ?thesis
    by (auto simp: SafeMul_def word_less_nat_alt unat_div unat_u64_max mult.commute)
qed (auto simp: SafeMul_def)

lemma fst_SafeMul: "fst (SafeMul x y) = x * y"
  by (auto simp: SafeMul_def)

lemma unat_plus_no_overflow: "unat x + unat y < 2 ^ 64 \<Longrightarrow> unat (x + y :: u64) = unat x + unat y"
  by (simp add: unat_add_lem [THEN iffD1])

lemma unat_times_no_overflow: "unat x * unat y < 2 ^ 64 \<Longrightarrow> unat (x * y :: u64) = unat x * unat y"
  by (simp add: unat_mult_lem [THEN iffD1])

lemma SafeSub_correct:
  "SafeSub x y = (x - y, unat x < unat y)"
  by (simp add: SafeSub_def word_less_nat_alt)

lemma SetBytes_drop:
  "SetBytes (drop (length b - n) b) = SetBytes b mod 256 ^ n" if "n \<le> length b"
proof -
  have "SetBytes b = SetBytes (take (length b - n) b) * 256 ^ n + SetBytes (drop (length b - n) b)"
    using SetBytes_append [of "take (length b - n) b" "drop (length b - n) b"] that by simp
  moreover have "SetBytes (drop (length b - n) b) < 256 ^ n"
    using SetBytes_bound [of "drop (length b - n) b"] that by simp
  ultimately show ?thesis by simp
qed

lemma SetBytes_crop:
  "SetBytes (let b' = (if n < length b then drop (length b - n) b else b)
      in replicate (n - length b') 0 @ b') = SetBytes b mod 256 ^ n"
proof (cases "n < length b")
  case True
  then show ?thesis by (simp add: SetBytes_drop)
next
  case False
  then have "(256 :: int) ^ length b \<le> 256 ^ n" by (intro power_increasing) simp_all
  with SetBytes_bound [of b] have "SetBytes b < 256 ^ n" by linarith
  with False show ?thesis by simp
qed

lemma BytesToHash_eq: "BytesToHash b = word_of_int (SetBytes b)"
proof -
  have "SetBytes (Hash_SetBytes b) = take_bit 256 (SetBytes b)"
    unfolding Hash_SetBytes_def SetBytes_crop take_bit_eq_mod by simp
  then show ?thesis by (simp add: BytesToHash_def word_of_int_eq_iff)
qed

lemma BytesToAddress_eq: "BytesToAddress b = word_of_int (SetBytes b)"
proof -
  have "SetBytes (Address_SetBytes b) = take_bit 160 (SetBytes b)"
    unfolding Address_SetBytes_def SetBytes_crop take_bit_eq_mod by simp
  then show ?thesis by (simp add: BytesToAddress_def word_of_int_eq_iff)
qed

lemma BigToHash_eq: "BigToHash x = word_of_int \<bar>x\<bar>"
  by (simp add: BigToHash_def BytesToHash_eq)

lemma BigToAddress_eq: "BigToAddress x = word_of_int \<bar>x\<bar>"
  by (simp add: BigToAddress_def BytesToAddress_eq)

lemma unat_hash_less: "unat (h :: hash) < 256 ^ 32"
proof -
  have "unat h < 2 ^ LENGTH(256)" by (rule unsigned_less)
  then show ?thesis by simp
qed

lemma unat_address_less: "unat (a :: address) < 256 ^ 20"
proof -
  have "unat a < 2 ^ LENGTH(160)" by (rule unsigned_less)
  then show ?thesis by simp
qed

lemma Hash_Big_eq: "Hash_Big h = uint h"
  by (simp only: Hash_Big_def hash_bytes_def SetBytes_be_bytes mod_less [OF unat_hash_less] uint_nat)

lemma Address_Big_eq: "Address_Big a = uint a"
  by (simp only: Address_Big_def address_bytes_def SetBytes_be_bytes mod_less [OF unat_address_less] uint_nat)

lemma BytesToHash_hash_bytes [simp]: "BytesToHash (hash_bytes h) = h"
  using Hash_Big_eq [of h] by (simp add: BytesToHash_eq Hash_Big_def)

lemma BytesToAddress_address_bytes [simp]: "BytesToAddress (address_bytes a) = a"
  using Address_Big_eq [of a] by (simp add: BytesToAddress_eq Address_Big_def)

lemma length_hash_bytes [simp]: "length (hash_bytes h) = 32"
  by (simp add: hash_bytes_def)

lemma length_address_bytes [simp]: "length (address_bytes a) = 20"
  by (simp add: address_bytes_def)

lemma length_RightPadBytes [simp]: "length (RightPadBytes b l) = max l (length b)"
  by (simp add: RightPadBytes_def)

section \<open>Properties\<close>

lemma SafeMul_correct: "SafeMul x y = (x * y, 2 ^ 64 \<le> unat x * unat y)"
  using SafeMul_overflow [of x y] fst_SafeMul [of x y] by (cases "SafeMul x y") simp

text \<open>C21. \<open>Exp\<close> is exponentiation modulo $2^{256}$, for every base and every exponent.\<close>

theorem Exp_computes_power:
  assumes "0 \<le> e"
  shows "fst (Exp b e) = b ^ nat e mod 2 ^ 256"
  by (rule Exp_mod [OF assms])

theorem Exp_computes_power_witness: "fst (Exp 3 (2 ^ 70)) = 3 ^ nat (2 ^ 70) mod 2 ^ 256"
  by (rule Exp_computes_power) simp

text \<open>The base is not left alone, against the comment on \<open>Exp\<close>: every bit of the exponent squares it.\<close>

lemma Exp_word_base: "snd (Exp_word (Suc k) w (r, b)) = b ^ 2 ^ Suc k mod 2 ^ 256"
proof (induction k arbitrary: w r b)
  case 0
  then show ?case by (simp add: U256_mod power2_eq_square)
next
  case (Suc k)
  have "snd (Exp_word (Suc (Suc k)) w (r, b)) = (b * b mod 2 ^ 256) ^ 2 ^ Suc k mod 2 ^ 256"
    unfolding Exp_word.simps(2) [of "Suc k" w] Suc.IH by (simp only: U256_mod)
  also have "\<dots> = (b * b) ^ 2 ^ Suc k mod 2 ^ 256" by (rule power_mod)
  also have "(b * b) ^ 2 ^ Suc k = b ^ 2 ^ Suc (Suc k)"
    by (simp only: power_Suc [of 2 "Suc k"] power_mult power2_eq_square [of b])
  finally show ?case .
qed

lemma Exp_changes_base: "snd (Exp 2 1) = 0"
proof -
  have "snd (Exp_word (Suc k) w (r, 2)) = 0" if "7 \<le> k" for k w r
  proof -
    have "(2::nat) ^ 8 \<le> 2 ^ Suc k" using that by (intro power_increasing) simp_all
    then show ?thesis unfolding Exp_word_base by (intro dvd_imp_mod_0 le_imp_power_dvd) simp
  qed
  from this [of 63] have "snd (Exp_word 64 w (r, 2)) = 0" for w r by (simp only: eval_nat_numeral) simp
  moreover have "big_Bits 1 = [1]"
    by (simp add: big_Bits_def nat_words.simps [of "Suc 0"] nat_words.simps [of 0])
  ultimately show ?thesis by (simp only: Exp_def fold.simps comp_apply id_apply)
qed

text \<open>C22. The checked operations of \<open>integer.go\<close> return the wrapped result, and their flag is set
  exactly when the result over the natural numbers does not fit 64 bits.\<close>

theorem checked_arithmetic:
  "SafeAdd x y = (x + y, 2 ^ 64 \<le> unat x + unat y) \<and>
   SafeMul x y = (x * y, 2 ^ 64 \<le> unat x * unat y) \<and>
   SafeSub x y = (x - y, unat x < unat y)"
  by (simp only: SafeAdd_correct SafeMul_correct SafeSub_correct simp_thms)

text \<open>C23. \<open>U256\<close> and \<open>S256\<close> read an integer as an unsigned and as a signed 256-bit word.\<close>

theorem U256_S256_words:
  "U256 x = uint (word_of_int x :: 256 word) \<and> S256 (U256 x) = sint (word_of_int x :: 256 word)"
  using S256_sint [of "U256 x"] U256_range [of x] by (simp add: U256_word)

end
