(* ===== verification/Rlp_Encode.thy ===== *)
theory Rlp_Encode
  imports Common
begin

text \<open>
  The RLP encoder, \<open>rlp/encode.go\<close>. The encoder writes string data and list headers into two
  separate buffers (\<open>encbuf\<close>) because a header holds the size of a payload that is
  not known until the list ends; \<open>toBytes\<close> splices the two together. Go's reflection picks a
  writer from the type of a value; a \<open>rval\<close> is a Go value tagged with what \<open>makeWriter\<close> looks at.

  The abstract specification is the recursive definition of RLP on \<open>item\<close>s, \<open>rlp_enc\<close>. The
  main lemma is \<open>EncodeToBytes_spec\<close>: splicing what the writers left in the two buffers gives
  exactly \<open>rlp_enc\<close> of the value.
\<close>

section \<open>Sizes and headers\<close>

function intsize_loop :: "nat \<Rightarrow> nat \<Rightarrow> nat" where
  "intsize_loop sz i =
     (let i' = i div 256 in if i' = 0 then sz else intsize_loop (Suc sz) i')"
  by pat_completeness auto
termination
  by (relation "measure snd") (auto simp: Let_def)

declare intsize_loop.simps [simp del]

definition intsize :: "nat \<Rightarrow> nat" where
  "intsize i = intsize_loop 1 i"

definition headsize :: "nat \<Rightarrow> nat" where
  "headsize sz = (if sz < 56 then 1 else 1 + intsize sz)"

definition ListSize :: "nat \<Rightarrow> nat" where
  "ListSize contentSize = headsize contentSize + contentSize"

text \<open>\<open>putint\<close> returns the bytes it stores; their number is the size it returns in Go.\<close>

definition putint :: "nat \<Rightarrow> bytes" where
  "putint i =
     (if i < 2 ^ 8 then be_bytes 1 i
      else if i < 2 ^ 16 then be_bytes 2 i
      else if i < 2 ^ 24 then be_bytes 3 i
      else if i < 2 ^ 32 then be_bytes 4 i
      else if i < 2 ^ 40 then be_bytes 5 i
      else if i < 2 ^ 48 then be_bytes 6 i
      else if i < 2 ^ 56 then be_bytes 7 i
      else be_bytes 8 i)"

definition puthead :: "byte \<Rightarrow> byte \<Rightarrow> nat \<Rightarrow> bytes" where
  "puthead smalltag largetag sz =
     (if sz < 56 then [smalltag + word_of_nat sz]
      else let p = putint sz in (largetag + word_of_nat (length p)) # p)"

section \<open>The encoding buffer\<close>

record listhead =
  offset :: nat
  lh_size :: nat

record encbuf =
  str :: bytes
  lheads :: "listhead list"
  lhsize :: nat

definition encbuf_reset :: encbuf where
  "encbuf_reset = \<lparr>str = [], lheads = [], lhsize = 0\<rparr>"

definition listhead_encode :: "listhead \<Rightarrow> bytes" where
  "listhead_encode head = puthead 0xC0 0xF7 (lh_size head)"

definition encbuf_append :: "bytes \<Rightarrow> encbuf \<Rightarrow> encbuf" where
  "encbuf_append b w = w\<lparr>str := str w @ b\<rparr>"

definition encodeStringHeader :: "nat \<Rightarrow> encbuf \<Rightarrow> encbuf" where
  "encodeStringHeader sz w =
     (if sz < 56 then encbuf_append [0x80 + word_of_nat sz] w
      else let p = putint sz in encbuf_append ((0xB7 + word_of_nat (length p)) # p) w)"

definition encodeString :: "bytes \<Rightarrow> encbuf \<Rightarrow> encbuf" where
  "encodeString b w =
     (if length b = 1 \<and> b ! 0 \<le> 0x7F then encbuf_append [b ! 0] w
      else encbuf_append b (encodeStringHeader (length b) w))"

definition encbuf_size :: "encbuf \<Rightarrow> nat" where
  "encbuf_size w = length (str w) + lhsize w"

text \<open>\<open>list\<close> returns a pointer to the new header; the model returns its index in \<open>lheads\<close>.\<close>

definition encbuf_list :: "encbuf \<Rightarrow> nat \<times> encbuf" where
  "encbuf_list w =
     (length (lheads w),
      w\<lparr>lheads := lheads w @ [\<lparr>offset = length (str w), lh_size = lhsize w\<rparr>]\<rparr>)"

definition encbuf_listEnd :: "nat \<Rightarrow> encbuf \<Rightarrow> encbuf" where
  "encbuf_listEnd i w =
     (let lh = lheads w ! i;
          sz = encbuf_size w - offset lh - lh_size lh
      in w\<lparr>lheads := (lheads w)[i := lh\<lparr>lh_size := sz\<rparr>],
           lhsize := (if sz < 56 then lhsize w + 1 else lhsize w + (1 + intsize sz))\<rparr>)"

fun toBytes_loop :: "listhead list \<Rightarrow> nat \<Rightarrow> bytes \<Rightarrow> bytes" where
  "toBytes_loop [] strpos s = drop strpos s"
| "toBytes_loop (head # heads) strpos s =
     take (offset head - strpos) (drop strpos s) @ listhead_encode head @
     toBytes_loop heads (offset head) s"

definition toBytes :: "encbuf \<Rightarrow> bytes" where
  "toBytes w = toBytes_loop (lheads w) 0 (str w)"

section \<open>Writers\<close>

text \<open>
  A Go value as \<open>makeWriter\<close> sees it. \<open>NilPtr True\<close> is a nil pointer to a byte array,
  \<open>NilPtr False\<close> one to another array or a struct; a \<open>nil\<close> interface is \<open>NilInterface\<close>.
  A slice with the struct tag \<open>tail\<close> writes its elements with no header of their own.
\<close>

datatype rval =
    RawValue bytes
  | UintV nat
  | BoolV bool
  | BigIntV "int option"
  | StringV bytes
  | BytesV bytes
  | ByteArrayV bytes
  | SliceV "rval list"
  | TailV "rval list"
  | StructV "rval list"
  | NilPtr bool
  | PtrV rval
  | NilInterface
  | InterfaceV rval

datatype enc_error = ErrNegativeBigInt

definition writeUint :: "nat \<Rightarrow> encbuf \<Rightarrow> encbuf" where
  "writeUint i w =
     (if i = 0 then encbuf_append [0x80] w
      else if i < 128 then encbuf_append [word_of_nat i] w
      else let p = putint i in encbuf_append ((0x80 + word_of_nat (length p)) # p) w)"

definition writeBool :: "bool \<Rightarrow> encbuf \<Rightarrow> encbuf" where
  "writeBool b w = (if b then encbuf_append [0x01] w else encbuf_append [0x80] w)"

definition writeBigInt :: "int \<Rightarrow> encbuf \<Rightarrow> enc_error + encbuf" where
  "writeBigInt i w =
     (if big_Cmp i 0 = -1 then Inl ErrNegativeBigInt
      else if big_Cmp i 0 = 0 then Inr (encbuf_append [0x80] w)
      else Inr (encodeString (big_Bytes i) w))"

definition writeBigIntPtr :: "int option \<Rightarrow> encbuf \<Rightarrow> enc_error + encbuf" where
  "writeBigIntPtr p w =
     (case p of None \<Rightarrow> Inr (encbuf_append [0x80] w) | Some i \<Rightarrow> writeBigInt i w)"

definition writeString :: "bytes \<Rightarrow> encbuf \<Rightarrow> encbuf" where
  "writeString s w =
     (if length s = 1 \<and> s ! 0 \<le> 0x7f then encbuf_append [s ! 0] w
      else encbuf_append s (encodeStringHeader (length s) w))"

fun writer :: "rval \<Rightarrow> encbuf \<Rightarrow> enc_error + encbuf"
  and writer_elems :: "rval list \<Rightarrow> encbuf \<Rightarrow> enc_error + encbuf" where
  "writer (RawValue b) w = Inr (encbuf_append b w)"
| "writer (UintV i) w = Inr (writeUint i w)"
| "writer (BoolV b) w = Inr (writeBool b w)"
| "writer (BigIntV p) w = writeBigIntPtr p w"
| "writer (StringV s) w = Inr (writeString s w)"
| "writer (BytesV b) w = Inr (encodeString b w)"
| "writer (ByteArrayV b) w = Inr (encodeString b w)"
| "writer (SliceV vs) w =
     (let (lh, w') = encbuf_list w in
      case writer_elems vs w' of Inl e \<Rightarrow> Inl e | Inr w'' \<Rightarrow> Inr (encbuf_listEnd lh w''))"
| "writer (TailV vs) w = writer_elems vs w"
| "writer (StructV vs) w =
     (let (lh, w') = encbuf_list w in
      case writer_elems vs w' of Inl e \<Rightarrow> Inl e | Inr w'' \<Rightarrow> Inr (encbuf_listEnd lh w''))"
| "writer (NilPtr isByteArray) w =
     (if isByteArray then Inr (encbuf_append [0x80] w)
      else let (lh, w') = encbuf_list w in Inr (encbuf_listEnd lh w'))"
| "writer (PtrV v) w = writer v w"
| "writer NilInterface w = Inr (encbuf_append [0xC0] w)"
| "writer (InterfaceV v) w = writer v w"
| "writer_elems [] w = Inr w"
| "writer_elems (v # vs) w =
     (case writer v w of Inl e \<Rightarrow> Inl e | Inr w' \<Rightarrow> writer_elems vs w')"

definition EncodeToBytes :: "rval \<Rightarrow> enc_error + bytes" where
  "EncodeToBytes v =
     (case writer v encbuf_reset of Inl e \<Rightarrow> Inl e | Inr w \<Rightarrow> Inr (toBytes w))"

section \<open>The specification: RLP on items\<close>

datatype item = Str bytes | Lst "item list"

definition enc_str :: "bytes \<Rightarrow> bytes" where
  "enc_str b = (if length b = 1 \<and> b ! 0 \<le> 0x7F then b else puthead 0x80 0xB7 (length b) @ b)"

definition enc_lst :: "bytes \<Rightarrow> bytes" where
  "enc_lst p = puthead 0xC0 0xF7 (length p) @ p"

fun rlp_enc :: "item \<Rightarrow> bytes" where
  "rlp_enc (Str b) = enc_str b"
| "rlp_enc (Lst xs) = enc_lst (concat (map rlp_enc xs))"

text \<open>The items a Go value stands for: none for an unencodable value, several for a tail.\<close>

fun items :: "rval \<Rightarrow> item list option"
  and items_all :: "rval list \<Rightarrow> item list option" where
  "items (RawValue b) = None"
| "items (UintV i) = (if i < 2 ^ 64 then Some [Str (nat_bytes i)] else None)"
| "items (BoolV b) = Some [Str (if b then [1] else [])]"
| "items (BigIntV p) =
     (case p of None \<Rightarrow> Some [Str []] | Some i \<Rightarrow> if i < 0 then None else Some [Str (big_Bytes i)])"
| "items (StringV s) = Some [Str s]"
| "items (BytesV b) = Some [Str b]"
| "items (ByteArrayV b) = Some [Str b]"
| "items (SliceV vs) = map_option (\<lambda>xs. [Lst xs]) (items_all vs)"
| "items (TailV vs) = items_all vs"
| "items (StructV vs) = map_option (\<lambda>xs. [Lst xs]) (items_all vs)"
| "items (NilPtr isByteArray) = Some [if isByteArray then Str [] else Lst []]"
| "items (PtrV v) = items v"
| "items NilInterface = Some [Lst []]"
| "items (InterfaceV v) = items v"
| "items_all [] = Some []"
| "items_all (v # vs) =
     (case items v of None \<Rightarrow> None | Some xs \<Rightarrow> map_option (\<lambda>ys. xs @ ys) (items_all vs))"

text \<open>\<open>render hs p q s\<close> is what \<open>toBytes\<close> writes for the headers \<open>hs\<close> and the string data
  from position \<open>p\<close> up to position \<open>q\<close>.\<close>

fun render :: "listhead list \<Rightarrow> nat \<Rightarrow> nat \<Rightarrow> bytes \<Rightarrow> bytes" where
  "render [] p q s = take (q - p) (drop p s)"
| "render (h # hs) p q s =
     take (offset h - p) (drop p s) @ listhead_encode h @ render hs (offset h) q s"

fun heads_in :: "listhead list \<Rightarrow> nat \<Rightarrow> nat \<Rightarrow> bool" where
  "heads_in [] p q = (p \<le> q)"
| "heads_in (h # hs) p q = (p \<le> offset h \<and> heads_in hs (offset h) q)"

definition writes :: "encbuf \<Rightarrow> encbuf \<Rightarrow> bytes \<Rightarrow> bool" where
  "writes w w' out \<longleftrightarrow>
     (\<exists>s hs. str w' = str w @ s \<and> lheads w' = lheads w @ hs \<and>
        heads_in hs (length (str w)) (length (str w')) \<and>
        render hs (length (str w)) (length (str w')) (str w') = out \<and>
        length s \<le> length out \<and> lhsize w' = lhsize w + (length out - length s))"

section \<open>The encoder implements the specification\<close>

lemma be_bytes_nat_bytes: "length (nat_bytes n) = k \<Longrightarrow> be_bytes k n = nat_bytes n"
  using be_bytes_pad [of n k] by simp

lemma length_nat_bytes_eq: "256 ^ k \<le> n \<Longrightarrow> n < 256 ^ Suc k \<Longrightarrow> length (nat_bytes n) = Suc k"
  using length_nat_bytes_le [of n k] length_nat_bytes_le [of n "Suc k"] by linarith

lemma be_bytes_exact:
  assumes "0 < k" and "256 ^ (k - 1) \<le> n" and "n < 256 ^ k"
  shows "be_bytes k n = nat_bytes n"
  using length_nat_bytes_eq [of "k - 1" n] assms by (intro be_bytes_nat_bytes) simp

lemma putint_nat_bytes:
  assumes "0 < n" and "n < 2 ^ 64"
  shows "putint n = nat_bytes n"
  using assms be_bytes_exact [of 1 n] be_bytes_exact [of 2 n]
    be_bytes_exact [of 3 n] be_bytes_exact [of 4 n] be_bytes_exact [of 5 n]
    be_bytes_exact [of 6 n] be_bytes_exact [of 7 n] be_bytes_exact [of 8 n]
  unfolding putint_def by simp

lemma intsize_loop: "intsize_loop s n = (if n = 0 then s else s + length (nat_bytes n) - 1)"
proof (induction s n rule: intsize_loop.induct)
  case (1 s n)
  show ?case
  proof (cases "n div 256 = 0")
    case True
    then show ?thesis
      by (cases "n = 0") (simp_all add: intsize_loop.simps [of s n] intsize_loop.simps [of s 0] nat_bytes.simps [of n])
  next
    case False
    then have "n \<noteq> 0" by (intro notI) simp
    have "nat_bytes n = nat_bytes (n div 256) @ [word_of_nat n]"
      using \<open>n \<noteq> 0\<close> by (simp add: nat_bytes.simps [of n])
    then show ?thesis
      using 1 False \<open>n \<noteq> 0\<close> by (simp add: intsize_loop.simps [of s n] Let_def)
  qed
qed

lemma intsize_pos: "0 < n \<Longrightarrow> intsize n = length (nat_bytes n)"
  by (simp add: intsize_def intsize_loop)

lemma length_putint: "n < 2 ^ 64 \<Longrightarrow> 56 \<le> n \<Longrightarrow> length (putint n) = intsize n"
  by (simp add: putint_nat_bytes intsize_pos)

lemma length_puthead: "n < 2 ^ 64 \<Longrightarrow> length (puthead a b n) = headsize n"
  using length_putint [of n] by (simp add: puthead_def headsize_def)

lemma encodeStringHeader_puthead: "encodeStringHeader n w = encbuf_append (puthead 0x80 0xB7 n) w"
  by (simp add: encodeStringHeader_def puthead_def Let_def)

lemma encbuf_append_append [simp]: "encbuf_append b (encbuf_append a w) = encbuf_append (a @ b) w"
  by (simp add: encbuf_append_def)

lemma one_byte: "length b = 1 \<Longrightarrow> [b ! 0] = b"
  by (cases b) simp_all

lemma encodeString_enc_str: "encodeString b w = encbuf_append (enc_str b) w"
  by (auto simp: encodeString_def enc_str_def encodeStringHeader_puthead one_byte)

lemma writeString_enc_str: "writeString b w = encbuf_append (enc_str b) w"
  by (auto simp: writeString_def enc_str_def encodeStringHeader_puthead one_byte)

lemma byte_le_7F: "n < 256 \<Longrightarrow> (word_of_nat n :: byte) \<le> 0x7F \<longleftrightarrow> n < 128"
  by (auto simp: word_le_nat_alt unat_of_nat)

lemma writeUint_enc_str:
  assumes "i < 2 ^ 64"
  shows "writeUint i w = encbuf_append (enc_str (nat_bytes i)) w"
proof (cases "i < 256")
  case True
  show ?thesis
  proof (cases "i = 0")
    case True
    then show ?thesis by (simp add: writeUint_def enc_str_def puthead_def)
  next
    case False
    with True have n: "nat_bytes i = [word_of_nat i]" by (simp add: nat_bytes.simps [of i])
    with False True show ?thesis
      by (simp add: writeUint_def enc_str_def puthead_def byte_le_7F putint_nat_bytes)
  qed
next
  case False
  then have "1 < length (nat_bytes i)" using length_nat_bytes_le [of i 1] by simp
  moreover have "length (nat_bytes i) \<le> 8" using assms by (simp add: length_nat_bytes_le)
  ultimately show ?thesis
    using False assms by (simp add: writeUint_def enc_str_def puthead_def putint_nat_bytes Let_def)
qed


lemma heads_in_le: "heads_in hs p q \<Longrightarrow> p \<le> q"
  by (induction hs arbitrary: p) fastforce+

lemma toBytes_render: "toBytes w = render (lheads w) 0 (length (str w)) (str w)"
proof -
  have "toBytes_loop hs p s = render hs p (length s) s" for hs p s
    by (induction hs arbitrary: p) simp_all
  then show ?thesis by (simp add: toBytes_def)
qed

lemma render_extend: "heads_in hs p q \<Longrightarrow> q \<le> length s \<Longrightarrow> render hs p q (s @ t) = render hs p q s"
proof (induction hs arbitrary: p)
  case (Cons h hs)
  then have "offset h \<le> q" by (auto dest: heads_in_le)
  with Cons show ?case by simp
qed simp

lemma render_skip:
  "p \<le> m \<Longrightarrow> heads_in hs m q \<Longrightarrow> render hs p q s = take (m - p) (drop p s) @ render hs m q s"
proof (cases hs)
  case Nil
  assume "p \<le> m" "heads_in hs m q"
  then have "take (q - p) (drop p s) = take (m - p) (drop p s) @ take (q - m) (drop m s)"
    using take_add [of "m - p" "q - m" "drop p s"] Nil by simp
  with Nil show ?thesis by simp
next
  case (Cons h hs')
  assume "p \<le> m" "heads_in hs m q"
  then have "take (offset h - p) (drop p s) = take (m - p) (drop p s) @ take (offset h - m) (drop m s)"
    using take_add [of "m - p" "offset h - m" "drop p s"] Cons by simp
  with Cons show ?thesis by simp
qed

lemma render_append:
  "heads_in hs1 p m \<Longrightarrow> heads_in hs2 m q \<Longrightarrow>
   render (hs1 @ hs2) p q s = render hs1 p m s @ render hs2 m q s"
  by (induction hs1 arbitrary: p) (simp_all add: render_skip)

lemma heads_in_append: "heads_in hs1 p m \<Longrightarrow> heads_in hs2 m q \<Longrightarrow> heads_in (hs1 @ hs2) p q"
proof (induction hs1 arbitrary: p)
  case Nil
  then show ?case by (cases hs2) auto
qed simp

lemma writes_append [intro]: "writes w (encbuf_append b w) b"
  by (simp add: writes_def encbuf_append_def)

lemma writes_refl [intro]: "writes w w []"
  by (simp add: writes_def)

lemma writes_trans [trans]:
  assumes "writes w w1 a" and "writes w1 w2 b"
  shows "writes w w2 (a @ b)"
proof -
  obtain s hs where 1: "str w1 = str w @ s" "lheads w1 = lheads w @ hs"
    "heads_in hs (length (str w)) (length (str w1))"
    "render hs (length (str w)) (length (str w1)) (str w1) = a"
    "length s \<le> length a" "lhsize w1 = lhsize w + (length a - length s)"
    using assms(1) unfolding writes_def by blast
  obtain t ks where 2: "str w2 = str w1 @ t" "lheads w2 = lheads w1 @ ks"
    "heads_in ks (length (str w1)) (length (str w2))"
    "render ks (length (str w1)) (length (str w2)) (str w2) = b"
    "length t \<le> length b" "lhsize w2 = lhsize w1 + (length b - length t)"
    using assms(2) unfolding writes_def by blast
  have "render (hs @ ks) (length (str w)) (length (str w2)) (str w2) = a @ b"
    using render_append [OF 1(3) 2(3), of "str w2"] render_extend [OF 1(3), of "str w1" t] 1(4) 2(1,4)
    by simp
  moreover have "heads_in (hs @ ks) (length (str w)) (length (str w2))"
    using 1(3) 2(3) by (rule heads_in_append)
  ultimately show ?thesis
    unfolding writes_def using 1 2 by (intro exI [of _ "s @ t"] exI [of _ "hs @ ks"]) simp
qed

lemma writes_list:
  assumes "encbuf_list w = (i, w1)" and "writes w1 w2 p" and "length p < 2 ^ 64"
  shows "writes w (encbuf_listEnd i w2) (enc_lst p)"
proof -
  let ?h = "\<lparr>offset = length (str w), lh_size = lhsize w\<rparr>"
  have w1: "i = length (lheads w)" "str w1 = str w" "lheads w1 = lheads w @ [?h]" "lhsize w1 = lhsize w"
    using assms(1) by (auto simp: encbuf_list_def)
  obtain s hs where 2: "str w2 = str w @ s" "lheads w2 = lheads w @ ?h # hs"
    "heads_in hs (length (str w)) (length (str w2))"
    "render hs (length (str w)) (length (str w2)) (str w2) = p"
    "length s \<le> length p" "lhsize w2 = lhsize w + (length p - length s)"
    using assms(2) w1 unfolding writes_def by auto
  have sz: "encbuf_size w2 - offset ?h - lh_size ?h = length p"
    using 2 by (simp add: encbuf_size_def)
  let ?w3 = "encbuf_listEnd i w2"
  have w3: "str ?w3 = str w @ s" "lheads ?w3 = lheads w @ ?h\<lparr>lh_size := length p\<rparr> # hs"
    "lhsize ?w3 = lhsize w2 + headsize (length p)"
    using 2(1,2) sz by (auto simp: encbuf_listEnd_def Let_def w1 headsize_def nth_append list_update_append)
  have len: "length (enc_lst p) = headsize (length p) + length p"
    using assms(3) by (simp add: enc_lst_def length_puthead)
  show ?thesis
    unfolding writes_def using 2 w3 len
    by (intro exI [of _ s] exI [of _ "?h\<lparr>lh_size := length p\<rparr> # hs"])
       (simp add: listhead_encode_def enc_lst_def)
qed

lemma length_enc_lst: "length p \<le> length (enc_lst p)"
  by (simp add: enc_lst_def)

lemma enc_str_Nil [simp]: "enc_str [] = [0x80]"
  by (simp add: enc_str_def puthead_def)

lemma enc_lst_Nil [simp]: "enc_lst [] = [0xC0]"
  by (simp add: enc_lst_def puthead_def)

lemma writeBool_enc_str: "writeBool b w = encbuf_append (enc_str (if b then [1] else [])) w"
  by (simp add: writeBool_def enc_str_def puthead_def)

lemma writeBigIntPtr_enc_str:
  "writeBigIntPtr None w = Inr (encbuf_append (enc_str []) w)"
  "0 \<le> i \<Longrightarrow> writeBigIntPtr (Some i) w = Inr (encbuf_append (enc_str (big_Bytes i)) w)"
  by (auto simp: writeBigIntPtr_def writeBigInt_def big_Cmp_def encodeString_enc_str big_Bytes_def)

lemmas writer_enc_str =
  writeUint_enc_str writeBool_enc_str writeBigIntPtr_enc_str writeString_enc_str encodeString_enc_str

lemma writer_list:
  assumes "\<And>w1. \<exists>w2. f w1 = Inr w2 \<and> writes w1 w2 p" and "length (enc_lst p) < 2 ^ 64"
  shows "\<exists>w'. (let (lh, w1) = encbuf_list w in
      case f w1 of Inl e \<Rightarrow> Inl e | Inr w2 \<Rightarrow> Inr (encbuf_listEnd lh w2)) = Inr w' \<and>
    writes w w' (enc_lst p)"
proof -
  obtain i w1 where l: "encbuf_list w = (i, w1)" by fastforce
  obtain w2 where "f w1 = Inr w2" "writes w1 w2 p" using assms(1) by blast
  with l assms(2) length_enc_lst [of p] writes_list [OF l, of w2 p] show ?thesis by simp
qed

lemma writer_writes:
  "items v = Some xs \<Longrightarrow> length (concat (map rlp_enc xs)) < 2 ^ 64 \<Longrightarrow>
     \<exists>w'. writer v w = Inr w' \<and> writes w w' (concat (map rlp_enc xs))"
  and writer_elems_writes:
  "items_all vs = Some xs \<Longrightarrow> length (concat (map rlp_enc xs)) < 2 ^ 64 \<Longrightarrow>
     \<exists>w'. writer_elems vs w = Inr w' \<and> writes w w' (concat (map rlp_enc xs))"
proof (induction v and vs arbitrary: w xs and w xs rule: items_items_all.induct)
  case (8 vs)
  then obtain ys where "items_all vs = Some ys" "xs = [Lst ys]" by auto
  with 8 length_enc_lst [of "concat (map rlp_enc ys)"]
  show ?case using writer_list [of "writer_elems vs" "concat (map rlp_enc ys)" w] by auto
next
  case (10 vs)
  then obtain ys where "items_all vs = Some ys" "xs = [Lst ys]" by auto
  with 10 length_enc_lst [of "concat (map rlp_enc ys)"]
  show ?case using writer_list [of "writer_elems vs" "concat (map rlp_enc ys)" w] by auto
next
  case (11 b)
  show ?case
  proof (cases b)
    case False
    with 11 have "xs = [Lst []]" by simp
    with False show ?thesis
      using writer_list [of Inr "[]" w] by (simp add: writes_refl)
  qed (use 11 in auto)
next
  case (16 v vs)
  then obtain ys zs where yz: "items v = Some ys" "items_all vs = Some zs" "xs = ys @ zs"
    by (auto split: option.splits)
  with "16.prems" have len: "length (concat (map rlp_enc ys)) < 2 ^ 64" "length (concat (map rlp_enc zs)) < 2 ^ 64"
    by simp_all
  from "16.IH"(1) [OF yz(1) len(1)] obtain w1 where
    1: "writer v w = Inr w1" "writes w w1 (concat (map rlp_enc ys))" by blast
  from "16.IH"(2) [OF yz(1) yz(2) len(2)] obtain w2 where
    2: "writer_elems vs w1 = Inr w2" "writes w1 w2 (concat (map rlp_enc zs))" by blast
  from 1 2 writes_trans [OF 1(2) 2(2)] show ?case by (simp add: yz(3))
qed (auto split: if_splits option.splits simp: writer_enc_str)

lemma EncodeToBytes_items:
  assumes "items v = Some xs" and "length (concat (map rlp_enc xs)) < 2 ^ 64"
  shows "EncodeToBytes v = Inr (concat (map rlp_enc xs))"
proof -
  obtain w where w: "writer v encbuf_reset = Inr w"
      "writes encbuf_reset w (concat (map rlp_enc xs))"
    using writer_writes [OF assms] by blast
  then have "toBytes w = concat (map rlp_enc xs)"
    by (auto simp: writes_def toBytes_render encbuf_reset_def)
  with w(1) show ?thesis by (simp add: EncodeToBytes_def)
qed

section \<open>Properties\<close>



end
