(* ===== verification/Rlp_Decode.thy ===== *)
theory Rlp_Decode
  imports Rlp_Encode
begin

text \<open>
  The RLP decoders: the slice splitter of \<open>rlp/raw.go\<close> and the streaming decoder of
  \<open>rlp/decode.go\<close>. A \<open>Stream\<close> is a record with the unread input, the input limit, the
  kind of value ahead that \<open>Kind\<close> caches, and the stack of enclosing lists; every method
  returns its result and the new stream. Reflection picks a decoder from the target type,
  modelled by \<open>rtype\<close>; \<open>decode\<close> returns the \<open>rval\<close> stored in the target. Its fuel is
  spent only where recursion is driven by the input (elements of a slice, nested
  interface values). Sizes are natural numbers: each is read from at most eight bytes and
  checked against the enclosing list or the input before it is added to a position, so
  the \<open>uint64\<close> arithmetic of the source does not wrap.
\<close>

section \<open>Kinds and errors\<close>

datatype kind = KByte | KString | KList

datatype rlp_error =
    ErrExpectedString | ErrExpectedList | ErrCanonInt | ErrCanonSize
  | ErrElemTooLarge | ErrValueTooLarge | ErrMoreThanOneValue
  | ErrNotInList | ErrNotAtEOL | ErrUintOverflow
  | EOL | IoEOF | IoErrUnexpectedEOF
  | ErrInvalidBool nat
  | DecodeError string
  | IndexOutOfRange
  | OutOfFuel

section \<open>rlp/raw.go\<close>

text \<open>The switch of \<open>readSize\<close> assembles the first \<open>slen\<close> bytes in big-endian order.\<close>

definition readSize :: "bytes \<Rightarrow> nat \<Rightarrow> rlp_error + nat" where
  "readSize b slen =
     (if length b < slen then Inl IoErrUnexpectedEOF
      else let s = nat (SetBytes (take slen b))
           in if s < 56 \<or> b ! 0 = 0 then Inl ErrCanonSize else Inr s)"

text \<open>Indexing \<open>buf[1]\<close> of a one-byte slice panics; that branch is \<open>IndexOutOfRange\<close>.\<close>

definition raw_readKind :: "bytes \<Rightarrow> rlp_error + (kind \<times> nat \<times> nat)" where
  "raw_readKind buf =
     (case buf of [] \<Rightarrow> Inl IoErrUnexpectedEOF
      | b # rest \<Rightarrow>
        (case
          (if b < 0x80 then Inr (KByte, 0, 1)
           else if b < 0xB8 then
             (let contentsize = unat (b - 0x80)
              in if contentsize = 1 then
                   (case rest of [] \<Rightarrow> Inl IndexOutOfRange
                    | c # _ \<Rightarrow> if c < 128 then Inl ErrCanonSize else Inr (KString, 1, contentsize))
                 else Inr (KString, 1, contentsize))
           else if b < 0xC0 then
             (case readSize rest (unat (b - 0xB7)) of Inl e \<Rightarrow> Inl e
              | Inr contentsize \<Rightarrow> Inr (KString, unat (b - 0xB7) + 1, contentsize))
           else if b < 0xF8 then Inr (KList, 1, unat (b - 0xC0))
           else
             (case readSize rest (unat (b - 0xF7)) of Inl e \<Rightarrow> Inl e
              | Inr contentsize \<Rightarrow> Inr (KList, unat (b - 0xF7) + 1, contentsize)))
         of Inl e \<Rightarrow> Inl e
          | Inr (k, tagsize, contentsize) \<Rightarrow>
              if contentsize > length buf - tagsize then Inl ErrValueTooLarge
              else Inr (k, tagsize, contentsize)))"

definition Split :: "bytes \<Rightarrow> rlp_error + (kind \<times> bytes \<times> bytes)" where
  "Split b =
     (case raw_readKind b of Inl e \<Rightarrow> Inl e
      | Inr (k, ts, cs) \<Rightarrow> Inr (k, take cs (drop ts b), drop (ts + cs) b))"

definition SplitString :: "bytes \<Rightarrow> rlp_error + (bytes \<times> bytes)" where
  "SplitString b =
     (case Split b of Inl e \<Rightarrow> Inl e
      | Inr (k, content, rest) \<Rightarrow>
          if k = KList then Inl ErrExpectedString else Inr (content, rest))"

definition SplitList :: "bytes \<Rightarrow> rlp_error + (bytes \<times> bytes)" where
  "SplitList b =
     (case Split b of Inl e \<Rightarrow> Inl e
      | Inr (k, content, rest) \<Rightarrow>
          if k \<noteq> KList then Inl ErrExpectedList else Inr (content, rest))"

lemma raw_readKind_progress [termination_simp]:
  "raw_readKind b = Inr (k, ts, cs) \<Longrightarrow> 0 < length b \<and> 0 < ts + cs"
  by (auto simp: raw_readKind_def Let_def split: list.splits sum.splits if_splits)

function CountValues_loop :: "nat \<Rightarrow> bytes \<Rightarrow> rlp_error + nat" where
  "CountValues_loop i b =
     (if b = [] then Inr i
      else case raw_readKind b of Inl e \<Rightarrow> Inl e
           | Inr (k, tagsize, sz) \<Rightarrow> CountValues_loop (Suc i) (drop (tagsize + sz) b))"
  by pat_completeness auto
termination
  by (relation "measure (\<lambda>(i, b). length b)") (auto dest!: raw_readKind_progress sym [of "Inr _"])

declare CountValues_loop.simps [simp del]

definition CountValues :: "bytes \<Rightarrow> rlp_error + nat" where
  "CountValues b = CountValues_loop 0 b"

section \<open>The stream of rlp/decode.go\<close>

text \<open>\<open>skind = None\<close> is Go's \<open>kind == -1\<close>; \<open>stk\<close> holds \<open>(pos, size)\<close>, innermost list first.\<close>

record stream =
  inp :: bytes
  remaining :: nat
  limited :: bool
  skind :: "kind option"
  ssize :: nat
  byteval :: byte
  kinderr :: "rlp_error option"
  stk :: "(nat \<times> nat) list"

definition NewStream :: "bytes \<Rightarrow> nat \<Rightarrow> stream" where
  "NewStream r inputLimit =
     \<lparr>inp = r, remaining = (if 0 < inputLimit then inputLimit else length r), limited = True,
      skind = None, ssize = 0, byteval = 0, kinderr = None, stk = []\<rparr>"

definition willRead :: "nat \<Rightarrow> stream \<Rightarrow> rlp_error option \<times> stream" where
  "willRead n s0 =
     (let s = s0\<lparr>skind := None\<rparr>;
          limit = (\<lambda>s. if limited s then
              (if n > remaining s then (Some ErrValueTooLarge, s)
               else (None, s\<lparr>remaining := remaining s - n\<rparr>))
            else (None, s))
      in case stk s of
           [] \<Rightarrow> limit s
         | (pos, sz) # st \<Rightarrow>
             if n > sz - pos then (Some ErrElemTooLarge, s)
             else limit (s\<lparr>stk := (pos + n, sz) # st\<rparr>))"

definition readByte :: "stream \<Rightarrow> (rlp_error + byte) \<times> stream" where
  "readByte s =
     (case willRead 1 s of (Some e, s1) \<Rightarrow> (Inl e, s1)
      | (None, s1) \<Rightarrow>
          (case inp s1 of [] \<Rightarrow> (Inl IoErrUnexpectedEOF, s1)
           | b # bs \<Rightarrow> (Inr b, s1\<lparr>inp := bs\<rparr>)))"

definition readFull :: "nat \<Rightarrow> stream \<Rightarrow> (rlp_error + bytes) \<times> stream" where
  "readFull n s =
     (case willRead n s of (Some e, s1) \<Rightarrow> (Inl e, s1)
      | (None, s1) \<Rightarrow>
          if length (inp s1) < n then (Inl IoErrUnexpectedEOF, s1\<lparr>inp := []\<rparr>)
          else (Inr (take n (inp s1)), s1\<lparr>inp := drop n (inp s1)\<rparr>))"

definition readUint :: "nat \<Rightarrow> stream \<Rightarrow> (rlp_error + nat) \<times> stream" where
  "readUint sz s =
     (if sz = 0 then (Inr 0, s\<lparr>skind := None\<rparr>)
      else if sz = 1 then
        (case readByte s of (Inl e, s1) \<Rightarrow> (Inl e, s1) | (Inr b, s1) \<Rightarrow> (Inr (unat b), s1))
      else
        (case readFull sz s of (Inl e, s1) \<Rightarrow> (Inl e, s1)
         | (Inr bs, s1) \<Rightarrow>
             if bs ! 0 = 0 then (Inl ErrCanonSize, s1) else (Inr (nat (SetBytes bs)), s1)))"

definition readSizeOf :: "kind \<Rightarrow> nat \<Rightarrow> stream \<Rightarrow> (kind \<times> nat \<times> rlp_error option) \<times> stream" where
  "readSizeOf k n s =
     (case readUint n s of (Inl e, s1) \<Rightarrow> ((k, 0, Some e), s1)
      | (Inr sz, s1) \<Rightarrow> ((k, sz, if sz < 56 then Some ErrCanonSize else None), s1))"

definition readKind :: "stream \<Rightarrow> (kind \<times> nat \<times> rlp_error option) \<times> stream" where
  "readKind s =
     (case readByte s of
        (Inl e, s1) \<Rightarrow>
          ((KByte, 0,
            Some (if stk s1 = [] \<and> (e = IoErrUnexpectedEOF \<or> e = ErrValueTooLarge) then IoEOF else e)), s1)
      | (Inr b, s1) \<Rightarrow>
          let s2 = s1\<lparr>byteval := 0\<rparr> in
          if b < 0x80 then ((KByte, 0, None), s2\<lparr>byteval := b\<rparr>)
          else if b < 0xB8 then ((KString, unat (b - 0x80), None), s2)
          else if b < 0xC0 then readSizeOf KString (unat (b - 0xB7)) s2
          else if b < 0xF8 then ((KList, unat (b - 0xC0), None), s2)
          else readSizeOf KList (unat (b - 0xF7)) s2)"

definition Kind :: "stream \<Rightarrow> (kind \<times> nat \<times> rlp_error option) \<times> stream" where
  "Kind s =
     (case skind s of
        Some k \<Rightarrow> ((k, ssize s, kinderr s), s)
      | None \<Rightarrow>
          let s1 = s\<lparr>kinderr := None\<rparr> in
          if stk s1 \<noteq> [] \<and> fst (hd (stk s1)) = snd (hd (stk s1)) then ((KByte, 0, Some EOL), s1)
          else
            (case readKind s1 of ((k, sz, err), s2) \<Rightarrow>
               let err' =
                 (if err = None then
                    (if stk s1 = [] then
                       (if limited s2 \<and> sz > remaining s2 then Some ErrValueTooLarge else None)
                     else
                       (if sz > snd (hd (stk s2)) - fst (hd (stk s2)) then Some ErrElemTooLarge else None))
                  else err)
               in ((k, sz, err'), s2\<lparr>skind := Some k, ssize := sz, kinderr := err'\<rparr>)))"

definition Bytes :: "stream \<Rightarrow> (rlp_error + bytes) \<times> stream" where
  "Bytes s =
     (case Kind s of
        ((k, sz, Some e), s1) \<Rightarrow> (Inl e, s1)
      | ((KByte, sz, None), s1) \<Rightarrow> (Inr [byteval s1], s1\<lparr>skind := None\<rparr>)
      | ((KString, sz, None), s1) \<Rightarrow>
          (case readFull sz s1 of (Inl e, s2) \<Rightarrow> (Inl e, s2)
           | (Inr b, s2) \<Rightarrow>
               if sz = 1 \<and> b ! 0 < 128 then (Inl ErrCanonSize, s2) else (Inr b, s2))
      | ((KList, sz, None), s1) \<Rightarrow> (Inl ErrExpectedString, s1))"

definition Raw :: "stream \<Rightarrow> (rlp_error + bytes) \<times> stream" where
  "Raw s =
     (case Kind s of
        ((k, sz, Some e), s1) \<Rightarrow> (Inl e, s1)
      | ((k, sz, None), s1) \<Rightarrow>
          if k = KByte then (Inr [byteval s1], s1\<lparr>skind := None\<rparr>)
          else
            (case readFull sz s1 of (Inl e, s2) \<Rightarrow> (Inl e, s2)
             | (Inr b, s2) \<Rightarrow>
                 if k = KString then (Inr (puthead 0x80 0xB8 sz @ b), s2)
                 else (Inr (puthead 0xC0 0xF7 sz @ b), s2)))"

definition Stream_uint :: "nat \<Rightarrow> stream \<Rightarrow> (rlp_error + nat) \<times> stream" where
  "Stream_uint maxbits s =
     (case Kind s of
        ((k, sz, Some e), s1) \<Rightarrow> (Inl e, s1)
      | ((KByte, sz, None), s1) \<Rightarrow>
          if byteval s1 = 0 then (Inl ErrCanonInt, s1)
          else (Inr (unat (byteval s1)), s1\<lparr>skind := None\<rparr>)
      | ((KString, sz, None), s1) \<Rightarrow>
          if sz > maxbits div 8 then (Inl ErrUintOverflow, s1)
          else
            (case readUint sz s1 of
               (Inl e, s2) \<Rightarrow> (Inl (if e = ErrCanonSize then ErrCanonInt else e), s2)
             | (Inr v, s2) \<Rightarrow>
                 if sz > 0 \<and> v < 128 then (Inl ErrCanonSize, s2) else (Inr v, s2))
      | ((KList, sz, None), s1) \<Rightarrow> (Inl ErrExpectedString, s1))"

definition Stream_Bool :: "stream \<Rightarrow> (rlp_error + bool) \<times> stream" where
  "Stream_Bool s =
     (case Stream_uint 8 s of (Inl e, s1) \<Rightarrow> (Inl e, s1)
      | (Inr num, s1) \<Rightarrow>
          if num = 0 then (Inr False, s1)
          else if num = 1 then (Inr True, s1)
          else (Inl (ErrInvalidBool num), s1))"

definition Stream_List :: "stream \<Rightarrow> (rlp_error + nat) \<times> stream" where
  "Stream_List s =
     (case Kind s of
        ((k, sz, Some e), s1) \<Rightarrow> (Inl e, s1)
      | ((k, sz, None), s1) \<Rightarrow>
          if k \<noteq> KList then (Inl ErrExpectedList, s1)
          else (Inr sz, s1\<lparr>stk := (0, sz) # stk s1, skind := None, ssize := 0\<rparr>))"

definition ListEnd :: "stream \<Rightarrow> rlp_error option \<times> stream" where
  "ListEnd s =
     (case stk s of
        [] \<Rightarrow> (Some ErrNotInList, s)
      | (pos, sz) # st \<Rightarrow>
          if pos \<noteq> sz then (Some ErrNotAtEOL, s)
          else
            (None, s\<lparr>stk := (case st of [] \<Rightarrow> [] | (p, z) # st' \<Rightarrow> (p + sz, z) # st'),
                    skind := None, ssize := 0\<rparr>))"

section \<open>Decoders\<close>

text \<open>The Go types \<open>makeDecoder\<close> distinguishes. \<open>TOptPtr\<close> is a pointer field tagged \<open>nil\<close>
  (the flag as in \<open>NilPtr\<close>), \<open>TTail\<close> a slice field tagged \<open>tail\<close>.\<close>

datatype rtype =
    TRaw | TUint nat | TBool | TString | TBig | TBytes | TByteArray nat
  | TSlice rtype | TTail rtype | TArray nat rtype | TStruct "rtype list"
  | TPtr rtype | TOptPtr bool rtype | TInterface

definition wrapStreamError :: "rlp_error \<Rightarrow> rlp_error" where
  "wrapStreamError err =
     (case err of
        ErrCanonInt \<Rightarrow> DecodeError ''non-canonical integer (leading zero bytes)''
      | ErrCanonSize \<Rightarrow> DecodeError ''non-canonical size information''
      | ErrExpectedList \<Rightarrow> DecodeError ''expected input list''
      | ErrExpectedString \<Rightarrow> DecodeError ''expected input string or byte''
      | ErrUintOverflow \<Rightarrow> DecodeError ''input string too long''
      | ErrNotAtEOL \<Rightarrow> DecodeError ''input list has too many elements''
      | _ \<Rightarrow> err)"

definition mapRes :: "(rlp_error \<Rightarrow> rlp_error) \<Rightarrow> ('a \<Rightarrow> 'b) \<Rightarrow>
    (rlp_error + 'a) \<times> stream \<Rightarrow> (rlp_error + 'b) \<times> stream" where
  "mapRes g f r = (case r of (Inl e, s) \<Rightarrow> (Inl (g e), s) | (Inr a, s) \<Rightarrow> (Inr (f a), s))"

definition decodeUint :: "nat \<Rightarrow> stream \<Rightarrow> (rlp_error + rval) \<times> stream" where
  "decodeUint bits s = mapRes wrapStreamError UintV (Stream_uint bits s)"

definition decodeBool :: "stream \<Rightarrow> (rlp_error + rval) \<times> stream" where
  "decodeBool s = mapRes wrapStreamError BoolV (Stream_Bool s)"

definition decodeString :: "stream \<Rightarrow> (rlp_error + rval) \<times> stream" where
  "decodeString s = mapRes wrapStreamError StringV (Bytes s)"

definition decodeByteSlice :: "stream \<Rightarrow> (rlp_error + rval) \<times> stream" where
  "decodeByteSlice s = mapRes wrapStreamError BytesV (Bytes s)"

definition decodeRawValue :: "stream \<Rightarrow> (rlp_error + rval) \<times> stream" where
  "decodeRawValue s = mapRes (\<lambda>e. e) RawValue (Raw s)"

definition decodeBigInt :: "stream \<Rightarrow> (rlp_error + rval) \<times> stream" where
  "decodeBigInt s =
     (case Bytes s of (Inl e, s1) \<Rightarrow> (Inl (wrapStreamError e), s1)
      | (Inr b, s1) \<Rightarrow>
          if b \<noteq> [] \<and> b ! 0 = 0 then (Inl (wrapStreamError ErrCanonInt), s1)
          else (Inr (BigIntV (Some (SetBytes b))), s1))"

text \<open>The error of \<open>s.Uint()\<close> is dropped in the \<open>Byte\<close> case, as in the source.\<close>

definition decodeByteArray :: "nat \<Rightarrow> stream \<Rightarrow> (rlp_error + rval) \<times> stream" where
  "decodeByteArray vlen s =
     (case Kind s of
        ((k, sz, Some e), s1) \<Rightarrow> (Inl e, s1)
      | ((KByte, sz, None), s1) \<Rightarrow>
          if vlen = 0 then (Inl (DecodeError ''input string too long''), s1)
          else if vlen > 1 then (Inl (DecodeError ''input string too short''), s1)
          else
            (case Stream_uint 64 s1 of (Inl e, s2) \<Rightarrow> (Inr (ByteArrayV [0]), s2)
             | (Inr bv, s2) \<Rightarrow> (Inr (ByteArrayV [word_of_nat bv]), s2))
      | ((KString, sz, None), s1) \<Rightarrow>
          if vlen < sz then (Inl (DecodeError ''input string too long''), s1)
          else if vlen > sz then (Inl (DecodeError ''input string too short''), s1)
          else
            (case readFull vlen s1 of (Inl e, s2) \<Rightarrow> (Inl e, s2)
             | (Inr b, s2) \<Rightarrow>
                 if sz = 1 \<and> b ! 0 < 128 then (Inl (wrapStreamError ErrCanonSize), s2)
                 else (Inr (ByteArrayV b), s2))
      | ((KList, sz, None), s1) \<Rightarrow> (Inl (wrapStreamError ErrExpectedString), s1))"

definition endList :: "(rlp_error \<Rightarrow> rlp_error) \<Rightarrow> 'a \<Rightarrow> stream \<Rightarrow> (rlp_error + 'a) \<times> stream" where
  "endList g v s = (case ListEnd s of (Some e, s1) \<Rightarrow> (Inl (g e), s1) | (None, s1) \<Rightarrow> (Inr v, s1))"

fun decode :: "nat \<Rightarrow> rtype \<Rightarrow> stream \<Rightarrow> (rlp_error + rval) \<times> stream"
  and decodeSliceElems :: "nat \<Rightarrow> rtype \<Rightarrow> stream \<Rightarrow> (rlp_error + rval list) \<times> stream"
  and decodeFields :: "nat \<Rightarrow> rtype list \<Rightarrow> stream \<Rightarrow> (rlp_error + rval list) \<times> stream"
  and decodeArrayElems :: "nat \<Rightarrow> nat \<Rightarrow> rtype \<Rightarrow> stream \<Rightarrow> (rlp_error + rval list) \<times> stream" where
  "decode f TRaw s = decodeRawValue s"
| "decode f (TUint bits) s = decodeUint bits s"
| "decode f TBool s = decodeBool s"
| "decode f TString s = decodeString s"
| "decode f TBig s = decodeBigInt s"
| "decode f TBytes s = decodeByteSlice s"
| "decode f (TByteArray n) s = decodeByteArray n s"
| "decode f (TSlice t) s =
     (case Stream_List s of (Inl e, s1) \<Rightarrow> (Inl (wrapStreamError e), s1)
      | (Inr sz, s1) \<Rightarrow>
          if sz = 0 then endList (\<lambda>e. e) (SliceV []) s1
          else
            (case decodeSliceElems f t s1 of (Inl e, s2) \<Rightarrow> (Inl e, s2)
             | (Inr vs, s2) \<Rightarrow> endList (\<lambda>e. e) (SliceV vs) s2))"
| "decode f (TTail t) s = mapRes (\<lambda>e. e) TailV (decodeSliceElems f t s)"
| "decode f (TArray n t) s =
     (case Stream_List s of (Inl e, s1) \<Rightarrow> (Inl (wrapStreamError e), s1)
      | (Inr sz, s1) \<Rightarrow>
          (case decodeArrayElems f n t s1 of (Inl e, s2) \<Rightarrow> (Inl e, s2)
           | (Inr vs, s2) \<Rightarrow>
               if length vs < n then (Inl (DecodeError ''input list has too few elements''), s2)
               else endList wrapStreamError (SliceV vs) s2))"
| "decode f (TStruct ts) s =
     (case Stream_List s of (Inl e, s1) \<Rightarrow> (Inl (wrapStreamError e), s1)
      | (Inr sz, s1) \<Rightarrow>
          (case decodeFields f ts s1 of (Inl e, s2) \<Rightarrow> (Inl e, s2)
           | (Inr vs, s2) \<Rightarrow> endList wrapStreamError (StructV vs) s2))"
| "decode f (TPtr t) s = mapRes (\<lambda>e. e) PtrV (decode f t s)"
| "decode f (TOptPtr isByteArray t) s =
     (case Kind s of
        ((k, sz, Some e), s1) \<Rightarrow> (Inl e, s1\<lparr>skind := None\<rparr>)
      | ((k, sz, None), s1) \<Rightarrow>
          if sz = 0 \<and> k \<noteq> KByte then (Inr (NilPtr isByteArray), s1\<lparr>skind := None\<rparr>)
          else mapRes (\<lambda>e. e) PtrV (decode f t s1))"
| "decode 0 TInterface s = (Inl OutOfFuel, s)"
| "decode (Suc f) TInterface s =
     (case Kind s of
        ((k, sz, Some e), s1) \<Rightarrow> (Inl e, s1)
      | ((k, sz, None), s1) \<Rightarrow>
          if k = KList then mapRes (\<lambda>e. e) InterfaceV (decode f (TSlice TInterface) s1)
          else mapRes (\<lambda>e. e) (\<lambda>b. InterfaceV (BytesV b)) (Bytes s1))"
| "decodeSliceElems 0 t s = (Inl OutOfFuel, s)"
| "decodeSliceElems (Suc f) t s =
     (case decode f t s of
        (Inl e, s1) \<Rightarrow> if e = EOL then (Inr [], s1) else (Inl e, s1)
      | (Inr v, s1) \<Rightarrow>
          mapRes (\<lambda>e. e) (\<lambda>vs. v # vs) (decodeSliceElems f t s1))"
| "decodeFields f [] s = (Inr [], s)"
| "decodeFields f (t # ts) s =
     (case decode f t s of
        (Inl e, s1) \<Rightarrow> if e = EOL then (Inl (DecodeError ''too few elements''), s1) else (Inl e, s1)
      | (Inr v, s1) \<Rightarrow> mapRes (\<lambda>e. e) (\<lambda>vs. v # vs) (decodeFields f ts s1))"
| "decodeArrayElems f 0 t s = (Inr [], s)"
| "decodeArrayElems f (Suc n) t s =
     (case decode f t s of
        (Inl e, s1) \<Rightarrow> if e = EOL then (Inr [], s1) else (Inl e, s1)
      | (Inr v, s1) \<Rightarrow> mapRes (\<lambda>e. e) (\<lambda>vs. v # vs) (decodeArrayElems f n t s1))"

text \<open>\<open>DecodeBytes\<close>: one value and no trailing data. The fuel allows two units per input byte.\<close>

definition DecodeBytes :: "rtype \<Rightarrow> bytes \<Rightarrow> rlp_error + rval" where
  "DecodeBytes t b =
     (case decode (2 * length b + 3) t (NewStream b (length b)) of
        (Inl e, s) \<Rightarrow> Inl e
      | (Inr v, s) \<Rightarrow> if inp s \<noteq> [] then Inl ErrMoreThanOneValue else Inr v)"

section \<open>Headers\<close>

lemma puthead_short: "n < 56 \<Longrightarrow> puthead a b n = [a + word_of_nat n]"
  by (simp add: puthead_def)

lemma puthead_long:
  "56 \<le> n \<Longrightarrow> n < 2 ^ 64 \<Longrightarrow> puthead a b n = (b + word_of_nat (length (nat_bytes n))) # nat_bytes n"
  by (simp add: puthead_def putint_nat_bytes Let_def)

lemma nat_bytes_len_8: "56 \<le> n \<Longrightarrow> n < 2 ^ 64 \<Longrightarrow> 0 < length (nat_bytes n) \<and> length (nat_bytes n) \<le> 8"
  using length_nat_bytes_le [of n 0] length_nat_bytes_le [of n 8] by simp

lemma unat_tag: "n + unat (a :: byte) < 256 \<Longrightarrow> unat (a + word_of_nat n) = unat a + n"
  by (simp add: unat_word_ariths unat_of_nat)

lemma byte_less_unat: "(a :: byte) < b \<longleftrightarrow> unat a < unat b"
  by (simp add: word_less_nat_alt)

lemma byte_le_unat: "(a :: byte) \<le> b \<longleftrightarrow> unat a \<le> unat b"
  by (simp add: word_le_nat_alt)

lemma unat_byte_minus: "(b :: byte) \<le> a \<Longrightarrow> unat (a - b) = unat a - unat b"
  by (rule unat_sub)

lemma readSize_nat_bytes:
  assumes "56 \<le> n"
  shows "readSize (nat_bytes n @ r) (length (nat_bytes n)) = Inr n"
proof -
  have "nat_bytes n \<noteq> []" using assms by (simp add: nat_bytes_eq_Nil)
  then have "(nat_bytes n @ r) ! 0 = hd (nat_bytes n)" by (simp add: nth_append hd_conv_nth)
  then show ?thesis
    using assms hd_nat_bytes [of n] by (simp add: readSize_def Let_def SetBytes_nat_bytes)
qed

lemma raw_readKind_string:
  assumes "length p < 2 ^ 64" and "length p = 1 \<Longrightarrow> 128 \<le> unat (hd p)"
  shows "raw_readKind (puthead 0x80 0xB7 (length p) @ p @ r) = Inr (KString, headsize (length p), length p)"
proof (cases "length p < 56")
  case True
  have u: "unat ((0x80::byte) + word_of_nat (length p)) = 128 + length p"
    using True by (subst unat_tag) simp_all
  have d: "(0x80::byte) + word_of_nat (length p) - 0x80 = word_of_nat (length p)" by simp
  have l: "unat (word_of_nat (length p) :: byte) = length p" using True by (simp add: unat_of_nat)
  have "\<not> unat c < 128" if "p @ r = c # cs" "length p = 1" for c cs
    using that assms(2) by (cases p) auto
  then show ?thesis
    using True u by (auto simp: raw_readKind_def puthead_short headsize_def byte_less_unat Let_def d l
      split: list.split)
next
  case False
  then have n: "56 \<le> length p" by simp
  let ?k = "length (nat_bytes (length p))"
  have k: "0 < ?k" "?k \<le> 8" using nat_bytes_len_8 [OF n assms(1)] by simp_all
  have u: "unat ((0xB7::byte) + word_of_nat ?k) = 183 + ?k"
    using k by (subst unat_tag) simp_all
  have l: "unat (word_of_nat ?k :: byte) = ?k" using k by (simp add: unat_of_nat)
  show ?thesis
    using n assms(1) k u by (simp add: raw_readKind_def puthead_long headsize_def byte_less_unat l
      readSize_nat_bytes intsize_pos)
qed

lemma raw_readKind_list:
  assumes "length p < 2 ^ 64"
  shows "raw_readKind (enc_lst p @ r) = Inr (KList, headsize (length p), length p)"
proof (cases "length p < 56")
  case True
  have u: "unat ((0xC0::byte) + word_of_nat (length p)) = 192 + length p"
    using True by (subst unat_tag) simp_all
  have l: "unat (word_of_nat (length p) :: byte) = length p" using True by (simp add: unat_of_nat)
  show ?thesis
    using True u by (auto simp: raw_readKind_def enc_lst_def puthead_short headsize_def byte_less_unat Let_def l)
next
  case False
  then have n: "56 \<le> length p" by simp
  let ?k = "length (nat_bytes (length p))"
  have k: "0 < ?k" "?k \<le> 8" using nat_bytes_len_8 [OF n assms(1)] by simp_all
  have u: "unat ((0xF7::byte) + word_of_nat ?k) = 247 + ?k"
    using k by (subst unat_tag) simp_all
  have l: "unat (word_of_nat ?k :: byte) = ?k" using k by (simp add: unat_of_nat)
  show ?thesis
    using n assms(1) k u by (simp add: raw_readKind_def enc_lst_def puthead_long headsize_def byte_less_unat l
      readSize_nat_bytes intsize_pos)
qed

lemma length_enc_str_head: "length b < 2 ^ 64 \<Longrightarrow> length (puthead x y (length b)) = headsize (length b)"
  by (rule length_puthead)

lemma Split_enc_lst:
  "length p < 2 ^ 64 \<Longrightarrow> Split (enc_lst p @ r) = Inr (KList, p, r)"
  by (simp add: Split_def raw_readKind_list) (simp add: enc_lst_def length_puthead)

lemma Split_enc_str:
  assumes "length b < 2 ^ 64"
  shows "Split (enc_str b @ r) = Inr (if length b = 1 \<and> b ! 0 \<le> 0x7F then KByte else KString, b, r)"
proof (cases "length b = 1 \<and> b ! 0 \<le> 0x7F")
  case True
  then obtain x where "b = [x]" by (cases b) auto
  with True show ?thesis
    by (simp add: Split_def enc_str_def raw_readKind_def byte_le_unat byte_less_unat)
next
  case False
  then have h: "length b = 1 \<Longrightarrow> 128 \<le> unat (hd b)"
    by (cases b) (auto simp: byte_le_unat)
  have e: "enc_str b = puthead 0x80 0xB7 (length b) @ b" using False by (auto simp: enc_str_def)
  show ?thesis
    using False raw_readKind_string [OF assms h] assms
    by (simp add: Split_def e length_puthead)
qed


lemma readSize_Inr:
  assumes "readSize b k = Inr n" and "0 < k" and "k \<le> 8"
  shows "k \<le> length b \<and> take k b = nat_bytes n \<and> length (nat_bytes n) = k \<and> 56 \<le> n \<and> n < 2 ^ 64"
proof -
  from assms(1) have k: "k \<le> length b" and n: "n = nat (SetBytes (take k b))" "56 \<le> n" "b ! 0 \<noteq> 0"
    by (auto simp: readSize_def Let_def split: if_splits)
  have ne: "take k b \<noteq> []" using k assms(2) by auto
  then have "hd (take k b) \<noteq> 0" using n(3) k assms(2) by (cases b) (auto simp: hd_conv_nth)
  then have t: "take k b = nat_bytes n" using ne n(1) by (simp add: nat_bytes_SetBytes)
  then have l: "length (nat_bytes n) = k" using k by (metis length_take min.absorb2)
  have "n < 256 ^ 8" using l assms(3) length_nat_bytes_le [of n 8] by simp
  with k t l n show ?thesis by simp
qed

lemma raw_readKind_canonical:
  assumes "raw_readKind b = Inr (k, ts, cs)"
  shows "ts + cs \<le> length b \<and> cs < 2 ^ 64 \<and>
    take ts b @ take cs (drop ts b) =
      (if k = KList then enc_lst (take cs (drop ts b)) else enc_str (take cs (drop ts b)))"
proof -
  obtain t rest where b: "b = t # rest" using assms by (cases b) (auto simp: raw_readKind_def)
  consider (byte) "t < 0x80" | (str) "\<not> t < 0x80" "t < 0xB8" | (lstr) "\<not> t < 0x80" "\<not> t < 0xB8" "t < 0xC0"
    | (lst) "\<not> t < 0x80" "\<not> t < 0xB8" "\<not> t < 0xC0" "t < 0xF8"
    | (llst) "\<not> t < 0x80" "\<not> t < 0xB8" "\<not> t < 0xC0" "\<not> t < 0xF8" by blast
  then show ?thesis
  proof cases
    case byte
    then show ?thesis using assms
      by (auto simp: b raw_readKind_def enc_str_def byte_less_unat byte_le_unat split: if_splits)
  next
    case str
    define n where "n = unat (t - 0x80)"
    have n: "n < 56" "t = 0x80 + word_of_nat n"
      using str unat_byte_minus [of "0x80" t] by (auto simp: n_def byte_less_unat byte_le_unat)
    have k: "k = KString" "ts = 1" "cs = n" "n \<le> length rest" and c: "n = 1 \<Longrightarrow> \<not> hd rest < 128"
      using assms str by (auto simp: b raw_readKind_def n_def Let_def split: if_splits list.splits)
    have "\<not> (n = 1 \<and> take n rest ! 0 \<le> 0x7F)" using c k(4)
      by (cases rest) (auto simp: byte_less_unat byte_le_unat)
    then show ?thesis using k n by (auto simp: b enc_str_def puthead_short min_def)
  next
    case lstr
    define m where "m = unat (t - 0xB7)"
    have m: "0 < m" "m \<le> 8" "t = 0xB7 + word_of_nat m"
      using lstr unat_byte_minus [of "0xB7" t] by (auto simp: m_def byte_less_unat byte_le_unat)
    obtain n where r: "readSize rest m = Inr n" and k: "k = KString" "ts = m + 1" "cs = n" "n \<le> length rest - m"
      using assms lstr by (auto simp: b raw_readKind_def m_def Let_def split: if_splits sum.splits)
    note f = readSize_Inr [OF r m(1,2)]
    then show ?thesis using k m by (auto simp: b enc_str_def puthead_long min_def)
  next
    case lst
    define n where "n = unat (t - 0xC0)"
    have n: "n < 56" "t = 0xC0 + word_of_nat n"
      using lst unat_byte_minus [of "0xC0" t] by (auto simp: n_def byte_less_unat byte_le_unat)
    have k: "k = KList" "ts = 1" "cs = n" "n \<le> length rest"
      using assms lst by (auto simp: b raw_readKind_def n_def Let_def split: if_splits list.splits)
    then show ?thesis using n by (auto simp: b enc_lst_def puthead_short min_def)
  next
    case llst
    define m where "m = unat (t - 0xF7)"
    have "unat t - 247 \<le> 8" using unat_byte_less [of t] by linarith
    then have m: "0 < m" "m \<le> 8" "t = 0xF7 + word_of_nat m"
      using llst unat_byte_minus [of "0xF7" t] by (auto simp: m_def byte_less_unat byte_le_unat)
    obtain n where r: "readSize rest m = Inr n" and k: "k = KList" "ts = m + 1" "cs = n" "n \<le> length rest - m"
      using assms llst by (auto simp: b raw_readKind_def m_def Let_def split: if_splits sum.splits)
    note f = readSize_Inr [OF r m(1,2)]
    then show ?thesis using k m by (auto simp: b enc_lst_def puthead_long min_def)
  qed
qed

lemma Split_canonical:
  assumes "Split b = Inr (k, c, r)"
  shows "b = (if k = KList then enc_lst c else enc_str c) @ r \<and> length c < 2 ^ 64"
proof -
  from assms obtain ts cs where k: "raw_readKind b = Inr (k, ts, cs)"
    and c: "c = take cs (drop ts b)" "r = drop (ts + cs) b"
    by (auto simp: Split_def split: sum.splits)
  have "b = (take ts b @ c) @ r"
    by (simp add: c add.commute [of ts cs] flip: drop_drop)
  moreover have "take ts b @ c = (if k = KList then enc_lst c else enc_str c)" "length c < 2 ^ 64"
    using raw_readKind_canonical [OF k] by (simp_all add: c min_def)
  ultimately show ?thesis by simp
qed

text \<open>Every value in a slice of concatenated encodings is counted once.\<close>

lemma rlp_enc_Split:
  assumes "length (rlp_enc x) < 2 ^ 64"
  shows "\<exists>k c. Split (rlp_enc x @ r) = Inr (k, c, r)"
proof (cases x)
  case (Str b)
  have "length b \<le> length (enc_str b)" by (simp add: enc_str_def)
  with assms Str show ?thesis by (simp add: Split_enc_str)
next
  case (Lst xs)
  have "length (concat (map rlp_enc xs)) \<le> length (rlp_enc x)" by (simp add: Lst length_enc_lst)
  with assms Lst show ?thesis by (simp add: Split_enc_lst)
qed

lemma rlp_enc_not_Nil: "rlp_enc x \<noteq> []"
  by (cases x) (auto simp: enc_str_def enc_lst_def puthead_def Let_def)

lemma CountValues_loop_enc:
  "length (concat (map rlp_enc xs)) < 2 ^ 64 \<Longrightarrow>
   CountValues_loop i (concat (map rlp_enc xs)) = Inr (i + length xs)"
proof (induction xs arbitrary: i)
  case Nil
  then show ?case by (simp add: CountValues_loop.simps [of i "[]"])
next
  case (Cons x xs)
  let ?b = "concat (map rlp_enc (x # xs))" and ?r = "concat (map rlp_enc xs)"
  obtain k c where s: "Split ?b = Inr (k, c, ?r)"
    using rlp_enc_Split [of x ?r] Cons.prems by auto
  then obtain ts cs where "raw_readKind ?b = Inr (k, ts, cs)" "drop (ts + cs) ?b = ?r"
    by (auto simp: Split_def split: sum.splits)
  moreover have "?b \<noteq> []" using rlp_enc_not_Nil [of x] by simp
  ultimately have "CountValues_loop i ?b = CountValues_loop (Suc i) ?r"
    by (simp only: CountValues_loop.simps [of i ?b] if_False sum.case prod.case)
  then show ?case using Cons by simp
qed

section \<open>Reading ahead\<close>

text \<open>\<open>moved n s s'\<close>: the stream has read \<open>n\<close> bytes; \<open>room n s\<close>: it may read \<open>n\<close> bytes.\<close>

fun bump :: "nat \<Rightarrow> (nat \<times> nat) list \<Rightarrow> (nat \<times> nat) list" where
  "bump n [] = []"
| "bump n ((p, z) # st) = (p + n, z) # st"

definition moved :: "nat \<Rightarrow> stream \<Rightarrow> stream \<Rightarrow> bool" where
  "moved n s s' \<longleftrightarrow> inp s' = drop n (inp s) \<and> limited s' = limited s \<and>
     remaining s' = (if limited s then remaining s - n else remaining s) \<and>
     stk s' = bump n (stk s)"

definition room :: "nat \<Rightarrow> stream \<Rightarrow> bool" where
  "room n s \<longleftrightarrow> (limited s \<longrightarrow> n \<le> remaining s) \<and>
     (case stk s of [] \<Rightarrow> True | (p, z) # _ \<Rightarrow> p + n \<le> z)"

fun is_tail :: "rtype \<Rightarrow> bool" where
  "is_tail (TTail t) = True"
| "is_tail (TPtr t) = is_tail t"
| "is_tail t = False"

text \<open>\<open>hasType t v\<close>: the Go value \<open>v\<close> is of type \<open>t\<close> and its encoding determines it.\<close>

fun isIface :: "rval \<Rightarrow> bool" where
  "isIface (InterfaceV (BytesV b)) = True"
| "isIface (InterfaceV (SliceV vs)) = list_all isIface vs"
| "isIface _ = False"

fun hasType :: "rtype \<Rightarrow> rval \<Rightarrow> bool"
  and hasFields :: "rtype list \<Rightarrow> rval list \<Rightarrow> bool" where
  "hasType TRaw v = False"
| "hasType (TUint bits) v = (case v of UintV i \<Rightarrow> bits \<in> {8, 16, 32, 64} \<and> i < 2 ^ bits | _ \<Rightarrow> False)"
| "hasType TBool v = (case v of BoolV b \<Rightarrow> True | _ \<Rightarrow> False)"
| "hasType TString v = (case v of StringV b \<Rightarrow> True | _ \<Rightarrow> False)"
| "hasType TBytes v = (case v of BytesV b \<Rightarrow> True | _ \<Rightarrow> False)"
| "hasType TBig v = (case v of BigIntV (Some i) \<Rightarrow> 0 \<le> i | _ \<Rightarrow> False)"
| "hasType (TByteArray n) v = (case v of ByteArrayV b \<Rightarrow> length b = n \<and> b \<noteq> [0] | _ \<Rightarrow> False)"
| "hasType (TSlice t) v =
     (case v of SliceV vs \<Rightarrow> \<not> is_tail t \<and> list_all (hasType t) vs | _ \<Rightarrow> False)"
| "hasType (TTail t) v =
     (case v of TailV vs \<Rightarrow> \<not> is_tail t \<and> list_all (hasType t) vs | _ \<Rightarrow> False)"
| "hasType (TArray n t) v =
     (case v of SliceV vs \<Rightarrow> \<not> is_tail t \<and> length vs = n \<and> list_all (hasType t) vs | _ \<Rightarrow> False)"
| "hasType (TStruct ts) v = (case v of StructV vs \<Rightarrow> hasFields ts vs | _ \<Rightarrow> False)"
| "hasType (TPtr t) v = (case v of PtrV w \<Rightarrow> \<not> is_tail t \<and> hasType t w | _ \<Rightarrow> False)"
| "hasType (TOptPtr c t) v =
     (case v of NilPtr d \<Rightarrow> c = d
      | PtrV w \<Rightarrow> \<not> is_tail t \<and> hasType t w \<and> items w \<noteq> Some [Str []] \<and> items w \<noteq> Some [Lst []]
      | _ \<Rightarrow> False)"
| "hasType TInterface v = isIface v"
| "hasFields [] vs = (vs = [])"
| "hasFields (t # ts) vs =
     (case vs of [] \<Rightarrow> False
      | v # vs' \<Rightarrow> hasType t v \<and> (is_tail t \<longrightarrow> ts = []) \<and> hasFields ts vs')"

lemma bump_bump [simp]: "bump n (bump m st) = bump (m + n) st"
  by (cases st) auto

lemma bump_0 [simp]: "bump 0 st = st"
  by (cases st) auto

lemma bump_eq_Nil [simp]: "bump n st = [] \<longleftrightarrow> st = []"
  by (cases st) auto

lemma moved_trans [trans]: "moved m s s1 \<Longrightarrow> moved n s1 s2 \<Longrightarrow> moved (m + n) s s2"
  by (simp add: moved_def add.commute)

lemma moved_room: "moved m s s1 \<Longrightarrow> room (m + n) s \<Longrightarrow> room n s1"
  by (auto simp: moved_def room_def split: list.splits)

lemma room_mono: "room n s \<Longrightarrow> m \<le> n \<Longrightarrow> room m s"
  by (auto simp: room_def split: list.splits)

lemma willRead_room:
  "room n s \<Longrightarrow> willRead n s = (None, s\<lparr>skind := None,
     remaining := (if limited s then remaining s - n else remaining s), stk := bump n (stk s)\<rparr>)"
  by (auto simp: willRead_def room_def Let_def split: list.splits)

lemma readFull_ok:
  assumes "inp s = b @ r" and "room (length b) s"
  shows "\<exists>s'. readFull (length b) s = (Inr b, s') \<and> moved (length b) s s' \<and> skind s' = None \<and>
    byteval s' = byteval s \<and> ssize s' = ssize s \<and> kinderr s' = kinderr s"
  using assms by (auto simp: readFull_def willRead_room moved_def)

lemma readByte_ok:
  assumes "inp s = b # r" and "room 1 s"
  shows "\<exists>s'. readByte s = (Inr b, s') \<and> moved 1 s s' \<and> skind s' = None"
  using assms by (auto simp: readByte_def willRead_room [where n = 1, simplified] moved_def)

lemma readUint_ok:
  assumes "inp s = nat_bytes n @ r" and "room (length (nat_bytes n)) s"
  shows "\<exists>s'. readUint (length (nat_bytes n)) s = (Inr n, s') \<and>
    moved (length (nat_bytes n)) s s' \<and> skind s' = None"
proof -
  consider "nat_bytes n = []" | b where "nat_bytes n = [b]" | a b c where "nat_bytes n = a # b # c"
    by (metis neq_Nil_conv)
  then show ?thesis
  proof cases
    case 1
    then show ?thesis by (auto simp: readUint_def moved_def nat_bytes_eq_Nil)
  next
    case 2
    then have "unat b = n" using SetBytes_nat_bytes [of n] by (simp add: SetBytes_single unat_eq_nat_uint)
    with 2 readByte_ok [of s b r] assms show ?thesis by (auto simp: readUint_def)
  next
    case 3
    then have "0 < n" using nat_bytes_0 by (cases n) auto
    then have "nat_bytes n ! 0 \<noteq> 0" using hd_nat_bytes [of n] 3 by (simp add: hd_conv_nth)
    then show ?thesis using readFull_ok [OF assms] 3 SetBytes_nat_bytes [of n]
      by (auto simp: readUint_def)
  qed
qed

lemma Kind_cached: "skind s = Some k \<Longrightarrow> Kind s = ((k, ssize s, kinderr s), s)"
  by (simp add: Kind_def)

lemma Kind_idem:
  assumes "Kind s = ((k, sz, None), s1)"
  shows "Kind s1 = ((k, sz, None), s1)"
proof (cases "skind s")
  case (Some k')
  with assms show ?thesis by (auto simp: Kind_cached)
next
  case None
  obtain k' sz' err s2 where r: "readKind (s\<lparr>kinderr := None\<rparr>) = ((k', sz', err), s2)"
    by (metis prod.exhaust)
  show ?thesis
    using assms None r by (intro Kind_cached [of s1 k, THEN trans])
      (auto simp: Kind_def Let_def split: if_splits)
qed

text \<open>The stream after \<open>Kind\<close> has read the header of a value.\<close>

definition peeked :: "kind \<Rightarrow> nat \<Rightarrow> stream \<Rightarrow> bool" where
  "peeked k sz s \<longleftrightarrow> skind s = Some k \<and> ssize s = sz \<and> kinderr s = None"

lemma Kind_peeked: "peeked k sz s \<Longrightarrow> Kind s = ((k, sz, None), s)"
  by (simp add: Kind_cached peeked_def)

lemma Kind_readKind:
  assumes "skind s = None" and "room (h + sz) s" and "0 < h"
    and "readKind (s\<lparr>kinderr := None\<rparr>) = ((k, sz, None), s2)" and "moved h (s\<lparr>kinderr := None\<rparr>) s2"
  shows "\<exists>s'. Kind s = ((k, sz, None), s') \<and> moved h s s' \<and> peeked k sz s' \<and> byteval s' = byteval s2"
proof -
  have n: "\<not> (stk s \<noteq> [] \<and> fst (hd (stk s)) = snd (hd (stk s)))"
    using assms(2,3) by (auto simp: room_def split: list.splits)
  have r: "room sz s2" using moved_room [OF assms(5), of sz] assms(2) by (simp add: room_def)
  have "stk s2 = bump h (stk s)" using assms(5) by (simp add: moved_def)
  then have e: "Kind s = ((k, sz, None), s2\<lparr>skind := Some k, ssize := sz, kinderr := None\<rparr>)"
    using assms n r by (cases "stk s") (auto simp: Kind_def Let_def room_def)
  then show ?thesis using assms(5) by (auto simp: moved_def peeked_def)
qed

lemma headsize_pos [simp]: "0 < headsize n"
  by (simp add: headsize_def)

lemma readKind_head:
  assumes "(k, a, b) = (KString, 0x80, 0xB7) \<or> (k, a, b) = (KList, 0xC0, 0xF7)"
    and "n < 2 ^ 64" and "inp s = puthead a b n @ r" and "room (headsize n) s"
  shows "\<exists>s2. readKind s = ((k, n, None), s2) \<and> moved (headsize n) s s2"
proof (cases "n < 56")
  case True
  obtain s1 where r: "readByte s = (Inr (a + word_of_nat n), s1)" "moved 1 s s1"
    using readByte_ok [of s "a + word_of_nat n" r] assms True by (auto simp: puthead_short headsize_def)
  have u: "unat (a + word_of_nat n) = unat a + n" using assms(1) True by (subst unat_tag) auto
  have l: "unat (word_of_nat n :: byte) = n" using True by (simp add: unat_of_nat)
  show ?thesis using r u True assms(1) l
    by (auto simp: readKind_def Let_def byte_less_unat headsize_def moved_def)
next
  case False
  then have n: "56 \<le> n" by simp
  let ?k = "length (nat_bytes n)"
  have k: "0 < ?k" "?k \<le> 8" using nat_bytes_len_8 [OF n assms(2)] by simp_all
  have i: "inp s = (b + word_of_nat ?k) # nat_bytes n @ r" and h: "headsize n = 1 + ?k"
    using assms n by (simp_all add: puthead_long headsize_def intsize_pos)
  obtain s1 where r: "readByte s = (Inr (b + word_of_nat ?k), s1)" "moved 1 s s1"
    using readByte_ok [OF i room_mono [OF assms(4)]] h by auto
  define s2 where "s2 = s1\<lparr>byteval := 0\<rparr>"
  have m: "moved 1 s s2" using r(2) by (simp add: s2_def moved_def)
  then have "inp s2 = nat_bytes n @ r" "room ?k s2"
    using i moved_room [OF m, of ?k] assms(4) h by (auto simp: moved_def)
  then obtain s3 where s3: "readUint ?k s2 = (Inr n, s3)" "moved ?k s2 s3" using readUint_ok by blast
  have u: "unat (b + word_of_nat ?k) = unat b + ?k" using assms(1) k by (subst unat_tag) auto
  have l: "unat (word_of_nat ?k :: byte) = ?k" using k by (simp add: unat_of_nat)
  have "readKind s = readSizeOf k ?k s2"
    using r(1) u k assms(1) l by (auto simp: readKind_def Let_def byte_less_unat simp flip: s2_def)
  then show ?thesis using s3 n moved_trans [OF m s3(2)] h by (auto simp: readSizeOf_def)
qed

lemma Kind_head:
  assumes "(k, a, b) = (KString, 0x80, 0xB7) \<or> (k, a, b) = (KList, 0xC0, 0xF7)"
    and "n < 2 ^ 64" and "inp s = puthead a b n @ r" and "room (headsize n + n) s" and "skind s = None"
  shows "\<exists>s'. Kind s = ((k, n, None), s') \<and> moved (headsize n) s s' \<and> peeked k n s'"
proof -
  have "inp (s\<lparr>kinderr := None\<rparr>) = puthead a b n @ r" "room (headsize n) (s\<lparr>kinderr := None\<rparr>)"
    using assms(3) room_mono [OF assms(4), of "headsize n"] by (simp_all add: room_def)
  from readKind_head [OF assms(1,2) this] Kind_readKind [OF assms(5,4) headsize_pos] show ?thesis
    by blast
qed

lemma Kind_byte:
  assumes "inp s = x # r" and "x \<le> 0x7F" and "room 1 s" and "skind s = None"
  shows "\<exists>s'. Kind s = ((KByte, 0, None), s') \<and> moved 1 s s' \<and> peeked KByte 0 s' \<and> byteval s' = x"
proof -
  let ?s = "s\<lparr>kinderr := None\<rparr>"
  obtain s1 where r: "readByte ?s = (Inr x, s1)" "moved 1 ?s s1"
    using readByte_ok [of ?s x r] assms by (auto simp: room_def)
  then have "readKind ?s = ((KByte, 0, None), s1\<lparr>byteval := x\<rparr>)"
    using assms(2) by (simp add: readKind_def Let_def byte_less_unat byte_le_unat)
  moreover have "moved 1 ?s (s1\<lparr>byteval := x\<rparr>)" using r(2) by (simp add: moved_def)
  ultimately show ?thesis using Kind_readKind [of s 1 0 KByte] assms by fastforce
qed

lemmas Kind_string = Kind_head [of KString "0x80" "0xB7", simplified]
lemmas Kind_list = Kind_head [of KList "0xC0" "0xF7", simplified]

lemma enc_str_cases:
  obtains (one) x where "b = [x]" "x \<le> 0x7F" "enc_str b = [x]"
  | (head) "enc_str b = puthead 0x80 0xB7 (length b) @ b" "length b = 1 \<Longrightarrow> \<not> b ! 0 < 128"
proof (cases "length b = 1 \<and> b ! 0 \<le> 0x7F")
  case True
  then show ?thesis using one by (cases b) (auto simp: enc_str_def)
next
  case False
  then show ?thesis using head by (auto simp: enc_str_def byte_less_unat byte_le_unat)
qed

lemma Bytes_ok:
  assumes "inp s = enc_str b @ r" and "room (length (enc_str b)) s" and "skind s = None"
    and "length b < 2 ^ 64"
  shows "\<exists>s'. Bytes s = (Inr b, s') \<and> moved (length (enc_str b)) s s' \<and> skind s' = None"
proof (cases rule: enc_str_cases [of b])
  case (one x)
  then show ?thesis using Kind_byte [of s x r] assms by (auto simp: Bytes_def moved_def)
next
  case head
  obtain s1 where s1: "Kind s = ((KString, length b, None), s1)" "moved (headsize (length b)) s s1"
    using Kind_string [of "length b" s "b @ r"] assms head by (auto simp: length_puthead)
  then have "inp s1 = b @ r" "room (length b) s1"
    using assms head moved_room [OF s1(2), of "length b"] by (auto simp: moved_def length_puthead)
  then obtain s2 where "readFull (length b) s1 = (Inr b, s2)" "moved (length b) s1 s2" "skind s2 = None"
    using readFull_ok by blast
  then show ?thesis using s1(1) moved_trans [OF s1(2)] head assms(4)
    by (auto simp: Bytes_def length_puthead)
qed

lemma Stream_List_ok:
  assumes "inp s = enc_lst p @ r" and "room (length (enc_lst p)) s" and "skind s = None"
    and "length p < 2 ^ 64"
  shows "\<exists>s'. Stream_List s = (Inr (length p), s') \<and> inp s' = p @ r \<and> skind s' = None \<and>
    limited s' = limited s \<and> stk s' = (0, length p) # bump (headsize (length p)) (stk s) \<and>
    remaining s' = (if limited s then remaining s - headsize (length p) else remaining s)"
proof -
  obtain s1 where s1: "Kind s = ((KList, length p, None), s1)" "moved (headsize (length p)) s s1"
    using Kind_list [of "length p" s "p @ r"] assms by (auto simp: length_puthead enc_lst_def)
  then show ?thesis using assms by (auto simp: Stream_List_def moved_def enc_lst_def length_puthead)
qed

lemma ListEnd_ok:
  assumes "inp s1 = p @ r" "limited s1 = limited s" "length p < 2 ^ 64"
    "stk s1 = (0, length p) # bump (headsize (length p)) (stk s)"
    "remaining s1 = (if limited s then remaining s - headsize (length p) else remaining s)"
    and "inp s = enc_lst p @ r" and "moved (length p) s1 s2"
  shows "\<exists>s3. ListEnd s2 = (None, s3) \<and> moved (length (enc_lst p)) s s3 \<and> skind s3 = None"
  using assms by (cases "stk s") (auto simp: ListEnd_def moved_def enc_lst_def length_puthead)

lemma nat_bytes_single: "nat_bytes i = [x] \<Longrightarrow> unat x = i"
  using SetBytes_nat_bytes [of i] by (simp add: SetBytes_single unat_eq_nat_uint)

lemma Stream_uint_ok:
  assumes "inp s = enc_str (nat_bytes i) @ r" and "room (length (enc_str (nat_bytes i))) s"
    and "skind s = None" and "bits \<in> {8, 16, 32, 64}" and "i < 2 ^ bits"
  shows "\<exists>s'. Stream_uint bits s = (Inr i, s') \<and> moved (length (enc_str (nat_bytes i))) s s' \<and>
    skind s' = None"
proof (cases rule: enc_str_cases [of "nat_bytes i"])
  case (one x)
  then have "i \<noteq> 0" using nat_bytes_eq_Nil [of i] by auto
  then have "x \<noteq> 0" "unat x = i" using nat_bytes_single [OF one(1)] by auto
  with one show ?thesis using Kind_byte [of s x r] assms by (auto simp: Stream_uint_def moved_def)
next
  case head
  let ?n = "length (nat_bytes i)"
  have n: "?n \<le> bits div 8" using assms(4,5) by (auto simp: length_nat_bytes_le)
  then have n8: "?n < 2 ^ 64" using assms(4) by auto
  obtain s1 where s1: "Kind s = ((KString, ?n, None), s1)" "moved (headsize ?n) s s1"
    using Kind_string [of ?n s "nat_bytes i @ r"] assms head n8 by (auto simp: length_puthead)
  then have "inp s1 = nat_bytes i @ r" "room ?n s1"
    using assms head moved_room [OF s1(2), of ?n] n8 by (auto simp: moved_def length_puthead)
  then obtain s2 where s2: "readUint ?n s1 = (Inr i, s2)" "moved ?n s1 s2" "skind s2 = None"
    using readUint_ok by blast
  have "128 \<le> i" if "0 < ?n"
  proof (cases "?n = 1")
    case True
    then obtain x where "nat_bytes i = [x]" by (cases "nat_bytes i") auto
    then show ?thesis using nat_bytes_single head(2) by (auto simp: byte_less_unat)
  next
    case False
    with that have "\<not> ?n \<le> 1" by linarith
    then show ?thesis using length_nat_bytes_le [of i 1] by simp
  qed
  then show ?thesis using s1(1) s2 moved_trans [OF s1(2) s2(2)] head n n8
    by (auto simp: Stream_uint_def length_puthead)
qed

lemma Stream_Bool_ok:
  assumes "inp s = enc_str (if b then [1] else []) @ r"
    and "room (length (enc_str (if b then [1] else []))) s" and "skind s = None"
  shows "\<exists>s'. Stream_Bool s = (Inr b, s') \<and> moved (length (enc_str (if b then [1] else []))) s s' \<and>
    skind s' = None"
proof -
  have e: "(if b then [1] else []) = nat_bytes (if b then 1 else 0)"
    by (simp add: nat_bytes.simps [of "Suc 0"])
  from Stream_uint_ok [of s "if b then 1 else 0" r 8] assms show ?thesis
    by (auto simp: e Stream_Bool_def)
qed

lemma decodeByteArray_ok:
  assumes "inp s = enc_str b @ r" and "room (length (enc_str b)) s" and "skind s = None"
    and "length b < 2 ^ 64" and "b \<noteq> [0]"
  shows "\<exists>s'. decodeByteArray (length b) s = (Inr (ByteArrayV b), s') \<and>
    moved (length (enc_str b)) s s' \<and> skind s' = None"
proof (cases rule: enc_str_cases [of b])
  case (one x)
  obtain s1 where s1: "Kind s = ((KByte, 0, None), s1)" "moved 1 s s1" "byteval s1 = x"
    using Kind_byte [of s x r] one assms by auto
  then have "Stream_uint 64 s1 = (Inr (unat x), s1\<lparr>skind := None\<rparr>)"
    using assms(5) one by (simp add: Stream_uint_def Kind_idem)
  then show ?thesis using s1 one by (auto simp: decodeByteArray_def moved_def)
next
  case head
  obtain s1 where s1: "Kind s = ((KString, length b, None), s1)" "moved (headsize (length b)) s s1"
    using Kind_string [of "length b" s "b @ r"] assms head by (auto simp: length_puthead)
  then have "inp s1 = b @ r" "room (length b) s1"
    using assms head moved_room [OF s1(2), of "length b"] by (auto simp: moved_def length_puthead)
  then obtain s2 where "readFull (length b) s1 = (Inr b, s2)" "moved (length b) s1 s2" "skind s2 = None"
    using readFull_ok by blast
  then show ?thesis using s1(1) moved_trans [OF s1(2)] head assms(4)
    by (auto simp: decodeByteArray_def length_puthead)
qed

text \<open>Every decoder but the one of a tail starts by asking for the kind of the value ahead.\<close>

lemma decode_Kind: "Kind s' = Kind s \<Longrightarrow> 0 < f \<Longrightarrow> \<not> is_tail t \<Longrightarrow> decode f t s' = decode f t s"
proof (induction t)
  case TRaw
  then show ?case by (simp add: decodeRawValue_def Raw_def)
next
  case TInterface
  then show ?case by (cases f) (simp_all add: Bytes_def)
qed (simp_all add: decodeUint_def decodeBool_def Stream_Bool_def decodeString_def decodeBigInt_def
    decodeByteSlice_def decodeByteArray_def Stream_uint_def Bytes_def Stream_List_def)

text \<open>At the end of a list every decoder reports \<open>EOL\<close> and leaves the stream in place.\<close>

definition at_end :: "stream \<Rightarrow> bool" where
  "at_end s \<longleftrightarrow> skind s = None \<and> (\<exists>z st. stk s = (z, z) # st)"

lemma Kind_at_end:
  "at_end s \<Longrightarrow> Kind s = ((KByte, 0, Some EOL), s\<lparr>kinderr := None\<rparr>)"
  by (auto simp: at_end_def Kind_def Let_def)

lemma decode_at_end:
  "at_end s \<Longrightarrow> \<not> is_tail t \<Longrightarrow> 0 < f \<Longrightarrow> \<exists>s'. decode f t s = (Inl EOL, s') \<and> moved 0 s s' \<and> skind s' = None"
proof (induction t)
  case TRaw
  then show ?case by (auto simp: decodeRawValue_def Raw_def Kind_at_end mapRes_def moved_def at_end_def)
next
  case TInterface
  then show ?case by (cases f) (auto simp: Kind_at_end moved_def at_end_def)
next
  case (TPtr t)
  then show ?case by (auto simp: mapRes_def)
qed (auto simp: decodeUint_def decodeBool_def Stream_Bool_def decodeString_def decodeBigInt_def Stream_uint_def
    Bytes_def Stream_List_def Kind_at_end mapRes_def wrapStreamError_def moved_def at_end_def
    decodeByteSlice_def decodeByteArray_def)

section \<open>Decoding inverts encoding\<close>

abbreviation enc_all :: "item list \<Rightarrow> bytes" where
  "enc_all xs \<equiv> concat (map rlp_enc xs)"

text \<open>Fuel the decoder of a type needs beyond two units per byte of the encoding.\<close>

fun need :: "rtype \<Rightarrow> nat" where
  "need (TTail t) = 4"
| "need (TSlice t) = 2"
| "need t = 3"

lemma need_bounds: "need t \<le> 4" "2 \<le> need t" "\<not> is_tail t \<Longrightarrow> need t \<le> 3"
  by (cases t; simp)+

definition reads :: "rval \<Rightarrow> bool" where
  "reads v \<longleftrightarrow> (\<forall>t f s r xs. hasType t v \<and> items v = Some xs \<and> skind s = None \<and>
     inp s = enc_all xs @ r \<and> room (length (enc_all xs)) s \<and> length (enc_all xs) < 2 ^ 64 \<and>
     (is_tail t \<longrightarrow> (\<exists>p st. stk s = (p, p + length (enc_all xs)) # st)) \<and>
     2 * length (enc_all xs) + need t \<le> f \<longrightarrow>
     (\<exists>s'. decode f t s = (Inr v, s') \<and> moved (length (enc_all xs)) s s' \<and> skind s' = None))"

lemma readsD:
  "reads v \<Longrightarrow> hasType t v \<Longrightarrow> items v = Some xs \<Longrightarrow> skind s = None \<Longrightarrow> inp s = enc_all xs @ r \<Longrightarrow>
   room (length (enc_all xs)) s \<Longrightarrow> length (enc_all xs) < 2 ^ 64 \<Longrightarrow>
   (is_tail t \<Longrightarrow> \<exists>p st. stk s = (p, p + length (enc_all xs)) # st) \<Longrightarrow>
   2 * length (enc_all xs) + need t \<le> f \<Longrightarrow>
   \<exists>s'. decode f t s = (Inr v, s') \<and> moved (length (enc_all xs)) s s' \<and> skind s' = None"
  unfolding reads_def by blast

lemma hasType_single: "hasType t v \<Longrightarrow> \<not> is_tail t \<Longrightarrow> items v = Some xs \<Longrightarrow> \<exists>x. xs = [x]"
proof (induction t arbitrary: v)
  case TInterface
  then show ?case by (cases v rule: isIface.cases) (auto)
qed (auto split: rval.splits option.splits if_splits)

lemma enc_all_pos: "hasType t v \<Longrightarrow> \<not> is_tail t \<Longrightarrow> items v = Some xs \<Longrightarrow> 0 < length (enc_all xs)"
  using hasType_single [of t v xs] rlp_enc_not_Nil by auto

lemma items_all_Cons:
  "items_all (v # vs) = Some zs \<longleftrightarrow> (\<exists>xs ys. items v = Some xs \<and> items_all vs = Some ys \<and> zs = xs @ ys)"
  by (auto split: option.splits)

lemma decodeSliceElems_ok:
  assumes "\<forall>v\<in>set vs. reads v" and "\<not> is_tail t" and "list_all (hasType t) vs"
    and "items_all vs = Some xs" and "skind s = None" and "inp s = enc_all xs @ r"
    and "room (length (enc_all xs)) s" and "length (enc_all xs) < 2 ^ 64"
    and "stk s = (p, p + length (enc_all xs)) # st" and "2 * length (enc_all xs) + 4 \<le> f"
  shows "\<exists>s'. decodeSliceElems f t s = (Inr vs, s') \<and> moved (length (enc_all xs)) s s' \<and> skind s' = None"
  using assms
proof (induction vs arbitrary: s p f xs)
  case Nil
  then obtain g where f: "f = Suc g" "0 < g" by (cases f) auto
  have "at_end s" using Nil by (simp add: at_end_def)
  from decode_at_end [OF this Nil.prems(2) f(2)] Nil f(1) show ?case by auto
next
  case (Cons v vs)
  from Cons.prems(4) obtain ys zs where i: "items v = Some ys" "items_all vs = Some zs" "xs = ys @ zs"
    by (auto simp: items_all_Cons simp del: items_all.simps)
  obtain g where f: "f = Suc g" using Cons.prems by (cases f) auto
  let ?m = "length (enc_all ys)" and ?n = "length (enc_all zs)"
  have "0 < ?m" using enc_all_pos [of t v ys] Cons.prems i by simp
  moreover have "length (enc_all xs) = ?m + ?n" by (simp add: i)
  ultimately have g: "2 * ?n + 4 \<le> g" using Cons.prems(10) f by linarith
  have "room ?m s" using Cons.prems(7) i by (auto intro: room_mono)
  then obtain s1 where s1: "decode g t s = (Inr v, s1)" "moved ?m s s1" "skind s1 = None"
    using readsD [of v t ys s "enc_all zs @ r" g] Cons.prems i f need_bounds(3) [of t] by auto
  have "inp s1 = enc_all zs @ r" "stk s1 = (p + ?m, (p + ?m) + ?n) # st" "room ?n s1"
    using s1(2) Cons.prems i moved_room [OF s1(2), of ?n] by (auto simp: moved_def)
  then obtain s2 where "decodeSliceElems g t s1 = (Inr vs, s2)" "moved ?n s1 s2" "skind s2 = None"
    using Cons.IH [of zs s1 "p + ?m" g] Cons.prems i g s1 by auto
  then show ?case using s1 moved_trans [OF s1(2)] f i by (auto simp: mapRes_def)
qed

lemma decodeArrayElems_ok:
  assumes "\<forall>v\<in>set vs. reads v" and "\<not> is_tail t" and "list_all (hasType t) vs"
    and "items_all vs = Some xs" and "skind s = None" and "inp s = enc_all xs @ r"
    and "room (length (enc_all xs)) s" and "length (enc_all xs) < 2 ^ 64"
    and "2 * length (enc_all xs) + 4 \<le> f"
  shows "\<exists>s'. decodeArrayElems f (length vs) t s = (Inr vs, s') \<and>
    moved (length (enc_all xs)) s s' \<and> skind s' = None"
  using assms
proof (induction vs arbitrary: s xs)
  case Nil
  then show ?case by (auto simp: moved_def)
next
  case (Cons v vs)
  from Cons.prems(4) obtain ys zs where i: "items v = Some ys" "items_all vs = Some zs" "xs = ys @ zs"
    by (auto simp: items_all_Cons simp del: items_all.simps)
  let ?m = "length (enc_all ys)" and ?n = "length (enc_all zs)"
  have "room ?m s" using Cons.prems(7) i by (auto intro: room_mono)
  then obtain s1 where s1: "decode f t s = (Inr v, s1)" "moved ?m s s1" "skind s1 = None"
    using readsD [of v t ys s "enc_all zs @ r" f] Cons.prems i need_bounds(3) [of t] by auto
  have "inp s1 = enc_all zs @ r" "room ?n s1"
    using s1(2) Cons.prems i moved_room [OF s1(2), of ?n] by (auto simp: moved_def)
  then obtain s2 where "decodeArrayElems f (length vs) t s1 = (Inr vs, s2)" "moved ?n s1 s2" "skind s2 = None"
    using Cons.IH [of zs s1] Cons.prems i s1 by auto
  then show ?case using s1 moved_trans [OF s1(2)] i by (auto simp: mapRes_def)
qed

lemma decodeFields_ok:
  assumes "\<forall>v\<in>set vs. reads v" and "hasFields ts vs"
    and "items_all vs = Some xs" and "skind s = None" and "inp s = enc_all xs @ r"
    and "room (length (enc_all xs)) s" and "length (enc_all xs) < 2 ^ 64"
    and "stk s = (p, p + length (enc_all xs)) # st" and "2 * length (enc_all xs) + 4 \<le> f"
  shows "\<exists>s'. decodeFields f ts s = (Inr vs, s') \<and>
    moved (length (enc_all xs)) s s' \<and> skind s' = None"
  using assms
proof (induction vs arbitrary: ts s p xs)
  case Nil
  then show ?case by (cases ts) (auto simp: moved_def)
next
  case (Cons v vs)
  from Cons.prems(2) obtain t us where ts: "ts = t # us" "hasType t v" "is_tail t \<Longrightarrow> us = []" "hasFields us vs"
    by (cases ts) auto
  from Cons.prems(3) obtain ys zs where i: "items v = Some ys" "items_all vs = Some zs" "xs = ys @ zs"
    by (auto simp: items_all_Cons simp del: items_all.simps)
  let ?m = "length (enc_all ys)" and ?n = "length (enc_all zs)"
  have "zs = []" if "is_tail t" using that ts i by (cases vs) auto
  moreover have "room ?m s" using Cons.prems(6) i by (auto intro: room_mono)
  moreover have "2 * ?m + need t \<le> f"
    using Cons.prems(9) i need_bounds(1) [of t] by simp
  ultimately obtain s1 where s1: "decode f t s = (Inr v, s1)" "moved ?m s s1" "skind s1 = None"
    using readsD [of v t ys s "enc_all zs @ r" f] Cons.prems i ts by auto
  have "inp s1 = enc_all zs @ r" "stk s1 = (p + ?m, (p + ?m) + ?n) # st" "room ?n s1"
    using s1(2) Cons.prems i moved_room [OF s1(2), of ?n] by (auto simp: moved_def)
  then obtain s2 where "decodeFields f us s1 = (Inr vs, s2)" "moved ?n s1 s2" "skind s2 = None"
    using Cons.IH [of us zs s1 "p + ?m"] Cons.prems i ts s1 by auto
  then show ?case using s1 ts moved_trans [OF s1(2)] i by (auto simp: mapRes_def)
qed


lemma reads_leaf:
  assumes "\<And>t xs. hasType t v \<Longrightarrow> items v = Some xs \<Longrightarrow> \<not> is_tail t \<and> xs = [Str b]"
    and "\<And>f t s r. hasType t v \<Longrightarrow> 0 < f \<Longrightarrow> inp s = enc_str b @ r \<Longrightarrow> room (length (enc_str b)) s \<Longrightarrow>
      skind s = None \<Longrightarrow> length b < 2 ^ 64 \<Longrightarrow>
      \<exists>s'. decode f t s = (Inr v, s') \<and> moved (length (enc_str b)) s s' \<and> skind s' = None"
  shows "reads v"
  unfolding reads_def
proof (intro allI impI, elim conjE)
  fix t f s r xs
  assume a: "hasType t v" "items v = Some xs" "skind s = None" "inp s = enc_all xs @ r"
    "room (length (enc_all xs)) s" "length (enc_all xs) < 2 ^ 64"
    "2 * length (enc_all xs) + need t \<le> f"
  have x: "\<not> is_tail t" "xs = [Str b]" using assms(1) [OF a(1,2)] by auto
  have "length b \<le> length (enc_str b)" by (simp add: enc_str_def)
  then show "\<exists>s'. decode f t s = (Inr v, s') \<and> moved (length (enc_all xs)) s s' \<and> skind s' = None"
    using assms(2) [of t f s r] a x need_bounds(2) [of t] by auto
qed

lemma reads_UintV: "reads (UintV i)"
proof (rule reads_leaf [where b = "nat_bytes i"])
  fix f t s r
  assume a: "hasType t (UintV i)" "inp s = enc_str (nat_bytes i) @ r"
    "room (length (enc_str (nat_bytes i))) s" "skind s = None"
  then obtain bits where "t = TUint bits" "bits \<in> {8, 16, 32, 64}" "i < 2 ^ bits" by (cases t) auto
  with Stream_uint_ok [OF a(2-4) this(2,3)] show "\<exists>s'. decode f t s = (Inr (UintV i), s') \<and>
      moved (length (enc_str (nat_bytes i))) s s' \<and> skind s' = None"
    by (auto simp: decodeUint_def mapRes_def)
next
  fix t xs
  assume "hasType t (UintV i)" "items (UintV i) = Some xs"
  then show "\<not> is_tail t \<and> xs = [Str (nat_bytes i)]" by (cases t) (auto split: if_splits)
qed

lemma reads_BoolV: "reads (BoolV b)"
proof (rule reads_leaf [where b = "if b then [1] else []"])
  fix f t s r
  assume "hasType t (BoolV b)" "inp s = enc_str (if b then [1] else []) @ r"
    "room (length (enc_str (if b then [1] else []))) s" "skind s = None"
  then show "\<exists>s'. decode f t s = (Inr (BoolV b), s') \<and>
      moved (length (enc_str (if b then [1] else []))) s s' \<and> skind s' = None"
    using Stream_Bool_ok [of s b r] by (cases t) (auto simp: decodeBool_def mapRes_def)
next
  fix t xs
  assume "hasType t (BoolV b)" "items (BoolV b) = Some xs"
  then show "\<not> is_tail t \<and> xs = [Str (if b then [1] else [])]" by (cases t) auto
qed

lemma reads_BigIntV: "reads (BigIntV p)"
proof (cases p)
  case None
  show ?thesis unfolding reads_def
  proof (intro allI impI)
    fix t f s r xs
    assume "hasType t (BigIntV p) \<and> items (BigIntV p) = Some xs \<and> skind s = None \<and>
      inp s = enc_all xs @ r \<and> room (length (enc_all xs)) s \<and> length (enc_all xs) < 2 ^ 64 \<and>
      (is_tail t \<longrightarrow> (\<exists>p st. stk s = (p, p + length (enc_all xs)) # st)) \<and>
      2 * length (enc_all xs) + need t \<le> f"
    then have False using None by (cases t) auto
    then show "\<exists>s'. decode f t s = (Inr (BigIntV p), s') \<and> moved (length (enc_all xs)) s s' \<and> skind s' = None" ..
  qed
next
  case (Some i)
  show ?thesis
  proof (rule reads_leaf [where b = "big_Bytes i"])
    fix f t s r
    assume a: "hasType t (BigIntV p)" "inp s = enc_str (big_Bytes i) @ r"
      "room (length (enc_str (big_Bytes i))) s" "skind s = None" "length (big_Bytes i) < 2 ^ 64"
    then have t: "t = TBig" "0 \<le> i" using Some by (cases t; simp)+
    have h: "\<not> (big_Bytes i \<noteq> [] \<and> big_Bytes i ! 0 = 0)"
      using hd_nat_bytes [of "nat i"] nat_bytes_eq_Nil [of "nat i"] t
      by (cases "nat i = 0") (auto simp: big_Bytes_def hd_conv_nth)
    have e: "big_Bytes i = [] \<Longrightarrow> i = 0" using t by (simp add: big_Bytes_def nat_bytes_eq_Nil)
    from Bytes_ok [OF a(2-5)] show "\<exists>s'. decode f t s = (Inr (BigIntV p), s') \<and>
        moved (length (enc_str (big_Bytes i))) s s' \<and> skind s' = None"
      using h t e Some by (auto simp: decodeBigInt_def)
  next
    fix t xs
    assume "hasType t (BigIntV p)" "items (BigIntV p) = Some xs"
    then show "\<not> is_tail t \<and> xs = [Str (big_Bytes i)]" using Some by (cases t) (auto split: if_splits)
  qed
qed

lemma reads_bytes: "reads (StringV b)" "reads (BytesV b)" "reads (ByteArrayV b)"
proof -
  show "reads (StringV b)"
  proof (rule reads_leaf [where b = b])
    show "\<And>t xs. hasType t (StringV b) \<Longrightarrow> items (StringV b) = Some xs \<Longrightarrow> \<not> is_tail t \<and> xs = [Str b]"
      subgoal for t by (cases t) auto done
  next
    fix f t s r
    assume a: "hasType t (StringV b)" "inp s = enc_str b @ r" "room (length (enc_str b)) s" "skind s = None" "length b < 2 ^ 64"
    from Bytes_ok [OF a(2-5)] a(1) show "\<exists>s'. decode f t s = (Inr (StringV b), s') \<and> moved (length (enc_str b)) s s' \<and> skind s' = None"
      by (cases t) (auto simp: decodeString_def mapRes_def)
  qed
  show "reads (BytesV b)"
  proof (rule reads_leaf [where b = b])
    show "\<And>t xs. hasType t (BytesV b) \<Longrightarrow> items (BytesV b) = Some xs \<Longrightarrow> \<not> is_tail t \<and> xs = [Str b]"
      subgoal for t by (cases t) auto done
  next
    fix f t s r
    assume a: "hasType t (BytesV b)" "inp s = enc_str b @ r" "room (length (enc_str b)) s" "skind s = None" "length b < 2 ^ 64"
    from Bytes_ok [OF a(2-5)] a(1) show "\<exists>s'. decode f t s = (Inr (BytesV b), s') \<and> moved (length (enc_str b)) s s' \<and> skind s' = None"
      by (cases t) (auto simp: decodeByteSlice_def mapRes_def)
  qed
  show "reads (ByteArrayV b)"
  proof (rule reads_leaf [where b = b])
    show "\<And>t xs. hasType t (ByteArrayV b) \<Longrightarrow> items (ByteArrayV b) = Some xs \<Longrightarrow> \<not> is_tail t \<and> xs = [Str b]"
      subgoal for t by (cases t) auto done
  next
    fix f t s r
    assume a: "hasType t (ByteArrayV b)" "inp s = enc_str b @ r" "room (length (enc_str b)) s" "skind s = None" "length b < 2 ^ 64"
    then have "b \<noteq> [0]" "t = TByteArray (length b)" by (cases t; simp)+
    with decodeByteArray_ok [OF a(2-5)] show "\<exists>s'. decode f t s = (Inr (ByteArrayV b), s') \<and> moved (length (enc_str b)) s s' \<and> skind s' = None"
      by auto
  qed
qed


text \<open>A value whose encoding is one list, read by opening the list, its elements, and closing it.\<close>

lemma Stream_List_body:
  assumes "inp s = enc_lst p @ r" and "room (length (enc_lst p)) s" and "skind s = None"
    and "length (enc_lst p) < 2 ^ 64"
  obtains s1 where "Stream_List s = (Inr (length p), s1)" "inp s1 = p @ r" "skind s1 = None"
    "stk s1 = (0, 0 + length p) # bump (headsize (length p)) (stk s)" "room (length p) s1"
    "length p < 2 ^ 64" "length p < length (enc_lst p)"
    "\<And>s2. moved (length p) s1 s2 \<Longrightarrow>
      \<exists>s3. ListEnd s2 = (None, s3) \<and> moved (length (enc_lst p)) s s3 \<and> skind s3 = None"
proof -
  have p: "length p < 2 ^ 64" using assms(4) length_enc_lst [of p] by linarith
  then have l: "length (enc_lst p) = headsize (length p) + length p"
    by (simp add: enc_lst_def length_puthead)
  obtain s1 where s1: "Stream_List s = (Inr (length p), s1)" "inp s1 = p @ r" "skind s1 = None"
    "limited s1 = limited s" "stk s1 = (0, length p) # bump (headsize (length p)) (stk s)"
    "remaining s1 = (if limited s then remaining s - headsize (length p) else remaining s)"
    using Stream_List_ok [OF assms(1-3) p] by blast
  have "room (length p) s1" using s1 assms(2) l by (auto simp: room_def)
  then show ?thesis
    using that [of s1] s1 p l ListEnd_ok [OF s1(2,4) p s1(5,6) assms(1)] headsize_pos [of "length p"] by simp
qed

lemma reads_list:
  assumes v: "\<And>t xs. hasType t v \<Longrightarrow> items v = Some xs \<Longrightarrow> \<not> is_tail t \<and> (\<exists>ys. xs = [Lst ys] \<and> items_all vs = Some ys)"
    and d: "\<And>t f s r ys. hasType t v \<Longrightarrow> items_all vs = Some ys \<Longrightarrow> inp s = enc_lst (enc_all ys) @ r \<Longrightarrow>
      room (length (enc_lst (enc_all ys))) s \<Longrightarrow> skind s = None \<Longrightarrow> length (enc_lst (enc_all ys)) < 2 ^ 64 \<Longrightarrow>
      2 * length (enc_all ys) + 4 \<le> f \<Longrightarrow>
      \<exists>s'. decode f t s = (Inr v, s') \<and> moved (length (enc_lst (enc_all ys))) s s' \<and> skind s' = None"
  shows "reads v"
  unfolding reads_def
proof (intro allI impI, elim conjE)
  fix t f s r xs
  assume a: "hasType t v" "items v = Some xs" "skind s = None" "inp s = enc_all xs @ r"
    "room (length (enc_all xs)) s" "length (enc_all xs) < 2 ^ 64"
    "2 * length (enc_all xs) + need t \<le> f"
  obtain ys where x: "\<not> is_tail t" "xs = [Lst ys]" "items_all vs = Some ys" using v [OF a(1,2)] by auto
  have "length (enc_all ys) < length (enc_lst (enc_all ys))"
    by (simp add: enc_lst_def puthead_def Let_def)
  then show "\<exists>s'. decode f t s = (Inr v, s') \<and> moved (length (enc_all xs)) s s' \<and> skind s' = None"
    using d [of t ys s r f] a x need_bounds(2) [of t] by auto
qed

lemma moved_0 [simp]: "moved 0 s s"
  by (simp add: moved_def)

lemma decode_TSlice_list:
  "Stream_List s = (Inr n, s1) \<Longrightarrow> decodeSliceElems f u s1 = (Inr vs, s2) \<Longrightarrow> ListEnd s2 = (None, s3) \<Longrightarrow>
   (n = 0 \<Longrightarrow> vs = [] \<and> ListEnd s1 = (None, s4)) \<Longrightarrow>
   decode f (TSlice u) s = (Inr (SliceV vs), if n = 0 then s4 else s3)"
  by (simp add: endList_def)

lemma reads_SliceV:
  assumes "\<forall>v\<in>set vs. reads v"
  shows "reads (SliceV vs)"
proof (rule reads_list [where vs = vs])
  fix t xs
  assume "hasType t (SliceV vs)" "items (SliceV vs) = Some xs"
  then show "\<not> is_tail t \<and> (\<exists>ys. xs = [Lst ys] \<and> items_all vs = Some ys)" by (cases t) auto
next
  fix t f s r ys
  assume a: "hasType t (SliceV vs)" "items_all vs = Some ys" "inp s = enc_lst (enc_all ys) @ r"
    "room (length (enc_lst (enc_all ys))) s" "skind s = None" "length (enc_lst (enc_all ys)) < 2 ^ 64"
    "2 * length (enc_all ys) + 4 \<le> f"
  from Stream_List_body [OF a(3-6)] obtain s1 where
    s1: "Stream_List s = (Inr (length (enc_all ys)), s1)" "inp s1 = enc_all ys @ r" "skind s1 = None"
    "stk s1 = (0, 0 + length (enc_all ys)) # bump (headsize (length (enc_all ys))) (stk s)"
    "room (length (enc_all ys)) s1" "length (enc_all ys) < 2 ^ 64"
    and fin: "\<And>s2. moved (length (enc_all ys)) s1 s2 \<Longrightarrow>
      \<exists>s3. ListEnd s2 = (None, s3) \<and> moved (length (enc_lst (enc_all ys))) s s3 \<and> skind s3 = None"
    by metis
  consider u where "t = TSlice u" "\<not> is_tail u" "list_all (hasType u) vs"
    | u where "t = TArray (length vs) u" "\<not> is_tail u" "list_all (hasType u) vs"
    using a(1) by (cases t) auto
  then show "\<exists>s'. decode f t s = (Inr (SliceV vs), s') \<and> moved (length (enc_lst (enc_all ys))) s s' \<and> skind s' = None"
  proof cases
    case 1
    obtain s2 where s2: "decodeSliceElems f u s1 = (Inr vs, s2)" "moved (length (enc_all ys)) s1 s2"
      using decodeSliceElems_ok [OF assms 1(2,3) a(2) s1(3,2,5,6,4) a(7)] by blast
    have "vs = []" if "enc_all ys = []"
    proof (rule ccontr)
      assume "vs \<noteq> []"
      then obtain v ws where "vs = v # ws" by (cases vs) auto
      then show False using 1 a(2) that enc_all_pos [of u v] by (auto simp: items_all_Cons simp del: items_all.simps)
    qed
    then have vs: "vs = []" if "length (enc_all ys) = 0" using that by blast
    obtain s3 where s3: "ListEnd s2 = (None, s3)" "moved (length (enc_lst (enc_all ys))) s s3" "skind s3 = None"
      using fin [OF s2(2)] by blast
    obtain s4 where s4: "length (enc_all ys) = 0 \<Longrightarrow>
      ListEnd s1 = (None, s4) \<and> moved (length (enc_lst (enc_all ys))) s s4 \<and> skind s4 = None"
      using fin [of s1] moved_0 by metis
    have "decode f t s = (Inr (SliceV vs), if length (enc_all ys) = 0 then s4 else s3)"
      using decode_TSlice_list [OF s1(1) s2(1) s3(1), of s4] vs s4 1(1) by blast
    then show ?thesis using s3 s4 by (metis (full_types))
  next
    case 2
    obtain s2 where s2: "decodeArrayElems f (length vs) u s1 = (Inr vs, s2)" "moved (length (enc_all ys)) s1 s2"
      using decodeArrayElems_ok [OF assms 2(2,3) a(2) s1(3,2,5,6) a(7)] by blast
    then show ?thesis
      using 2 s1(1) fin [OF s2(2)] by (auto simp: endList_def)
  qed
qed


lemma reads_StructV:
  assumes "\<forall>v\<in>set vs. reads v"
  shows "reads (StructV vs)"
proof (rule reads_list [where vs = vs])
  fix t xs
  assume "hasType t (StructV vs)" "items (StructV vs) = Some xs"
  then show "\<not> is_tail t \<and> (\<exists>ys. xs = [Lst ys] \<and> items_all vs = Some ys)" by (cases t) auto
next
  fix t f s r ys
  assume a: "hasType t (StructV vs)" "items_all vs = Some ys" "inp s = enc_lst (enc_all ys) @ r"
    "room (length (enc_lst (enc_all ys))) s" "skind s = None" "length (enc_lst (enc_all ys)) < 2 ^ 64"
    "2 * length (enc_all ys) + 4 \<le> f"
  from Stream_List_body [OF a(3-6)] obtain s1 where
    s1: "Stream_List s = (Inr (length (enc_all ys)), s1)" "inp s1 = enc_all ys @ r" "skind s1 = None"
    "stk s1 = (0, 0 + length (enc_all ys)) # bump (headsize (length (enc_all ys))) (stk s)"
    "room (length (enc_all ys)) s1" "length (enc_all ys) < 2 ^ 64"
    and fin: "\<And>s2. moved (length (enc_all ys)) s1 s2 \<Longrightarrow>
      \<exists>s3. ListEnd s2 = (None, s3) \<and> moved (length (enc_lst (enc_all ys))) s s3 \<and> skind s3 = None"
    by metis
  obtain ts where t: "t = TStruct ts" "hasFields ts vs" using a(1) by (cases t) auto
  obtain s2 where s2: "decodeFields f ts s1 = (Inr vs, s2)" "moved (length (enc_all ys)) s1 s2"
    using decodeFields_ok [OF assms t(2) a(2) s1(3,2,5,6,4) a(7)] by blast
  then show "\<exists>s'. decode f t s = (Inr (StructV vs), s') \<and> moved (length (enc_lst (enc_all ys))) s s' \<and> skind s' = None"
    using t s1(1) fin [OF s2(2)] by (auto simp: endList_def)
qed

lemma reads_TailV:
  assumes "\<forall>v\<in>set vs. reads v"
  shows "reads (TailV vs)"
  unfolding reads_def
proof (intro allI impI, elim conjE)
  fix t f s r xs
  assume a: "hasType t (TailV vs)" "items (TailV vs) = Some xs" "skind s = None" "inp s = enc_all xs @ r"
    "room (length (enc_all xs)) s" "length (enc_all xs) < 2 ^ 64"
    "is_tail t \<longrightarrow> (\<exists>p st. stk s = (p, p + length (enc_all xs)) # st)"
    "2 * length (enc_all xs) + need t \<le> f"
  obtain u where t: "t = TTail u" "\<not> is_tail u" "list_all (hasType u) vs" using a(1) by (cases t) auto
  obtain p st where k: "stk s = (p, p + length (enc_all xs)) # st" using a(7) t(1) by auto
  have "items_all vs = Some xs" "2 * length (enc_all xs) + 4 \<le> f" using a(2,8) t(1) by auto
  from decodeSliceElems_ok [OF assms t(2,3) this(1) a(3-6) k this(2)]
  show "\<exists>s'. decode f t s = (Inr (TailV vs), s') \<and> moved (length (enc_all xs)) s s' \<and> skind s' = None"
    using t by (auto simp: mapRes_def)
qed

lemma rlp_enc_kind:
  assumes "inp s = rlp_enc x @ r" and "room (length (rlp_enc x)) s" and "skind s = None"
    and "length (rlp_enc x) < 2 ^ 64"
  obtains k n s1 where "Kind s = ((k, n, None), s1)" "n = 0 \<and> k \<noteq> KByte \<longleftrightarrow> x = Str [] \<or> x = Lst []"
    "k = KList \<longleftrightarrow> (\<exists>ys. x = Lst ys)" "n = 0 \<Longrightarrow> k \<noteq> KByte \<Longrightarrow> moved (length (rlp_enc x)) s s1"
proof (cases x)
  case (Lst ys)
  have l: "length (enc_all ys) < 2 ^ 64" "enc_all ys = [] \<longleftrightarrow> ys = []"
    using assms(4) Lst length_enc_lst [of "enc_all ys"] rlp_enc_not_Nil by (auto simp: concat_eq_Nil_conv)
  from Kind_list [of "length (enc_all ys)" s "enc_all ys @ r"] assms Lst l(1) obtain s1 where
    "Kind s = ((KList, length (enc_all ys), None), s1)" "moved (headsize (length (enc_all ys))) s s1"
    by (auto simp: enc_lst_def length_puthead)
  then show ?thesis using that [of KList "length (enc_all ys)" s1] Lst l
    by (auto simp: headsize_def)
next
  case (Str b)
  have l: "length b < 2 ^ 64" using assms(4) Str by (auto simp: enc_str_def split: if_splits)
  show ?thesis
  proof (cases rule: enc_str_cases [of b])
    case (one y)
    then show ?thesis using Kind_byte [of s y r] assms Str that by auto
  next
    case head
    from Kind_string [of "length b" s "b @ r"] assms Str head l obtain s1 where
      "Kind s = ((KString, length b, None), s1)" "moved (headsize (length b)) s s1"
      by (auto simp: length_puthead)
    then show ?thesis using that [of KString "length b" s1] Str
      by (cases "b = []") (auto simp: headsize_def)
  qed
qed

lemma reads_NilPtr: "reads (NilPtr c)"
  unfolding reads_def
proof (intro allI impI, elim conjE)
  fix t f s r xs
  assume a: "hasType t (NilPtr c)" "items (NilPtr c) = Some xs" "skind s = None" "inp s = enc_all xs @ r"
    "room (length (enc_all xs)) s" "length (enc_all xs) < 2 ^ 64"
  obtain u where t: "t = TOptPtr c u" using a(1) by (cases t) auto
  define x where "x = (if c then Str [] else Lst [])"
  have x: "xs = [x]" "x = Str [] \<or> x = Lst []" using a(2) by (auto simp: x_def)
  then have b: "inp s = rlp_enc x @ r" "room (length (rlp_enc x)) s" "length (rlp_enc x) < 2 ^ 64"
    using a by simp_all
  from rlp_enc_kind [OF b(1,2) a(3) b(3)] x(2) obtain k n s1 where "Kind s = ((k, n, None), s1)"
    "n = 0" "k \<noteq> KByte" "moved (length (rlp_enc x)) s s1" by metis
  then show "\<exists>s'. decode f t s = (Inr (NilPtr c), s') \<and> moved (length (enc_all xs)) s s' \<and> skind s' = None"
    using t x by (auto simp: moved_def)
qed

lemma reads_PtrV:
  assumes "reads v"
  shows "reads (PtrV v)"
  unfolding reads_def
proof (intro allI impI, elim conjE)
  fix t f s r xs
  assume a: "hasType t (PtrV v)" "items (PtrV v) = Some xs" "skind s = None" "inp s = enc_all xs @ r"
    "room (length (enc_all xs)) s" "length (enc_all xs) < 2 ^ 64"
    "2 * length (enc_all xs) + need t \<le> f"
  consider u where "t = TPtr u" "\<not> is_tail u" "hasType u v"
    | c u where "t = TOptPtr c u" "\<not> is_tail u" "hasType u v" "items v \<noteq> Some [Str []]" "items v \<noteq> Some [Lst []]"
    using a(1) by (cases t) auto
  then obtain u where u: "t = TPtr u \<or> (\<exists>c. t = TOptPtr c u) \<and> items v \<noteq> Some [Str []] \<and> items v \<noteq> Some [Lst []]"
    "\<not> is_tail u" "hasType u v" by cases auto
  obtain s' where s': "decode f u s = (Inr v, s')" "moved (length (enc_all xs)) s s'" "skind s' = None"
    using readsD [OF assms u(3) _ a(3-6), of f] a u need_bounds(3) [OF u(2)] by auto
  obtain x where x: "xs = [x]" using hasType_single [OF u(3,2)] a(2) by auto
  have b: "inp s = rlp_enc x @ r" "room (length (rlp_enc x)) s" "length (rlp_enc x) < 2 ^ 64"
    using a x by simp_all
  obtain k n s1 where k: "Kind s = ((k, n, None), s1)" "n = 0 \<and> k \<noteq> KByte \<longleftrightarrow> x = Str [] \<or> x = Lst []"
    using rlp_enc_kind [OF b(1,2) a(3) b(3)] by metis
  have "decode f u s1 = decode f u s" using k Kind_idem [OF k(1)] u a(7) by (intro decode_Kind) auto
  then show "\<exists>s'. decode f t s = (Inr (PtrV v), s') \<and> moved (length (enc_all xs)) s s' \<and> skind s' = None"
    using u k s' x a(2) by (auto simp: mapRes_def)
qed


lemma reads_InterfaceV:
  assumes "reads v"
  shows "reads (InterfaceV v)"
  unfolding reads_def
proof (intro allI impI, elim conjE)
  fix t f s r xs
  assume a: "hasType t (InterfaceV v)" "items (InterfaceV v) = Some xs" "skind s = None" "inp s = enc_all xs @ r"
    "room (length (enc_all xs)) s" "length (enc_all xs) < 2 ^ 64"
    "2 * length (enc_all xs) + need t \<le> f"
  have t: "t = TInterface" "isIface (InterfaceV v)" using a(1) by (cases t; simp)+
  then obtain x where x: "xs = [x]" using hasType_single [of t "InterfaceV v" xs] a(1,2) by auto
  have b: "inp s = rlp_enc x @ r" "room (length (rlp_enc x)) s" "length (rlp_enc x) < 2 ^ 64"
    using a x by simp_all
  obtain k n s1 where k: "Kind s = ((k, n, None), s1)" "k = KList \<longleftrightarrow> (\<exists>ys. x = Lst ys)"
    using rlp_enc_kind [OF b(1,2) a(3) b(3)] by metis
  note ks = Kind_idem [OF k(1)]
  obtain g where f: "f = Suc g" "2 * length (enc_all xs) + 2 \<le> g" using a(7) t by (cases f) auto
  consider b where "v = BytesV b" "x = Str b" | vs ys where "v = SliceV vs" "list_all isIface vs" "x = Lst ys"
    using t(2) a(2) x by (cases "InterfaceV v" rule: isIface.cases) auto
  then show "\<exists>s'. decode f t s = (Inr (InterfaceV v), s') \<and> moved (length (enc_all xs)) s s' \<and> skind s' = None"
  proof cases
    case (1 b)
    have "length b < 2 ^ 64" using a(6) x 1 by (auto simp: enc_str_def split: if_splits)
    with Bytes_ok [of s b r] a x 1 have
      "\<exists>s'. Bytes s = (Inr b, s') \<and> moved (length (enc_all xs)) s s' \<and> skind s' = None" by simp
    moreover have "Bytes s1 = Bytes s" using ks k(1) by (simp add: Bytes_def)
    ultimately show ?thesis using 1 t f k by (auto simp: mapRes_def)
  next
    case (2 vs ys)
    have h: "hasType (TSlice TInterface) v" using 2 by (simp add: list_all_iff)
    obtain s' where s': "decode g (TSlice TInterface) s = (Inr v, s')" "moved (length (enc_all xs)) s s'"
      "skind s' = None"
      using readsD [OF assms h _ a(3-6), of g] a f by auto
    moreover have "decode g (TSlice TInterface) s1 = decode g (TSlice TInterface) s"
      using ks k(1) f by (intro decode_Kind) auto
    ultimately show ?thesis using 2 t f k by (auto simp: mapRes_def simp del: decode.simps(8))
  qed
qed

lemma reads_all: "reads v"
proof (induction v)
  case (RawValue b)
  show ?case unfolding reads_def by simp
next
  case NilInterface
  have "\<not> hasType t NilInterface" for t by (cases t) auto
  then show ?case unfolding reads_def by simp
qed (auto intro: reads_UintV reads_BoolV reads_BigIntV reads_bytes reads_SliceV reads_StructV reads_TailV
    reads_NilPtr reads_PtrV reads_InterfaceV)

lemma DecodeBytes_enc_all:
  assumes "hasType t v" and "\<not> is_tail t" and "items v = Some xs" and "length (enc_all xs) < 2 ^ 64"
  shows "DecodeBytes t (enc_all xs) = Inr v"
proof -
  let ?s = "NewStream (enc_all xs) (length (enc_all xs))"
  have "\<exists>s'. decode (2 * length (enc_all xs) + 3) t ?s = (Inr v, s') \<and>
      moved (length (enc_all xs)) ?s s' \<and> skind s' = None"
    by (rule readsD [OF reads_all assms(1,3), where r = "[]"])
      (use assms need_bounds(3) [of t] in \<open>auto simp: NewStream_def room_def\<close>)
  then show ?thesis by (auto simp: DecodeBytes_def moved_def NewStream_def)
qed

section \<open>The decoder terminates\<close>

text \<open>What is left to decode: unread bytes, and one more while a header has been read ahead.\<close>

definition ahead :: "stream \<Rightarrow> nat" where
  "ahead s = length (inp s) + (if skind s = None then 0 else 1)"

definition sound_err :: "stream \<Rightarrow> bool" where
  "sound_err s \<longleftrightarrow> kinderr s \<noteq> Some EOL \<and> kinderr s \<noteq> Some OutOfFuel"

definition shrinks :: "bool \<Rightarrow> stream \<Rightarrow> (rlp_error + 'a) \<times> stream \<Rightarrow> bool" where
  "shrinks strict s p \<longleftrightarrow> sound_err (snd p) \<and>
     (case fst p of
        Inl e \<Rightarrow> e \<noteq> OutOfFuel \<and> (e = EOL \<longrightarrow> ahead (snd p) \<le> ahead s)
      | Inr _ \<Rightarrow> (if strict then ahead (snd p) < ahead s else ahead (snd p) \<le> ahead s))"

text \<open>Types without arrays of one byte: their decoder may succeed without consuming input.\<close>

fun consuming :: "rtype \<Rightarrow> bool" where
  "consuming (TByteArray n) = (n \<noteq> 1)"
| "consuming (TSlice t) = (consuming t \<and> \<not> is_tail t)"
| "consuming (TTail t) = (consuming t \<and> \<not> is_tail t)"
| "consuming (TArray n t) = (consuming t \<and> \<not> is_tail t)"
| "consuming (TStruct ts) = list_all consuming ts"
| "consuming (TPtr t) = (consuming t \<and> \<not> is_tail t)"
| "consuming (TOptPtr c t) = (consuming t \<and> \<not> is_tail t)"
| "consuming t = True"

lemma willRead_keeps:
  "inp (snd (willRead n s)) = inp s \<and> kinderr (snd (willRead n s)) = kinderr s \<and>
   skind (snd (willRead n s)) = None \<and> fst (willRead n s) \<in> {None, Some ErrElemTooLarge, Some ErrValueTooLarge}"
  by (auto simp: willRead_def Let_def split: list.splits)

definition keeps :: "stream \<Rightarrow> (rlp_error + 'a) \<times> stream \<Rightarrow> bool" where
  "keeps s p \<longleftrightarrow> kinderr (snd p) = kinderr s \<and> skind (snd p) = None \<and>
     length (inp (snd p)) \<le> length (inp s) \<and> fst p \<noteq> Inl EOL \<and> fst p \<noteq> Inl OutOfFuel"

lemma keeps_readFull: "keeps s (readFull n s)"
  using willRead_keeps [of n s]
  by (auto simp: keeps_def readFull_def split: prod.splits option.splits if_splits)

lemma keeps_readByte: "keeps s (readByte s)"
  and readByte_eats: "readByte s = (Inr b, s') \<Longrightarrow> length (inp s') < length (inp s)"
  using willRead_keeps [of 1 s]
  by (cases "inp s"; auto simp: keeps_def readByte_def split: prod.splits option.splits if_splits list.splits)+

lemma keeps_readUint: "keeps s (readUint n s)"
  using keeps_readByte [of s] keeps_readFull [of s n]
  by (auto simp: keeps_def readUint_def split: prod.splits sum.splits if_splits)

lemma readKind_eats:
  assumes "readKind s = ((k, sz, e), s')"
  shows "e \<noteq> Some EOL \<and> e \<noteq> Some OutOfFuel \<and> (e = None \<longrightarrow> length (inp s') < length (inp s))"
proof -
  obtain x s1 where r: "readByte s = (x, s1)" by (cases "readByte s")
  show ?thesis
  proof (cases x)
    case (Inl e1)
    then show ?thesis using assms r keeps_readByte [of s] by (auto simp: keeps_def readKind_def split: if_splits)
  next
    case (Inr c)
    then have l: "length (inp s1) < length (inp s)" using r readByte_eats by blast
    let ?s = "s1\<lparr>byteval := 0\<rparr>"
    consider (u) k' n where "readSizeOf k' n ?s = ((k, sz, e), s')" | (h) "e = None" "inp s' = inp s1"
      using assms r Inr by (auto simp: readKind_def Let_def split: if_splits)
    then show ?thesis
    proof cases
      case (u k' n)
      then show ?thesis using keeps_readUint [of ?s n] l
        by (auto simp: readSizeOf_def keeps_def split: prod.splits sum.splits if_splits)
    qed (use l in auto)
  qed
qed

lemma Kind_eats:
  assumes "Kind s = ((k, sz, e), s')" and "sound_err s"
  shows "sound_err s' \<and> e \<noteq> Some OutOfFuel \<and> (e = Some EOL \<longrightarrow> ahead s' \<le> ahead s) \<and>
    (e = None \<longrightarrow> skind s' = Some k \<and> ahead s' \<le> ahead s)"
proof (cases "skind s")
  case (Some k')
  with assms show ?thesis by (auto simp: Kind_cached sound_err_def)
next
  case None
  obtain k1 sz1 e1 s1 where r: "readKind (s\<lparr>kinderr := None\<rparr>) = ((k1, sz1, e1), s1)" by (metis surj_pair)
  from readKind_eats [OF this] show ?thesis
    using assms None r by (auto simp: Kind_def Let_def sound_err_def ahead_def split: if_splits)
qed

text \<open>An operation that asks for the kind and, if there is one, takes the value.\<close>

lemma shrinks_KindI:
  assumes "sound_err s"
    and "\<And>k sz e s1. Kind s = ((k, sz, Some e), s1) \<Longrightarrow> p = (Inl e, s1)"
    and "\<And>k sz s1. Kind s = ((k, sz, None), s1) \<Longrightarrow> sound_err s1 \<Longrightarrow> skind s1 = Some k \<Longrightarrow> shrinks b s1 p"
  shows "shrinks b s p"
proof -
  obtain k sz e s1 where k: "Kind s = ((k, sz, e), s1)" by (metis surj_pair)
  show ?thesis
  proof (cases e)
    case None
    then have "shrinks b s1 p" "ahead s1 \<le> ahead s" using k assms Kind_eats [OF k assms(1)] by auto
    then show ?thesis by (auto simp: shrinks_def split: sum.splits if_splits)
  next
    case (Some e')
    then show ?thesis using k assms(1,2) Kind_eats [OF k assms(1)] by (auto simp: shrinks_def)
  qed
qed

lemma wrapStreamError_safe [simp]:
  "wrapStreamError e = EOL \<longleftrightarrow> e = EOL" "wrapStreamError e = OutOfFuel \<longleftrightarrow> e = OutOfFuel"
  by (cases e; simp add: wrapStreamError_def)+

lemma shrinks_Bytes: "sound_err s \<Longrightarrow> shrinks True s (Bytes s)"
proof (rule shrinks_KindI)
  fix k sz s1
  assume "Kind s = ((k, sz, None), s1)" "sound_err s1" "skind s1 = Some k"
  then show "shrinks True s1 (Bytes s)" using keeps_readFull [of s1 sz]
    by (cases k; cases "readFull sz s1"; cases "fst (readFull sz s1)")
      (auto simp: Bytes_def shrinks_def keeps_def sound_err_def ahead_def)
qed (simp_all add: Bytes_def split: kind.splits)

lemma shrinks_Raw: "sound_err s \<Longrightarrow> shrinks True s (Raw s)"
proof (rule shrinks_KindI)
  fix k sz s1
  assume "Kind s = ((k, sz, None), s1)" "sound_err s1" "skind s1 = Some k"
  then show "shrinks True s1 (Raw s)" using keeps_readFull [of s1 sz]
    by (cases k; cases "readFull sz s1"; cases "fst (readFull sz s1)")
      (auto simp: Raw_def shrinks_def keeps_def sound_err_def ahead_def)
qed (simp_all add: Raw_def split: kind.splits)

lemma shrinks_Stream_uint: "sound_err s \<Longrightarrow> shrinks True s (Stream_uint n s)"
proof (rule shrinks_KindI)
  fix k sz s1
  assume "Kind s = ((k, sz, None), s1)" "sound_err s1" "skind s1 = Some k"
  then show "shrinks True s1 (Stream_uint n s)" using keeps_readUint [of s1 sz]
    by (cases k; cases "readUint sz s1"; cases "fst (readUint sz s1)")
      (auto simp: Stream_uint_def shrinks_def keeps_def sound_err_def ahead_def)
qed (simp_all add: Stream_uint_def split: kind.splits)

lemma shrinks_decodeByteArray: "sound_err s \<Longrightarrow> n \<noteq> 1 \<Longrightarrow> shrinks True s (decodeByteArray n s)"
proof (rule shrinks_KindI)
  fix k sz s1
  assume a: "n \<noteq> 1" "Kind s = ((k, sz, None), s1)" "sound_err s1" "skind s1 = Some k"
  obtain x s2 where r: "readFull n s1 = (x, s2)" by (metis surj_pair)
  have "shrinks True s1 (x, s2)" using keeps_readFull [of s1 n] a r
    by (auto simp: shrinks_def keeps_def sound_err_def ahead_def split: sum.splits)
  then show "shrinks True s1 (decodeByteArray n s)" using a r
    by (cases k; cases x; cases n sz rule: linorder_cases) (auto simp: decodeByteArray_def shrinks_def)
qed (simp_all add: decodeByteArray_def split: kind.splits)

lemma shrinks_Stream_List: "sound_err s \<Longrightarrow> shrinks True s (Stream_List s)"
  by (rule shrinks_KindI) (auto simp: Stream_List_def shrinks_def sound_err_def ahead_def)

lemma shrinks_endList: "sound_err s \<Longrightarrow> g = (\<lambda>e. e) \<or> g = wrapStreamError \<Longrightarrow> shrinks False s (endList g v s)"
  by (auto simp: endList_def ListEnd_def shrinks_def sound_err_def ahead_def split: list.splits)

lemma shrinks_mapRes:
  "shrinks b s p \<Longrightarrow> g = (\<lambda>e. e) \<or> g = wrapStreamError \<Longrightarrow> shrinks b s (mapRes g h p)"
  by (cases p; cases "fst p") (auto simp: shrinks_def mapRes_def)


lemma shrinks_Stream_Bool: "sound_err s \<Longrightarrow> shrinks True s (Stream_Bool s)"
  using shrinks_Stream_uint [of s 8]
  by (cases "Stream_uint 8 s"; cases "fst (Stream_uint 8 s)") (auto simp: Stream_Bool_def shrinks_def)

lemma shrinks_decodeBigInt: "sound_err s \<Longrightarrow> shrinks True s (decodeBigInt s)"
  using shrinks_Bytes [of s]
  by (cases "Bytes s"; cases "fst (Bytes s)") (auto simp: decodeBigInt_def shrinks_def)

lemma shrinks_refl: "sound_err s \<Longrightarrow> shrinks False s (Inr v, s)"
  by (simp add: shrinks_def)

lemma shrinks_weaken: "shrinks b s p \<Longrightarrow> shrinks False s p"
  by (auto simp: shrinks_def split: sum.splits if_splits)

lemma shrinks_mono: "shrinks b s1 p \<Longrightarrow> ahead s1 \<le> ahead s \<Longrightarrow> shrinks b s p"
  by (auto simp: shrinks_def split: sum.splits if_splits)

lemma shrinks_in_list:
  assumes "sound_err s"
    and "\<And>sz s1. Stream_List s = (Inr sz, s1) \<Longrightarrow> sound_err s1 \<Longrightarrow> ahead s1 < ahead s \<Longrightarrow> shrinks False s1 (k sz s1)"
  shows "shrinks True s (case Stream_List s of (Inl e, s1) \<Rightarrow> (Inl (wrapStreamError e), s1)
    | (Inr sz, s1) \<Rightarrow> k sz s1)"
  using shrinks_Stream_List [OF assms(1)] assms(2)
  by (cases "Stream_List s"; cases "fst (Stream_List s)") (fastforce simp: shrinks_def split: sum.splits)+

lemma shrinks_then:
  assumes "shrinks b s p" and "\<And>v s1. p = (Inr v, s1) \<Longrightarrow> sound_err s1 \<Longrightarrow> shrinks False s1 (k v s1)"
  shows "shrinks False s (case p of (Inl e, s1) \<Rightarrow> (Inl e, s1) | (Inr v, s1) \<Rightarrow> k v s1)"
  using assms by (cases p; cases "fst p") (fastforce simp: shrinks_def split: sum.splits if_splits)+

lemma shrinks_elem:
  assumes "shrinks b s p"
    and "\<And>v s1. p = (Inr v, s1) \<Longrightarrow> sound_err s1 \<Longrightarrow> ahead s1 \<le> ahead s \<Longrightarrow> (b \<Longrightarrow> ahead s1 < ahead s) \<Longrightarrow>
      shrinks False s1 (k s1)"
    and "\<And>s1. shrinks False s1 (g s1) \<or> \<not> sound_err s1" and "\<And>s1. snd (g s1) = s1"
  shows "shrinks False s (case p of (Inl e, s1) \<Rightarrow> if e = EOL then g s1 else (Inl e, s1)
    | (Inr v, s1) \<Rightarrow> mapRes (\<lambda>e. e) (\<lambda>vs. v # vs) (k s1))"
proof (cases p)
  case (Pair x s1)
  show ?thesis
  proof (cases x)
    case (Inl e)
    then show ?thesis using Pair assms(1) assms(3) [of s1] assms(4) [of s1]
      by (cases "g s1"; cases "fst (g s1)") (auto simp: shrinks_def)
  next
    case (Inr v)
    then have "sound_err s1" "ahead s1 \<le> ahead s" "b \<Longrightarrow> ahead s1 < ahead s"
      using Pair assms(1) by (auto simp: shrinks_def split: if_splits)
    then have "shrinks False s1 (mapRes (\<lambda>e. e) (\<lambda>vs. v # vs) (k s1))" "ahead s1 \<le> ahead s"
      using Pair Inr assms(2) by (auto intro: shrinks_mapRes)
    then show ?thesis using Pair Inr by (auto simp: shrinks_def split: sum.splits)
  qed
qed

lemma decode_terminates:
  "consuming t \<Longrightarrow> sound_err s \<Longrightarrow> 2 * ahead s + need t \<le> f \<Longrightarrow> shrinks (\<not> is_tail t) s (decode f t s)"
  "consuming t \<Longrightarrow> \<not> is_tail t \<Longrightarrow> sound_err s \<Longrightarrow> 2 * ahead s + 4 \<le> f \<Longrightarrow> shrinks False s (decodeSliceElems f t s)"
  "list_all consuming ts \<Longrightarrow> sound_err s \<Longrightarrow> 2 * ahead s + 4 \<le> f \<Longrightarrow> shrinks False s (decodeFields f ts s)"
  "consuming t \<Longrightarrow> \<not> is_tail t \<Longrightarrow> sound_err s \<Longrightarrow> 2 * ahead s + 4 \<le> f \<Longrightarrow> shrinks False s (decodeArrayElems f n t s)"
proof (induction f t s and f t s and f ts s and f n t s rule: decode_decodeSliceElems_decodeFields_decodeArrayElems.induct)
  case (8 f t s)
  show ?case unfolding decode.simps is_tail.simps not_False_eq_True
    by (rule shrinks_in_list) (use 8 in \<open>auto intro!: shrinks_then shrinks_endList\<close>)
next
  case (10 f n t s)
  show ?case unfolding decode.simps is_tail.simps not_False_eq_True
    by (rule shrinks_in_list) (use 10 in \<open>auto intro!: shrinks_then shrinks_endList simp: shrinks_def [of _ _ "(Inl _, _)"]\<close>)
next
  case (11 f ts s)
  show ?case unfolding decode.simps is_tail.simps not_False_eq_True
    by (rule shrinks_in_list) (use 11 in \<open>auto intro!: shrinks_then shrinks_endList\<close>)
next
  case (12 f t s)
  then show ?case using need_bounds(3) [of t] by (auto intro!: shrinks_mapRes)
next
  case (13 f c t s)
  obtain k sz e s1 where k: "Kind s = ((k, sz, e), s1)" by (metis surj_pair)
  note eats = Kind_eats [OF k 13(3)]
  have "shrinks True s1 (decode f t s1)" if "e = None" "\<not> (sz = 0 \<and> k \<noteq> KByte)"
    using 13(1) [OF k [symmetric] refl refl] that 13(2-) eats need_bounds(3) [of t] by auto
  then have "shrinks True s (mapRes (\<lambda>e. e) PtrV (decode f t s1))" if "e = None" "\<not> (sz = 0 \<and> k \<noteq> KByte)"
    using that eats shrinks_mono by (blast intro: shrinks_mapRes)
  then show ?case using k eats
    by (auto simp: shrinks_def [of _ _ "(_, _)"] sound_err_def ahead_def split: option.splits)
next
  case (15 f s)
  show ?case unfolding is_tail.simps not_False_eq_True
  proof (rule shrinks_KindI)
    fix k sz s1
    assume k: "Kind s = ((k, sz, None), s1)" "sound_err s1" "skind s1 = Some k"
    then have "ahead s1 \<le> ahead s" using Kind_eats [OF k(1)] 15(3) by auto
    then show "shrinks True s1 (decode (Suc f) TInterface s)" 
      using 15 k by (auto intro!: shrinks_mapRes shrinks_Bytes simp del: decode.simps(8))
  qed (use 15 in auto)
next
  case (17 f t s)
  show ?case unfolding decodeSliceElems.simps
    by (rule shrinks_elem [of "\<not> is_tail t"]) (use 17 need_bounds(3) [of t] in \<open>auto simp: shrinks_def [of _ _ "(Inr _, _)"]\<close>)
next
  case (19 f t ts s)
  show ?case unfolding decodeFields.simps
    by (rule shrinks_elem [of "\<not> is_tail t"]) (use 19 need_bounds(1) [of t] in \<open>auto simp: shrinks_def [of _ _ "(Inl _, _)"]\<close>)
next
  case (21 f n t s)
  show ?case unfolding decodeArrayElems.simps
    by (rule shrinks_elem [of "\<not> is_tail t"]) (use 21 need_bounds(3) [of t] in \<open>auto simp: shrinks_def [of _ _ "(Inr _, _)"]\<close>)
qed (auto simp: decodeRawValue_def decodeUint_def decodeBool_def decodeString_def decodeByteSlice_def 
   intro!: shrinks_mapRes shrinks_Raw shrinks_Stream_uint shrinks_Bytes shrinks_decodeByteArray
    shrinks_Stream_Bool shrinks_decodeBigInt shrinks_refl)


lemma decode_NewStream:
  assumes "consuming t" and "\<not> is_tail t"
  shows "fst (decode (2 * length b + 3) t (NewStream b (length b))) \<noteq> Inl OutOfFuel"
  using decode_terminates(1) [of t "NewStream b (length b)" "2 * length b + 3"] assms need_bounds(3) [of t]
  by (auto simp: shrinks_def NewStream_def sound_err_def ahead_def)

section \<open>Corner cases\<close>

text \<open>A zero byte read into an array of one byte stays ahead in the stream.\<close>

definition stuck :: "stream \<Rightarrow> bool" where
  "stuck s \<longleftrightarrow> peeked KByte 0 s \<and> byteval s = 0"

lemma decodeByteArray_stuck: "stuck s \<Longrightarrow> decodeByteArray 1 s = (Inr (ByteArrayV [0]), s)"
  using Kind_peeked [of KByte 0 s] by (simp add: stuck_def decodeByteArray_def Stream_uint_def)

lemma decodeSliceElems_stuck: "stuck s \<Longrightarrow> fst (decodeSliceElems f (TByteArray 1) s) = Inl OutOfFuel"
proof (induction f)
  case (Suc f)
  then show ?case
    by (cases "decodeSliceElems f (TByteArray 1) s")
      (simp add: decodeByteArray_stuck mapRes_def del: One_nat_def)
qed simp

lemma Raw_head:
  assumes "(k, a, b) = (KString, 0x80, 0xB7) \<or> (k, a, b) = (KList, 0xC0, 0xF7)"
    and "length c < 2 ^ 64" and "inp s = puthead a b (length c) @ c @ r"
    and "room (headsize (length c) + length c) s" and "skind s = None"
  shows "\<exists>s'. Raw s = (Inr (puthead a (if k = KString then 0xB8 else 0xF7) (length c) @ c), s') \<and>
    moved (headsize (length c) + length c) s s' \<and> skind s' = None"
proof -
  obtain s1 where s1: "Kind s = ((k, length c, None), s1)" "moved (headsize (length c)) s s1"
    using Kind_head [OF assms(1-5)] by blast
  then have "inp s1 = c @ r" "room (length c) s1"
    using assms moved_room [OF s1(2), of "length c"] by (auto simp: moved_def length_puthead)
  then obtain s2 where s2: "readFull (length c) s1 = (Inr c, s2)" "moved (length c) s1 s2" "skind s2 = None"
    using readFull_ok by blast
  then show ?thesis using s1 moved_trans [OF s1(2) s2(2)] assms(1) by (auto simp: Raw_def)
qed

lemma DecodeBytes_TRaw:
  assumes "Raw (NewStream b (length b)) = (Inr r, s')" and "inp s' = []"
  shows "DecodeBytes TRaw b = Inr (RawValue r)"
  using assms by (simp add: DecodeBytes_def decodeRawValue_def mapRes_def)

lemma DecodeBytes_TRaw_list:
  assumes "length (enc_lst p) < 2 ^ 64"
  shows "DecodeBytes TRaw (enc_lst p) = Inr (RawValue (enc_lst p))"
proof -
  have p: "length p < 2 ^ 64" "length (enc_lst p) = headsize (length p) + length p"
    using assms length_enc_lst [of p] by (auto simp: enc_lst_def length_puthead)
  let ?s = "NewStream (enc_lst p) (length (enc_lst p))"
  have "\<exists>s'. Raw ?s = (Inr (puthead 0xC0 (if KList = KString then 0xB8 else 0xF7) (length p) @ p), s') \<and>
      moved (headsize (length p) + length p) ?s s' \<and> skind s' = None"
    by (rule Raw_head [of _ _ "0xF7" _ _ "[]"]) (use p in \<open>auto simp: NewStream_def room_def enc_lst_def\<close>)
  then obtain s' where "Raw ?s = (Inr (enc_lst p), s')" "moved (length (enc_lst p)) ?s s'"
    using p(2) by (auto simp: enc_lst_def)
  then show ?thesis by (intro DecodeBytes_TRaw) (auto simp: moved_def NewStream_def)
qed

lemma DecodeBytes_TRaw_string:
  assumes "length (enc_str c) < 2 ^ 64"
  shows "DecodeBytes TRaw (enc_str c) =
    Inr (RawValue (if length c < 56 then enc_str c else puthead 0x80 0xB8 (length c) @ c))"
proof (cases rule: enc_str_cases [of c])
  case (one x)
  let ?s = "NewStream [x] 1"
  obtain s1 where "Kind ?s = ((KByte, 0, None), s1)" "moved 1 ?s s1" "byteval s1 = x"
    using Kind_byte [of ?s x "[]"] one by (auto simp: NewStream_def room_def)
  then have "Raw ?s = (Inr [x], s1\<lparr>skind := None\<rparr>)" "inp s1 = []"
    by (simp_all add: Raw_def moved_def NewStream_def)
  then show ?thesis using one DecodeBytes_TRaw [of "[x]" "[x]" "s1\<lparr>skind := None\<rparr>"] by simp
next
  case head
  have p: "length c < 2 ^ 64" "length (enc_str c) = headsize (length c) + length c"
    using assms head by (auto simp: length_puthead)
  let ?s = "NewStream (enc_str c) (length (enc_str c))"
  have "\<exists>s'. Raw ?s = (Inr (puthead 0x80 (if KString = KString then 0xB8 else 0xF7) (length c) @ c), s') \<and>
      moved (headsize (length c) + length c) ?s s' \<and> skind s' = None"
    by (rule Raw_head [of _ _ "0xB7" _ _ "[]"]) (use p head in \<open>auto simp: NewStream_def room_def\<close>)
  then obtain s' where r: "Raw ?s = (Inr (puthead 0x80 0xB8 (length c) @ c), s')" "moved (length (enc_str c)) ?s s'"
    using p(2) by auto
  then have "DecodeBytes TRaw (enc_str c) = Inr (RawValue (puthead 0x80 0xB8 (length c) @ c))"
    by (intro DecodeBytes_TRaw) (auto simp: moved_def NewStream_def)
  then show ?thesis using head by (auto simp: puthead_short)
qed

lemma puthead_B8: "56 \<le> n \<Longrightarrow> n < 2 ^ 64 \<Longrightarrow> puthead 0x80 0xB8 n \<noteq> puthead 0x80 0xB7 n"
  by (simp add: puthead_long)

section \<open>Properties\<close>



text \<open>C14. \<open>Split\<close> accepts exactly the canonical encodings: it returns a kind, a content and a rest
  if and only if the input is the encoding of that content followed by that rest.\<close>

theorem Split_iff:
  "Split b = Inr (k, c, r) \<longleftrightarrow> length c < 2 ^ 64 \<and>
     (if k = KList then b = enc_lst c @ r
      else b = enc_str c @ r \<and> (k = KByte \<longleftrightarrow> length c = 1 \<and> c ! 0 \<le> 0x7F))"
proof
  assume s: "Split b = Inr (k, c, r)"
  note Split_canonical [OF s]
  with s Split_enc_str [of c r] show "length c < 2 ^ 64 \<and> (if k = KList then b = enc_lst c @ r
      else b = enc_str c @ r \<and> (k = KByte \<longleftrightarrow> length c = 1 \<and> c ! 0 \<le> 0x7F))"
    by (auto split: if_splits)
next
  assume "length c < 2 ^ 64 \<and> (if k = KList then b = enc_lst c @ r
      else b = enc_str c @ r \<and> (k = KByte \<longleftrightarrow> length c = 1 \<and> c ! 0 \<le> 0x7F))"
  then show "Split b = Inr (k, c, r)"
    using Split_enc_str [of c r] Split_enc_lst [of c r] by (cases k) (auto split: if_splits)
qed

text \<open>C19. \<open>CountValues\<close> of concatenated encodings is the number of values.\<close>

theorem CountValues_encodings:
  assumes "length (enc_all xs) < 2 ^ 64"
  shows "CountValues (enc_all xs) = Inr (length xs)"
  using CountValues_loop_enc [OF assms, of 0] by (simp add: CountValues_def)

theorem CountValues_encodings_witness:
  "CountValues (enc_all [Str [1], Lst [Str [], Str [200, 7]], Str [255]]) = Inr 3"
  using CountValues_encodings [of "[Str [1], Lst [Str [], Str [200, 7]], Str [255]]"]
  by (simp add: enc_str_def enc_lst_def puthead_def)

text \<open>C16. Decoding terminates on every input: two units of fuel per input byte are enough, for every
  type without arrays of a single byte.\<close>

theorem DecodeBytes_returns:
  assumes "consuming t" and "\<not> is_tail t"
  shows "DecodeBytes t b \<noteq> Inl OutOfFuel"
  using decode_NewStream [OF assms, of b] by (auto simp: DecodeBytes_def split: prod.splits sum.splits)

theorem DecodeBytes_returns_witness:
  "DecodeBytes (TSlice TInterface) [0xC3, 0xC1, 0xC0, 0x05] \<noteq> Inl OutOfFuel"
  by (rule DecodeBytes_returns) simp_all

text \<open>C17. The exception is real: decoding the two bytes \<open>C1 00\<close> into a slice of one-byte arrays never
  returns, whatever the fuel. \<open>decodeByteArray\<close> drops the error of \<open>s.Uint()\<close>, which
  refuses the zero byte without consuming it, so every round of \<open>decodeSliceElems\<close> reads it again.\<close>

theorem decode_byte_arrays_diverges:
  "fst (decode f (TSlice (TByteArray 1)) (NewStream [0xC1, 0x00] 2)) = Inl OutOfFuel"
proof -
  define s where "s = \<lparr>inp = [0], remaining = 1, limited = True, skind = None, ssize = 0,
    byteval = 0, kinderr = None, stk = [(0, 1)]\<rparr>"
  define s1 where "s1 = \<lparr>inp = [], remaining = 0, limited = True, skind = Some KByte, ssize = 0,
    byteval = 0, kinderr = None, stk = [(1, 1)]\<rparr>"
  have l: "Stream_List (NewStream [0xC1, 0x00] 2) = (Inr 1, s)" unfolding s_def by code_simp
  have k: "Kind s = ((KByte, 0, None), s1)" unfolding s_def s1_def by code_simp
  have st: "stuck s1" by (simp add: s1_def stuck_def peeked_def)
  have "decodeByteArray 1 s = decodeByteArray 1 s1" by (simp add: decodeByteArray_def k Kind_idem [OF k])
  then have "fst (decodeSliceElems f (TByteArray 1) s) = Inl OutOfFuel"
    using decodeSliceElems_stuck [OF st, of f] by (cases f) (simp_all del: One_nat_def)
  then show ?thesis using l
    by (cases "decodeSliceElems f (TByteArray 1) s") (simp del: One_nat_def)
qed

text \<open>C18. \<open>Stream.Raw\<close> returns the encoding it has read, except for strings of 56 bytes or more: it
  rebuilds their header with the tag base \<open>B8\<close> where the encoder uses \<open>B7\<close>.\<close>

theorem DecodeBytes_raw_exact:
  assumes "length (rlp_enc x) < 2 ^ 64"
  shows "DecodeBytes TRaw (rlp_enc x) = Inr (RawValue (rlp_enc x)) \<longleftrightarrow>
    (case x of Str b \<Rightarrow> length b < 56 | Lst xs \<Rightarrow> True)"
proof (cases x)
  case (Str b)
  have l: "length b < 2 ^ 64" using assms Str by (auto simp: enc_str_def split: if_splits)
  have "enc_str b = puthead 0x80 0xB7 (length b) @ b" if "\<not> length b < 56" using that by (auto simp: enc_str_def)
  then show ?thesis using Str assms DecodeBytes_TRaw_string [of b] puthead_B8 [of "length b"] l by auto
next
  case (Lst xs)
  then show ?thesis using DecodeBytes_TRaw_list [of "enc_all xs"] assms by simp
qed

theorem DecodeBytes_raw_exact_witness:
  "DecodeBytes TRaw (rlp_enc (Str (replicate 56 0))) \<noteq> Inr (RawValue (rlp_enc (Str (replicate 56 0))))"
  using DecodeBytes_raw_exact [of "Str (replicate 56 0)"] by (simp add: enc_str_def puthead_def Let_def putint_def)


end
