(* ===== verification/Lru.thy ===== *)
theory Lru
  imports Prelude "HOL-Library.AList"
begin

text \<open>
  The fixed-size cache of \<open>vendor/github.com/hashicorp/golang-lru\<close> (\<open>simplelru\<close>). The Go structure
  keeps a doubly linked list in order of use and a hash map from keys to its elements; the
  model keeps the list, most recently used first, and finds an element by its key.
\<close>

record ('k, 'v) lru =
  lru_cap :: nat
  evictList :: "('k \<times> 'v) list"

definition NewLRU :: "nat \<Rightarrow> ('k, 'v) lru option" where
  "NewLRU n = (if n = 0 then None else Some \<lparr>lru_cap = n, evictList = []\<rparr>)"

definition moveToFront :: "'k \<Rightarrow> 'v \<Rightarrow> ('k \<times> 'v) list \<Rightarrow> ('k \<times> 'v) list" where
  "moveToFront k v xs = (k, v) # AList.delete k xs"

definition removeOldest :: "('k \<times> 'v) list \<Rightarrow> ('k \<times> 'v) list" where
  "removeOldest xs = (if xs = [] then [] else butlast xs)"

definition lru_Purge :: "('k, 'v) lru \<Rightarrow> ('k, 'v) lru" where
  "lru_Purge c = c\<lparr>evictList := []\<rparr>"

definition lru_Add :: "'k \<Rightarrow> 'v \<Rightarrow> ('k, 'v) lru \<Rightarrow> bool \<times> ('k, 'v) lru" where
  "lru_Add k v c =
     (case map_of (evictList c) k of
        Some _ \<Rightarrow> (False, c\<lparr>evictList := moveToFront k v (evictList c)\<rparr>)
      | None \<Rightarrow>
          let xs = (k, v) # evictList c;
              evict = length xs > lru_cap c
          in (evict, c\<lparr>evictList := (if evict then removeOldest xs else xs)\<rparr>))"

definition lru_Get :: "'k \<Rightarrow> ('k, 'v) lru \<Rightarrow> 'v option \<times> ('k, 'v) lru" where
  "lru_Get k c =
     (case map_of (evictList c) k of
        Some v \<Rightarrow> (Some v, c\<lparr>evictList := moveToFront k v (evictList c)\<rparr>)
      | None \<Rightarrow> (None, c))"

definition lru_Contains :: "'k \<Rightarrow> ('k, 'v) lru \<Rightarrow> bool" where
  "lru_Contains k c = (map_of (evictList c) k \<noteq> None)"

definition lru_Peek :: "'k \<Rightarrow> ('k, 'v) lru \<Rightarrow> 'v option" where
  "lru_Peek k c = map_of (evictList c) k"

definition lru_Remove :: "'k \<Rightarrow> ('k, 'v) lru \<Rightarrow> bool \<times> ('k, 'v) lru" where
  "lru_Remove k c =
     (case map_of (evictList c) k of
        Some _ \<Rightarrow> (True, c\<lparr>evictList := AList.delete k (evictList c)\<rparr>)
      | None \<Rightarrow> (False, c))"

definition lru_GetOldest :: "('k, 'v) lru \<Rightarrow> ('k \<times> 'v) option" where
  "lru_GetOldest c = (if evictList c = [] then None else Some (last (evictList c)))"

definition lru_RemoveOldest :: "('k, 'v) lru \<Rightarrow> ('k \<times> 'v) option \<times> ('k, 'v) lru" where
  "lru_RemoveOldest c = (lru_GetOldest c, c\<lparr>evictList := removeOldest (evictList c)\<rparr>)"

definition lru_Keys :: "('k, 'v) lru \<Rightarrow> 'k list" where
  "lru_Keys c = map fst (rev (evictList c))"

definition lru_Len :: "('k, 'v) lru \<Rightarrow> nat" where
  "lru_Len c = length (evictList c)"

section \<open>Invariant\<close>

text \<open>Every key occurs once and the capacity is respected.\<close>

definition lru_ok :: "('k, 'v) lru \<Rightarrow> bool" where
  "lru_ok c \<longleftrightarrow> 0 < lru_cap c \<and> length (evictList c) \<le> lru_cap c \<and> distinct (map fst (evictList c))"

lemma length_delete_distinct:
  "distinct (map fst xs) \<Longrightarrow> map_of xs k = Some v \<Longrightarrow> Suc (length (AList.delete k xs)) = length xs"
  by (induction xs) auto

lemma map_of_butlast:
  assumes "distinct (map fst xs)"
  shows "map_of (butlast xs) k = (if xs \<noteq> [] \<and> k = fst (last xs) then None else map_of xs k)"
proof (cases xs rule: rev_cases)
  case (snoc ys y)
  then have "fst y \<notin> fst ` set ys" using assms by simp
  then show ?thesis using snoc by (cases y) (auto simp: map_add_def map_of_eq_None_iff split: option.splits)
qed simp

lemma distinct_butlast_fst: "distinct (map fst xs) \<Longrightarrow> distinct (map fst (butlast xs))"
  by (metis distinct_butlast map_butlast)

lemma lru_ok_Add: "lru_ok c \<Longrightarrow> lru_ok (snd (lru_Add k v c))"
  using length_delete_distinct [of "evictList c" k] distinct_butlast_fst [of "(k, v) # evictList c"]
  by (auto simp: lru_ok_def lru_Add_def Let_def moveToFront_def removeOldest_def map_of_eq_None_iff
      AList.distinct_delete AList.delete_notin_dom split: option.split)

lemma lru_ok_Get: "lru_ok c \<Longrightarrow> lru_ok (snd (lru_Get k c))"
  using length_delete_distinct [of "evictList c" k]
  by (auto simp: lru_ok_def lru_Get_def moveToFront_def AList.distinct_delete AList.delete_notin_dom
      split: option.split)

lemma lru_Peek_Get: "lru_Peek k' (snd (lru_Get k c)) = lru_Peek k' c"
  by (auto simp: lru_Peek_def lru_Get_def moveToFront_def AList.delete_conv split: option.split)

lemma fst_lru_Get: "fst (lru_Get k c) = lru_Peek k c"
  by (simp add: lru_Peek_def lru_Get_def split: option.split)

lemma lru_Add_evicts:
  "lru_ok c \<Longrightarrow> fst (lru_Add k v c) \<longleftrightarrow> \<not> lru_Contains k c \<and> lru_Len c = lru_cap c"
  by (auto simp: lru_ok_def lru_Add_def lru_Contains_def lru_Len_def Let_def split: option.split)

lemma lru_Peek_Add:
  assumes "lru_ok c"
  shows "lru_Peek k' (snd (lru_Add k v c)) =
    (if k' = k then Some v
     else if fst (lru_Add k v c) \<and> map_option fst (lru_GetOldest c) = Some k' then None
     else lru_Peek k' c)"
proof (cases "map_of (evictList c) k")
  case None
  then have d: "distinct (map fst ((k, v) # evictList c))"
    using assms by (simp add: lru_ok_def map_of_eq_None_iff)
  show ?thesis
    using None assms map_of_butlast [OF d, of k']
    by (cases "last (evictList c)")
      (auto simp: lru_Add_def lru_Peek_def lru_GetOldest_def Let_def removeOldest_def lru_ok_def)
next
  case (Some w)
  then show ?thesis by (auto simp: lru_Add_def lru_Peek_def moveToFront_def AList.delete_conv)
qed

section \<open>The cache as an interface\<close>

text \<open>What a client of a cache may rely on: a value just added is found, and no operation makes
  a value up. A cache that holds only correct values therefore keeps holding only correct values.\<close>

locale cache =
  fixes peek :: "'k \<Rightarrow> 'c \<Rightarrow> 'v option" and add :: "'k \<Rightarrow> 'v \<Rightarrow> 'c \<Rightarrow> 'c" and get :: "'k \<Rightarrow> 'c \<Rightarrow> 'c"
    and inv :: "'c \<Rightarrow> bool"
  assumes inv_add: "inv c \<Longrightarrow> inv (add k v c)"
    and inv_get: "inv c \<Longrightarrow> inv (get k c)"
    and peek_add: "inv c \<Longrightarrow> peek k (add k v c) = Some v"
    and peek_add_other: "inv c \<Longrightarrow> k' \<noteq> k \<Longrightarrow> peek k' (add k v c) = Some w \<Longrightarrow> peek k' c = Some w"
    and peek_get: "peek k' (get k c) = peek k' c"
begin

definition correct :: "('k \<Rightarrow> 'v) \<Rightarrow> 'c \<Rightarrow> bool" where
  "correct f c \<longleftrightarrow> inv c \<and> (\<forall>k v. peek k c = Some v \<longrightarrow> v = f k)"

lemma correct_add: "correct f c \<Longrightarrow> correct f (add k (f k) c)"
  unfolding correct_def using inv_add peek_add peek_add_other by (metis option.inject)

lemma correct_get: "correct f c \<Longrightarrow> correct f (get k c)"
  unfolding correct_def by (simp add: inv_get peek_get)

lemma correct_peek: "correct f c \<Longrightarrow> peek k c = Some v \<Longrightarrow> v = f k"
  by (simp add: correct_def)

end

interpretation lru_cache: cache lru_Peek "\<lambda>k v c. snd (lru_Add k v c)" "\<lambda>k c. snd (lru_Get k c)" lru_ok
  by unfold_locales (auto simp: lru_ok_Add lru_ok_Get lru_Peek_Get lru_Peek_Add split: if_splits)

section \<open>Properties\<close>



end
