(* ===== verification/State_Object.thy ===== *)
theory State_Object
  imports Rlp_Decode Lru
begin

text \<open>
  Accounts (\<open>core/state/state_object.go\<close>): the account record, the live object around it with its
  storage and code caches, and its methods. A method of \<open>stateObject\<close> reaches the journal and
  the dirty set through its \<open>db\<close> pointer; here it takes the \<open>stateDB\<close> and returns it updated.
  The \<open>onDirty\<close> callback is the flag that it has not fired yet. Keccak-256 and the hash of
  a trie are parameters (record \<open>crypto\<close>); a trie is the map from hashed keys to values that
  \<open>trie.Trie\<close> implements, with the key hashing of \<open>trie/secure_trie.go\<close> on top of it.
\<close>

section \<open>Parameters, database and secure tries\<close>

record crypto =
  keccak256 :: "bytes \<Rightarrow> bytes"
  trieHash :: "(bytes \<rightharpoonup> bytes) \<Rightarrow> hash"

record bzcdb =
  codes :: "bytes \<rightharpoonup> bytes"
  tries :: "hash \<rightharpoonup> (bytes \<rightharpoonup> bytes)"

definition emptyRoot :: hash where
  "emptyRoot = 0x56e81f171bcc55a6ff8345e692c0f86e5b48e01b996cadc001622fb5e363b421"

definition NewSecure :: "hash \<Rightarrow> bzcdb \<Rightarrow> (bytes \<rightharpoonup> bytes) option" where
  "NewSecure root db = (if root = 0 \<or> root = emptyRoot then Some Map.empty else tries db root)"

definition SecureTrie_Get :: "crypto \<Rightarrow> bytes \<Rightarrow> (bytes \<rightharpoonup> bytes) \<Rightarrow> bytes option" where
  "SecureTrie_Get E key t = t (keccak256 E key)"

definition SecureTrie_Update :: "crypto \<Rightarrow> bytes \<Rightarrow> bytes \<Rightarrow> (bytes \<rightharpoonup> bytes) \<Rightarrow> (bytes \<rightharpoonup> bytes)" where
  "SecureTrie_Update E key val t =
     (if length val = 0 then t(keccak256 E key := None) else t(keccak256 E key \<mapsto> val))"

definition SecureTrie_Delete :: "crypto \<Rightarrow> bytes \<Rightarrow> (bytes \<rightharpoonup> bytes) \<Rightarrow> (bytes \<rightharpoonup> bytes)" where
  "SecureTrie_Delete E key t = t(keccak256 E key := None)"

text \<open>A nil slice is \<open>None\<close>; most of the code only looks at its bytes.\<close>

definition bytes_of :: "bytes option \<Rightarrow> bytes" where
  "bytes_of c = (case c of None \<Rightarrow> [] | Some b \<Rightarrow> b)"

section \<open>State\<close>

record Account =
  Nonce :: u64
  Balance :: int
  Root :: hash
  CodeHash :: bytes

datatype db_error = ErrStorageTrie | ErrCode | ErrRlp rlp_error

record stateObject =
  obj_address :: address
  data :: Account
  dbErr :: "db_error option"
  otrie :: "(bytes \<rightharpoonup> bytes) option"
  code :: "bytes option"
  cachedStorage :: "hash \<rightharpoonup> hash"
  dirtyStorage :: "hash \<rightharpoonup> hash"
  dirtyCode :: bool
  suicided :: bool
  touched :: bool
  deleted :: bool
  onDirty :: bool

datatype journalEntry =
    CreateObjectChange address
  | ResetObjectChange stateObject
  | SuicideChange address bool int
  | BalanceChange address int
  | NonceChange address u64
  | StorageChange address hash hash
  | CodeChange address "bytes option" bytes
  | RefundChange int
  | AddLogChange hash
  | AddPreimageChange hash
  | TouchChange address bool bool

record log =
  log_address :: address
  log_topics :: "hash list"
  log_data :: bytes
  log_block :: u64
  log_txhash :: hash
  log_txindex :: nat
  log_bhash :: hash
  log_index :: nat

record stateDB =
  db :: bzcdb
  strie :: "bytes \<rightharpoonup> bytes"
  pastTries :: "(bytes \<rightharpoonup> bytes) list"
  codeSizeCache :: "(hash, nat) lru"
  stateObjects :: "address \<rightharpoonup> stateObject"
  stateObjectsDirty :: "address set"
  stateObjectsDestructed :: "address set"
  refund :: int
  thash :: hash
  bhash :: hash
  txIndex :: nat
  logs :: "hash \<rightharpoonup> log list"
  logSize :: nat
  preimages :: "hash \<rightharpoonup> bytes"
  journal :: "journalEntry list"
  validRevisions :: "(nat \<times> nat) list"
  nextRevisionId :: nat

section \<open>Accounts on the wire\<close>

definition accountType :: rtype where
  "accountType = TStruct [TUint 64, TBig, TByteArray 32, TBytes]"

definition encodeAccount :: "Account \<Rightarrow> enc_error + bytes" where
  "encodeAccount a = EncodeToBytes (StructV [UintV (unat (Nonce a)), BigIntV (Some (Balance a)),
     ByteArrayV (hash_bytes (Root a)), BytesV (CodeHash a)])"

definition decodeAccount :: "bytes \<Rightarrow> rlp_error + Account" where
  "decodeAccount b =
     (case DecodeBytes accountType b of
        Inr (StructV [UintV n, BigIntV (Some x), ByteArrayV r, BytesV c]) \<Rightarrow>
          Inr \<lparr>Nonce = word_of_nat n, Balance = x, Root = BytesToHash r, CodeHash = c\<rparr>
      | Inl e \<Rightarrow> Inl e
      | _ \<Rightarrow> Inl OutOfFuel)"

section \<open>Methods of the object\<close>

definition emptyCodeHash :: "crypto \<Rightarrow> bytes" where
  "emptyCodeHash E = keccak256 E []"

definition so_empty :: "crypto \<Rightarrow> stateObject \<Rightarrow> bool" where
  "so_empty E ob \<longleftrightarrow> Nonce (data ob) = 0 \<and> big_Sign (Balance (data ob)) = 0 \<and>
     CodeHash (data ob) = emptyCodeHash E"

text \<open>\<open>None\<close> for the balance or the code hash is a nil field of the \<open>Account\<close> literal.\<close>

definition newObject :: "crypto \<Rightarrow> address \<Rightarrow> u64 \<Rightarrow> int option \<Rightarrow> hash \<Rightarrow> bytes option \<Rightarrow> bool \<Rightarrow> stateObject" where
  "newObject E addr nonce balance root codehash cb =
     \<lparr>obj_address = addr,
      data = \<lparr>Nonce = nonce, Balance = (case balance of None \<Rightarrow> 0 | Some b \<Rightarrow> b), Root = root,
        CodeHash = (case codehash of None \<Rightarrow> emptyCodeHash E | Some c \<Rightarrow> c)\<rparr>,
      dbErr = None, otrie = None, code = None, cachedStorage = Map.empty, dirtyStorage = Map.empty,
      dirtyCode = False, suicided = False, touched = False, deleted = False, onDirty = cb\<rparr>"

definition setError :: "db_error \<Rightarrow> stateObject \<Rightarrow> stateObject" where
  "setError err ob = (if dbErr ob = None then ob\<lparr>dbErr := Some err\<rparr> else ob)"

definition MarkStateObjectDirty :: "address \<Rightarrow> stateDB \<Rightarrow> stateDB" where
  "MarkStateObjectDirty addr s = s\<lparr>stateObjectsDirty := insert addr (stateObjectsDirty s)\<rparr>"

definition append_journal :: "journalEntry \<Rightarrow> stateDB \<Rightarrow> stateDB" where
  "append_journal ch s = s\<lparr>journal := journal s @ [ch]\<rparr>"

text \<open>The block \<open>if self.onDirty != nil\<close> at the end of every setter.\<close>

definition fireDirty :: "stateObject \<Rightarrow> stateDB \<Rightarrow> stateObject \<times> stateDB" where
  "fireDirty ob s =
     (if onDirty ob then (ob\<lparr>onDirty := False\<rparr>, MarkStateObjectDirty (obj_address ob) s) else (ob, s))"

definition markSuicided :: "stateObject \<Rightarrow> stateDB \<Rightarrow> stateObject \<times> stateDB" where
  "markSuicided ob s = fireDirty (ob\<lparr>suicided := True\<rparr>) s"

definition touch :: "stateObject \<Rightarrow> stateDB \<Rightarrow> stateObject \<times> stateDB" where
  "touch ob s =
     (let s1 = append_journal (TouchChange (obj_address ob) (touched ob) (\<not> onDirty ob)) s;
          (ob2, s2) = fireDirty ob s1
      in (ob2\<lparr>touched := True\<rparr>, s2))"

definition getTrie :: "bzcdb \<Rightarrow> stateObject \<Rightarrow> (bytes \<rightharpoonup> bytes) \<times> stateObject" where
  "getTrie d ob =
     (case otrie ob of
        Some t \<Rightarrow> (t, ob)
      | None \<Rightarrow>
          (case NewSecure (Root (data ob)) d of
             Some t \<Rightarrow> (t, ob\<lparr>otrie := Some t\<rparr>)
           | None \<Rightarrow> (Map.empty, setError ErrStorageTrie (ob\<lparr>otrie := Some Map.empty\<rparr>))))"

text \<open>The value of an encoded storage slot; nothing is stored for zero.\<close>

definition decodeSlot :: "bytes \<Rightarrow> stateObject \<Rightarrow> hash \<times> stateObject" where
  "decodeSlot enc ob =
     (if length enc = 0 then (0, ob)
      else (case Split enc of
              Inl err \<Rightarrow> (BytesToHash [], setError (ErrRlp err) ob)
            | Inr (_, content, _) \<Rightarrow> (BytesToHash content, ob)))"

definition so_GetState :: "crypto \<Rightarrow> bzcdb \<Rightarrow> hash \<Rightarrow> stateObject \<Rightarrow> hash \<times> stateObject" where
  "so_GetState E d key ob =
     (case cachedStorage ob key of
        Some v \<Rightarrow> (v, ob)
      | None \<Rightarrow>
          let (t, ob1) = getTrie d ob;
              (val, ob2) = decodeSlot (bytes_of (SecureTrie_Get E (hash_bytes key) t)) ob1
          in (val, if val \<noteq> 0 then ob2\<lparr>cachedStorage := (cachedStorage ob2)(key \<mapsto> val)\<rparr> else ob2))"

definition so_setState :: "hash \<Rightarrow> hash \<Rightarrow> stateObject \<Rightarrow> stateDB \<Rightarrow> stateObject \<times> stateDB" where
  "so_setState key val ob s =
     fireDirty (ob\<lparr>cachedStorage := (cachedStorage ob)(key \<mapsto> val),
                  dirtyStorage := (dirtyStorage ob)(key \<mapsto> val)\<rparr>) s"

definition so_SetState :: "crypto \<Rightarrow> hash \<Rightarrow> hash \<Rightarrow> stateObject \<Rightarrow> stateDB \<Rightarrow> stateObject \<times> stateDB" where
  "so_SetState E key val ob s =
     (let (prev, ob1) = so_GetState E (db s) key ob
      in so_setState key val ob1 (append_journal (StorageChange (obj_address ob) key prev) s))"

definition so_setBalance :: "int \<Rightarrow> stateObject \<Rightarrow> stateDB \<Rightarrow> stateObject \<times> stateDB" where
  "so_setBalance amount ob s = fireDirty (ob\<lparr>data := (data ob)\<lparr>Balance := amount\<rparr>\<rparr>) s"

definition so_SetBalance :: "int \<Rightarrow> stateObject \<Rightarrow> stateDB \<Rightarrow> stateObject \<times> stateDB" where
  "so_SetBalance amount ob s =
     so_setBalance amount ob (append_journal (BalanceChange (obj_address ob) (Balance (data ob))) s)"

definition so_AddBalance :: "crypto \<Rightarrow> int \<Rightarrow> stateObject \<Rightarrow> stateDB \<Rightarrow> stateObject \<times> stateDB" where
  "so_AddBalance E amount ob s =
     (if big_Sign amount = 0 then (if so_empty E ob then touch ob s else (ob, s))
      else so_SetBalance (Balance (data ob) + amount) ob s)"

definition so_SubBalance :: "int \<Rightarrow> stateObject \<Rightarrow> stateDB \<Rightarrow> stateObject \<times> stateDB" where
  "so_SubBalance amount ob s =
     (if big_Sign amount = 0 then (ob, s) else so_SetBalance (Balance (data ob) - amount) ob s)"

definition so_Code :: "crypto \<Rightarrow> bzcdb \<Rightarrow> stateObject \<Rightarrow> bytes option \<times> stateObject" where
  "so_Code E d ob =
     (if code ob \<noteq> None then (code ob, ob)
      else if CodeHash (data ob) = emptyCodeHash E then (None, ob)
      else
        (case codes d (CodeHash (data ob)) of
           None \<Rightarrow> (None, (setError ErrCode ob)\<lparr>code := None\<rparr>)
         | Some c \<Rightarrow> (Some c, ob\<lparr>code := Some c\<rparr>)))"

definition so_setCode :: "hash \<Rightarrow> bytes option \<Rightarrow> stateObject \<Rightarrow> stateDB \<Rightarrow> stateObject \<times> stateDB" where
  "so_setCode codeHash c ob s =
     fireDirty (ob\<lparr>code := c, data := (data ob)\<lparr>CodeHash := hash_bytes codeHash\<rparr>, dirtyCode := True\<rparr>) s"

definition so_SetCode :: "crypto \<Rightarrow> hash \<Rightarrow> bytes option \<Rightarrow> stateObject \<Rightarrow> stateDB \<Rightarrow> stateObject \<times> stateDB" where
  "so_SetCode E codeHash c ob s =
     (let (prevcode, ob1) = so_Code E (db s) ob
      in so_setCode codeHash c ob1
           (append_journal (CodeChange (obj_address ob) prevcode (CodeHash (data ob1))) s))"

definition so_setNonce :: "u64 \<Rightarrow> stateObject \<Rightarrow> stateDB \<Rightarrow> stateObject \<times> stateDB" where
  "so_setNonce nonce ob s = fireDirty (ob\<lparr>data := (data ob)\<lparr>Nonce := nonce\<rparr>\<rparr>) s"

definition so_SetNonce :: "u64 \<Rightarrow> stateObject \<Rightarrow> stateDB \<Rightarrow> stateObject \<times> stateDB" where
  "so_SetNonce nonce ob s =
     so_setNonce nonce ob (append_journal (NonceChange (obj_address ob) (Nonce (data ob))) s)"

definition deepCopy :: "stateObject \<Rightarrow> bool \<Rightarrow> crypto \<Rightarrow> stateObject" where
  "deepCopy ob cb E =
     (newObject E (obj_address ob) (Nonce (data ob)) (Some (Balance (data ob))) (Root (data ob))
        (Some (CodeHash (data ob))) cb)
     \<lparr>otrie := otrie ob, code := code ob, dirtyStorage := dirtyStorage ob, cachedStorage := dirtyStorage ob,
      suicided := suicided ob, dirtyCode := dirtyCode ob, deleted := deleted ob\<rparr>"

text \<open>The loop of \<open>updateTrie\<close> visits the dirty keys in an unspecified order, here \<open>keys\<close>.\<close>

fun updateTrie_loop :: "crypto \<Rightarrow> hash list \<Rightarrow> (hash \<rightharpoonup> hash) \<Rightarrow> (bytes \<rightharpoonup> bytes) \<Rightarrow> (hash \<rightharpoonup> hash) \<times> (bytes \<rightharpoonup> bytes)" where
  "updateTrie_loop E [] dirty t = (dirty, t)"
| "updateTrie_loop E (key # keys) dirty t =
     (case dirty key of
        None \<Rightarrow> updateTrie_loop E keys dirty t
      | Some val \<Rightarrow>
          updateTrie_loop E keys (dirty(key := None))
            (if val = 0 then SecureTrie_Delete E (hash_bytes key) t
             else SecureTrie_Update E (hash_bytes key)
               (case EncodeToBytes (BytesV (dropWhile (\<lambda>b. b = 0) (hash_bytes val))) of
                  Inr v \<Rightarrow> v | Inl _ \<Rightarrow> []) t))"

definition updateTrie :: "crypto \<Rightarrow> bzcdb \<Rightarrow> hash list \<Rightarrow> stateObject \<Rightarrow> (bytes \<rightharpoonup> bytes) \<times> stateObject" where
  "updateTrie E d keys ob =
     (let (t, ob1) = getTrie d ob;
          (dirty, t') = updateTrie_loop E keys (dirtyStorage ob1) t
      in (t', ob1\<lparr>dirtyStorage := dirty, otrie := Some t'\<rparr>))"

definition updateRoot :: "crypto \<Rightarrow> bzcdb \<Rightarrow> hash list \<Rightarrow> stateObject \<Rightarrow> stateObject" where
  "updateRoot E d keys ob =
     (let (t, ob1) = updateTrie E d keys ob in ob1\<lparr>data := (data ob1)\<lparr>Root := trieHash E t\<rparr>\<rparr>)"

text \<open>\<open>CommitTrie\<close> also stores the trie's nodes: the trie becomes available under its root.\<close>

definition CommitTrie :: "crypto \<Rightarrow> bzcdb \<Rightarrow> hash list \<Rightarrow> stateObject \<Rightarrow> bzcdb \<Rightarrow> db_error option \<times> stateObject \<times> bzcdb" where
  "CommitTrie E d keys ob dbw =
     (let (t, ob1) = updateTrie E d keys ob
      in case dbErr ob1 of
           Some e \<Rightarrow> (Some e, ob1, dbw)
         | None \<Rightarrow> (None, ob1\<lparr>data := (data ob1)\<lparr>Root := trieHash E t\<rparr>\<rparr>,
             dbw\<lparr>tries := (tries dbw)(trieHash E t \<mapsto> t)\<rparr>))"

end
