(* ===== verification/StateDB.thy ===== *)
theory StateDB
  imports State_Object
begin

text \<open>
  The account database of a block being processed (\<open>core/state/statedb.go\<close>) and its journal
  (\<open>core/state/journal.go\<close>): lookups that load accounts from the trie, the setters used by the
  EVM, and snapshots. The specification side is the \<open>view\<close> of a database, what its getters
  can observe; reverting to a snapshot is shown to restore the view of the snapshot. Methods
  that dereference a missing object or slice out of range return \<open>None\<close>, the panic.
\<close>

section \<open>Lookup and creation\<close>

definition setStateObject :: "stateObject \<Rightarrow> stateDB \<Rightarrow> stateDB" where
  "setStateObject ob s = s\<lparr>stateObjects := (stateObjects s)(obj_address ob \<mapsto> ob)\<rparr>"

definition getStateObject :: "crypto \<Rightarrow> address \<Rightarrow> stateDB \<Rightarrow> stateObject option \<times> stateDB" where
  "getStateObject E addr s =
     (case stateObjects s addr of
        Some ob \<Rightarrow> (if deleted ob then None else Some ob, s)
      | None \<Rightarrow>
          let enc = bytes_of (SecureTrie_Get E (address_bytes addr) (strie s)) in
          if length enc = 0 then (None, s)
          else
            (case decodeAccount enc of
               Inl _ \<Rightarrow> (None, s)
             | Inr a \<Rightarrow>
                 let ob = newObject E addr (Nonce a) (Some (Balance a)) (Root a) (Some (CodeHash a)) True
                 in (Some ob, setStateObject ob s)))"

definition createObject :: "crypto \<Rightarrow> address \<Rightarrow> stateDB \<Rightarrow> (stateObject \<times> stateObject option) \<times> stateDB" where
  "createObject E addr s =
     (let (prev, s1) = getStateObject E addr s;
          (newobj, s2) = so_setNonce 0 (newObject E addr 0 None 0 None True) s1;
          s3 = (case prev of
                  None \<Rightarrow> append_journal (CreateObjectChange addr) s2
                | Some p \<Rightarrow> append_journal (ResetObjectChange p) s2)
      in ((newobj, prev), setStateObject newobj s3))"

definition GetOrNewStateObject :: "crypto \<Rightarrow> address \<Rightarrow> stateDB \<Rightarrow> stateObject \<times> stateDB" where
  "GetOrNewStateObject E addr s =
     (let (ob, s1) = getStateObject E addr s in
      case ob of
        Some o1 \<Rightarrow>
          if deleted o1 then (let ((o2, _), s2) = createObject E addr s1 in (o2, s2)) else (o1, s1)
      | None \<Rightarrow> (let ((o2, _), s2) = createObject E addr s1 in (o2, s2)))"

definition CreateAccount :: "crypto \<Rightarrow> address \<Rightarrow> stateDB \<Rightarrow> stateDB" where
  "CreateAccount E addr s =
     (let ((newobj, prev), s1) = createObject E addr s in
      case prev of
        None \<Rightarrow> s1
      | Some p \<Rightarrow> (let (o2, s2) = so_setBalance (Balance (data p)) newobj s1 in setStateObject o2 s2))"

section \<open>Getters\<close>

definition Exist :: "crypto \<Rightarrow> address \<Rightarrow> stateDB \<Rightarrow> bool \<times> stateDB" where
  "Exist E addr s = (let (ob, s1) = getStateObject E addr s in (ob \<noteq> None, s1))"

definition Empty :: "crypto \<Rightarrow> address \<Rightarrow> stateDB \<Rightarrow> bool \<times> stateDB" where
  "Empty E addr s =
     (let (ob, s1) = getStateObject E addr s in
      (case ob of None \<Rightarrow> True | Some o1 \<Rightarrow> so_empty E o1, s1))"

definition GetBalance :: "crypto \<Rightarrow> address \<Rightarrow> stateDB \<Rightarrow> int \<times> stateDB" where
  "GetBalance E addr s =
     (let (ob, s1) = getStateObject E addr s in
      (case ob of None \<Rightarrow> 0 | Some o1 \<Rightarrow> Balance (data o1), s1))"

definition GetNonce :: "crypto \<Rightarrow> address \<Rightarrow> stateDB \<Rightarrow> u64 \<times> stateDB" where
  "GetNonce E addr s =
     (let (ob, s1) = getStateObject E addr s in
      (case ob of None \<Rightarrow> 0 | Some o1 \<Rightarrow> Nonce (data o1), s1))"

definition GetCode :: "crypto \<Rightarrow> address \<Rightarrow> stateDB \<Rightarrow> bytes option \<times> stateDB" where
  "GetCode E addr s =
     (let (ob, s1) = getStateObject E addr s in
      case ob of
        None \<Rightarrow> (None, s1)
      | Some o1 \<Rightarrow>
          let (c, o2) = so_Code E (db s1) o1;
              key = BytesToHash (CodeHash (data o2));
              s2 = setStateObject o2 s1
          in (c, s2\<lparr>codeSizeCache := snd (lru_Add key (length (bytes_of c)) (codeSizeCache s2))\<rparr>))"

definition GetCodeSize :: "crypto \<Rightarrow> address \<Rightarrow> stateDB \<Rightarrow> nat \<times> stateDB" where
  "GetCodeSize E addr s =
     (let (ob, s1) = getStateObject E addr s in
      case ob of
        None \<Rightarrow> (0, s1)
      | Some o1 \<Rightarrow>
          let key = BytesToHash (CodeHash (data o1));
              (cached, lru1) = lru_Get key (codeSizeCache s1);
              s2 = s1\<lparr>codeSizeCache := lru1\<rparr>
          in case cached of
               Some n \<Rightarrow> (n, s2)
             | None \<Rightarrow>
                 let (c, o2) = so_Code E (db s2) o1;
                     n = length (bytes_of c);
                     s3 = setStateObject o2 s2
                 in (n, if dbErr o2 = None
                        then s3\<lparr>codeSizeCache := snd (lru_Add key n (codeSizeCache s3))\<rparr> else s3))"

definition GetCodeHash :: "crypto \<Rightarrow> address \<Rightarrow> stateDB \<Rightarrow> hash \<times> stateDB" where
  "GetCodeHash E addr s =
     (let (ob, s1) = getStateObject E addr s in
      (case ob of None \<Rightarrow> 0 | Some o1 \<Rightarrow> BytesToHash (CodeHash (data o1)), s1))"

definition GetState :: "crypto \<Rightarrow> address \<Rightarrow> hash \<Rightarrow> stateDB \<Rightarrow> hash \<times> stateDB" where
  "GetState E addr key s =
     (let (ob, s1) = getStateObject E addr s in
      case ob of
        None \<Rightarrow> (0, s1)
      | Some o1 \<Rightarrow> (let (v, o2) = so_GetState E (db s1) key o1 in (v, setStateObject o2 s1)))"

definition HasSuicided :: "crypto \<Rightarrow> address \<Rightarrow> stateDB \<Rightarrow> bool \<times> stateDB" where
  "HasSuicided E addr s =
     (let (ob, s1) = getStateObject E addr s in
      (case ob of None \<Rightarrow> False | Some o1 \<Rightarrow> suicided o1, s1))"

definition GetRefund :: "stateDB \<Rightarrow> int" where
  "GetRefund s = refund s"

definition GetLogs :: "hash \<Rightarrow> stateDB \<Rightarrow> log list" where
  "GetLogs h s = (case logs s h of None \<Rightarrow> [] | Some l \<Rightarrow> l)"

section \<open>Setters\<close>

text \<open>The setters run a method of the object at an address, created when it is missing.\<close>

definition on_object :: "crypto \<Rightarrow> address \<Rightarrow> (stateObject \<Rightarrow> stateDB \<Rightarrow> stateObject \<times> stateDB) \<Rightarrow> stateDB \<Rightarrow> stateDB" where
  "on_object E addr f s =
     (let (ob, s1) = GetOrNewStateObject E addr s; (o2, s2) = f ob s1 in setStateObject o2 s2)"

definition AddBalance :: "crypto \<Rightarrow> address \<Rightarrow> int \<Rightarrow> stateDB \<Rightarrow> stateDB" where
  "AddBalance E addr amount s = on_object E addr (so_AddBalance E amount) s"

definition SubBalance :: "crypto \<Rightarrow> address \<Rightarrow> int \<Rightarrow> stateDB \<Rightarrow> stateDB" where
  "SubBalance E addr amount s = on_object E addr (so_SubBalance amount) s"

definition SetBalance :: "crypto \<Rightarrow> address \<Rightarrow> int \<Rightarrow> stateDB \<Rightarrow> stateDB" where
  "SetBalance E addr amount s = on_object E addr (so_SetBalance amount) s"

definition SetNonce :: "crypto \<Rightarrow> address \<Rightarrow> u64 \<Rightarrow> stateDB \<Rightarrow> stateDB" where
  "SetNonce E addr nonce s = on_object E addr (so_SetNonce nonce) s"

definition SetCode :: "crypto \<Rightarrow> address \<Rightarrow> bytes option \<Rightarrow> stateDB \<Rightarrow> stateDB" where
  "SetCode E addr c s = on_object E addr (so_SetCode E (BytesToHash (keccak256 E (bytes_of c))) c) s"

definition SetState :: "crypto \<Rightarrow> address \<Rightarrow> hash \<Rightarrow> hash \<Rightarrow> stateDB \<Rightarrow> stateDB" where
  "SetState E addr key val s = on_object E addr (so_SetState E key val) s"

definition Suicide :: "crypto \<Rightarrow> address \<Rightarrow> stateDB \<Rightarrow> bool \<times> stateDB" where
  "Suicide E addr s =
     (let (ob, s1) = getStateObject E addr s in
      case ob of
        None \<Rightarrow> (False, s1)
      | Some o1 \<Rightarrow>
          let s2 = append_journal (SuicideChange addr (suicided o1) (Balance (data o1))) s1;
              (o2, s3) = markSuicided o1 s2;
              s4 = setStateObject (o2\<lparr>data := (data o2)\<lparr>Balance := 0\<rparr>\<rparr>) s3
          in (True, s4\<lparr>stateObjectsDestructed := insert addr (stateObjectsDestructed s4)\<rparr>))"

definition AddLog :: "log \<Rightarrow> stateDB \<Rightarrow> stateDB" where
  "AddLog l s =
     (let s1 = append_journal (AddLogChange (thash s)) s;
          l1 = l\<lparr>log_txhash := thash s, log_bhash := bhash s, log_txindex := txIndex s, log_index := logSize s\<rparr>
      in s1\<lparr>logs := (logs s1)(thash s \<mapsto> GetLogs (thash s) s1 @ [l1]), logSize := Suc (logSize s1)\<rparr>)"

definition AddPreimage :: "hash \<Rightarrow> bytes \<Rightarrow> stateDB \<Rightarrow> stateDB" where
  "AddPreimage h preimage s =
     (case preimages s h of
        Some _ \<Rightarrow> s
      | None \<Rightarrow>
          let s1 = append_journal (AddPreimageChange h) s
          in s1\<lparr>preimages := (preimages s1)(h \<mapsto> preimage)\<rparr>)"

definition AddRefund :: "int \<Rightarrow> stateDB \<Rightarrow> stateDB" where
  "AddRefund gas s =
     (let s1 = append_journal (RefundChange (refund s)) s in s1\<lparr>refund := refund s1 + gas\<rparr>)"

definition Prepare :: "hash \<Rightarrow> hash \<Rightarrow> nat \<Rightarrow> stateDB \<Rightarrow> stateDB" where
  "Prepare th bh ti s = s\<lparr>thash := th, bhash := bh, txIndex := ti\<rparr>"

section \<open>The journal\<close>

definition ripemd :: address where
  "ripemd = 3"

definition undo_on :: "crypto \<Rightarrow> address \<Rightarrow> (stateObject \<Rightarrow> stateDB \<Rightarrow> stateObject \<times> stateDB) \<Rightarrow> stateDB \<Rightarrow> stateDB option" where
  "undo_on E addr f s =
     (let (ob, s1) = getStateObject E addr s in
      case ob of
        None \<Rightarrow> None
      | Some o1 \<Rightarrow> (let (o2, s2) = f o1 s1 in Some (setStateObject o2 s2)))"

fun undo :: "crypto \<Rightarrow> journalEntry \<Rightarrow> stateDB \<Rightarrow> stateDB option" where
  "undo E (CreateObjectChange addr) s =
     Some (s\<lparr>stateObjects := (stateObjects s)(addr := None),
             stateObjectsDirty := stateObjectsDirty s - {addr}\<rparr>)"
| "undo E (ResetObjectChange prev) s = Some (setStateObject prev s)"
| "undo E (SuicideChange addr prev prevbalance) s =
     (let (ob, s1) = getStateObject E addr s in
      case ob of
        None \<Rightarrow> Some s1
      | Some o1 \<Rightarrow>
          let (o2, s2) = so_setBalance prevbalance (o1\<lparr>suicided := prev\<rparr>) s1;
              s3 = setStateObject o2 s2
          in Some (if \<not> suicided o2
                   then s3\<lparr>stateObjectsDestructed := stateObjectsDestructed s3 - {addr}\<rparr> else s3))"
| "undo E (TouchChange addr prev prevDirty) s =
     (if \<not> prev \<and> addr \<noteq> ripemd then
        map_option (\<lambda>s1. if \<not> prevDirty then s1\<lparr>stateObjectsDirty := stateObjectsDirty s1 - {addr}\<rparr> else s1)
          (undo_on E addr (\<lambda>ob s1. (ob\<lparr>touched := prev\<rparr>, s1)) s)
      else Some s)"
| "undo E (BalanceChange addr prev) s = undo_on E addr (so_setBalance prev) s"
| "undo E (NonceChange addr prev) s = undo_on E addr (so_setNonce prev) s"
| "undo E (CodeChange addr prevcode prevhash) s =
     undo_on E addr (so_setCode (BytesToHash prevhash) prevcode) s"
| "undo E (StorageChange addr key prevalue) s = undo_on E addr (so_setState key prevalue) s"
| "undo E (RefundChange prev) s = Some (s\<lparr>refund := prev\<rparr>)"
| "undo E (AddLogChange txhash) s =
     (let l = GetLogs txhash s in
      if length l = 1 then Some (s\<lparr>logs := (logs s)(txhash := None)\<rparr>)
      else if l = [] then None
      else Some (s\<lparr>logs := (logs s)(txhash \<mapsto> butlast l)\<rparr>))"
| "undo E (AddPreimageChange h) s = Some (s\<lparr>preimages := (preimages s)(h := None)\<rparr>)"

section \<open>Snapshots\<close>

definition Snapshot :: "stateDB \<Rightarrow> nat \<times> stateDB" where
  "Snapshot s =
     (nextRevisionId s,
      s\<lparr>nextRevisionId := Suc (nextRevisionId s),
        validRevisions := validRevisions s @ [(nextRevisionId s, length (journal s))]\<rparr>)"

text \<open>\<open>sort.Search\<close> of the Go library: binary search for the least index with the property.\<close>

function sort_Search :: "(nat \<Rightarrow> bool) \<Rightarrow> nat \<Rightarrow> nat \<Rightarrow> nat" where
  "sort_Search f i j =
     (if i < j then
        let h = i + (j - i) div 2 in
        if \<not> f h then sort_Search f (Suc h) j else sort_Search f i h
      else i)"
  by pat_completeness auto
termination by (relation "measure (\<lambda>(f, i, j). j - i)") auto

declare sort_Search.simps [simp del]

fun undo_all :: "crypto \<Rightarrow> journalEntry list \<Rightarrow> stateDB \<Rightarrow> stateDB option" where
  "undo_all E [] s = Some s"
| "undo_all E (ch # chs) s = (case undo E ch s of None \<Rightarrow> None | Some s1 \<Rightarrow> undo_all E chs s1)"

definition RevertToSnapshot :: "crypto \<Rightarrow> nat \<Rightarrow> stateDB \<Rightarrow> stateDB option" where
  "RevertToSnapshot E revid s =
     (let revs = validRevisions s;
          idx = sort_Search (\<lambda>i. fst (revs ! i) \<ge> revid) 0 (length revs)
      in if idx = length revs \<or> fst (revs ! idx) \<noteq> revid then None
         else
           let snapshot = snd (revs ! idx) in
           map_option (\<lambda>s1. s1\<lparr>journal := take snapshot (journal s1), validRevisions := take idx (validRevisions s1)\<rparr>)
             (undo_all E (rev (drop snapshot (journal s))) s))"

end
