(* ===== verification/State_View.thy ===== *)
theory State_View
  imports StateDB
begin

text \<open>
  What the account database promises, and the proof that it keeps it. The \<open>view\<close> of a
  database is what its getters can observe; the specification is a machine over views with a stack
  of saved views. Every journal entry is shown to undo, on the view, the change it was
  written for, so that reverting to a snapshot restores the view of the snapshot.
\<close>

section \<open>The view of a database\<close>

text \<open>What the getters show of an account, and of the whole database.\<close>

record aview =
  av_nonce :: u64
  av_balance :: int
  av_codehash :: bytes
  av_code :: bytes
  av_storage :: "hash \<Rightarrow> hash"
  av_suicided :: bool

record view =
  vw_accts :: "address \<Rightarrow> aview option"
  vw_refund :: int
  vw_logs :: "hash \<Rightarrow> log list"
  vw_preimages :: "hash \<rightharpoonup> bytes"

definition code_at :: "crypto \<Rightarrow> bzcdb \<Rightarrow> bytes option \<Rightarrow> bytes \<Rightarrow> bytes" where
  "code_at E d c h =
     (case c of Some b \<Rightarrow> b | None \<Rightarrow> if h = emptyCodeHash E then [] else bytes_of (codes d h))"

definition trie_of :: "bzcdb \<Rightarrow> stateObject \<Rightarrow> (bytes \<rightharpoonup> bytes)" where
  "trie_of d ob =
     (case otrie ob of Some t \<Rightarrow> t
      | None \<Rightarrow> (case NewSecure (Root (data ob)) d of Some t \<Rightarrow> t | None \<Rightarrow> Map.empty))"

definition slot :: "crypto \<Rightarrow> hash \<Rightarrow> (bytes \<rightharpoonup> bytes) \<Rightarrow> hash" where
  "slot E key t =
     (let enc = bytes_of (SecureTrie_Get E (hash_bytes key) t) in
      if length enc = 0 then 0
      else (case Split enc of Inl _ \<Rightarrow> 0 | Inr (_, content, _) \<Rightarrow> BytesToHash content))"

definition obj_storage :: "crypto \<Rightarrow> bzcdb \<Rightarrow> stateObject \<Rightarrow> hash \<Rightarrow> hash" where
  "obj_storage E d ob key =
     (case cachedStorage ob key of Some v \<Rightarrow> v | None \<Rightarrow> slot E key (trie_of d ob))"

definition obj_view :: "crypto \<Rightarrow> bzcdb \<Rightarrow> stateObject \<Rightarrow> aview" where
  "obj_view E d ob =
     \<lparr>av_nonce = Nonce (data ob), av_balance = Balance (data ob), av_codehash = CodeHash (data ob),
      av_code = code_at E d (code ob) (CodeHash (data ob)), av_storage = obj_storage E d ob,
      av_suicided = suicided ob\<rparr>"

definition lookup :: "crypto \<Rightarrow> stateDB \<Rightarrow> address \<Rightarrow> stateObject option" where
  "lookup E s addr = fst (getStateObject E addr s)"

definition view :: "crypto \<Rightarrow> stateDB \<Rightarrow> view" where
  "view E s =
     \<lparr>vw_accts = (\<lambda>a. map_option (obj_view E (db s)) (lookup E s a)), vw_refund = refund s,
      vw_logs = (\<lambda>h. GetLogs h s), vw_preimages = preimages s\<rparr>"

text \<open>The operations on views. An account that is touched for the first time is fresh.\<close>

definition fresh_view :: "crypto \<Rightarrow> aview" where
  "fresh_view E = \<lparr>av_nonce = 0, av_balance = 0, av_codehash = emptyCodeHash E, av_code = [], av_storage = (\<lambda>_. 0), av_suicided = False\<rparr>"

definition vupd :: "crypto \<Rightarrow> address \<Rightarrow> (aview \<Rightarrow> aview) \<Rightarrow> view \<Rightarrow> view" where
  "vupd E a f v =
     v\<lparr>vw_accts := (vw_accts v)(a \<mapsto> f (case vw_accts v a of None \<Rightarrow> fresh_view E | Some x \<Rightarrow> x))\<rparr>"

definition vSuicide :: "address \<Rightarrow> view \<Rightarrow> view" where
  "vSuicide a v =
     (case vw_accts v a of None \<Rightarrow> v
      | Some x \<Rightarrow> v\<lparr>vw_accts := (vw_accts v)(a \<mapsto> x\<lparr>av_suicided := True, av_balance := 0\<rparr>)\<rparr>)"

definition vCreateAccount :: "crypto \<Rightarrow> address \<Rightarrow> view \<Rightarrow> view" where
  "vCreateAccount E a v =
     v\<lparr>vw_accts := (vw_accts v)(a \<mapsto> (fresh_view E)
       \<lparr>av_balance := (case vw_accts v a of None \<Rightarrow> 0 | Some x \<Rightarrow> av_balance x)\<rparr>)\<rparr>"

definition vAddLog :: "hash \<times> hash \<times> nat \<times> nat \<Rightarrow> log \<Rightarrow> view \<Rightarrow> view" where
  "vAddLog pos l v =
     (case pos of (th, bh, ti, n) \<Rightarrow>
        v\<lparr>vw_logs := (vw_logs v)(th := vw_logs v th @
          [l\<lparr>log_txhash := th, log_bhash := bh, log_txindex := ti, log_index := n\<rparr>])\<rparr>)"

text \<open>The journal entries on views.\<close>

definition aundo_on :: "address \<Rightarrow> (aview \<Rightarrow> aview) \<Rightarrow> view \<Rightarrow> view option" where
  "aundo_on a f v =
     (case vw_accts v a of None \<Rightarrow> None | Some x \<Rightarrow> Some (v\<lparr>vw_accts := (vw_accts v)(a \<mapsto> f x)\<rparr>))"

fun aundo :: "crypto \<Rightarrow> bzcdb \<Rightarrow> journalEntry \<Rightarrow> view \<Rightarrow> view option" where
  "aundo E d (CreateObjectChange a) v = Some (v\<lparr>vw_accts := (vw_accts v)(a := None)\<rparr>)"
| "aundo E d (ResetObjectChange p) v = Some (v\<lparr>vw_accts := (vw_accts v)(obj_address p \<mapsto> obj_view E d p)\<rparr>)"
| "aundo E d (SuicideChange a prev b) v =
     (case vw_accts v a of None \<Rightarrow> Some v
      | Some x \<Rightarrow> Some (v\<lparr>vw_accts := (vw_accts v)(a \<mapsto> x\<lparr>av_suicided := prev, av_balance := b\<rparr>)\<rparr>))"
| "aundo E d (TouchChange a prev prevDirty) v =
     (if \<not> prev \<and> a \<noteq> ripemd then aundo_on a (\<lambda>x. x) v else Some v)"
| "aundo E d (BalanceChange a b) v = aundo_on a (\<lambda>x. x\<lparr>av_balance := b\<rparr>) v"
| "aundo E d (NonceChange a n) v = aundo_on a (\<lambda>x. x\<lparr>av_nonce := n\<rparr>) v"
| "aundo E d (CodeChange a c h) v =
     aundo_on a (\<lambda>x. x\<lparr>av_codehash := hash_bytes (BytesToHash h),
       av_code := code_at E d c (hash_bytes (BytesToHash h))\<rparr>) v"
| "aundo E d (StorageChange a k w) v = aundo_on a (\<lambda>x. x\<lparr>av_storage := (av_storage x)(k := w)\<rparr>) v"
| "aundo E d (RefundChange r) v = Some (v\<lparr>vw_refund := r\<rparr>)"
| "aundo E d (AddLogChange h) v =
     (if vw_logs v h = [] then None else Some (v\<lparr>vw_logs := (vw_logs v)(h := butlast (vw_logs v h))\<rparr>))"
| "aundo E d (AddPreimageChange h) v = Some (v\<lparr>vw_preimages := (vw_preimages v)(h := None)\<rparr>)"

fun aundo_all :: "crypto \<Rightarrow> bzcdb \<Rightarrow> journalEntry list \<Rightarrow> view \<Rightarrow> view option" where
  "aundo_all E d [] v = Some v"
| "aundo_all E d (ch # chs) v = (case aundo E d ch v of None \<Rightarrow> None | Some v1 \<Rightarrow> aundo_all E d chs v1)"

section \<open>Invariant\<close>

definition trie_account :: "crypto \<Rightarrow> (bytes \<rightharpoonup> bytes) \<Rightarrow> address \<Rightarrow> Account option" where
  "trie_account E t addr =
     (let enc = bytes_of (SecureTrie_Get E (address_bytes addr) t) in
      if length enc = 0 then None else (case decodeAccount enc of Inl _ \<Rightarrow> None | Inr a \<Rightarrow> Some a))"

definition obj_ok :: "crypto \<Rightarrow> (bytes \<rightharpoonup> bytes) \<Rightarrow> address \<Rightarrow> stateObject \<Rightarrow> bool" where
  "obj_ok E t a ob \<longleftrightarrow> obj_address ob = a \<and> length (CodeHash (data ob)) = 32 \<and>
     (deleted ob \<longrightarrow> trie_account E t a = None)"

definition entry_ok :: "crypto \<Rightarrow> (bytes \<rightharpoonup> bytes) \<Rightarrow> journalEntry \<Rightarrow> bool" where
  "entry_ok E t ch \<longleftrightarrow>
     (case ch of
        CreateObjectChange a \<Rightarrow> trie_account E t a = None
      | ResetObjectChange p \<Rightarrow> obj_ok E t (obj_address p) p \<and> \<not> deleted p
      | _ \<Rightarrow> True)"

definition objs_ok :: "crypto \<Rightarrow> stateDB \<Rightarrow> bool" where
  "objs_ok E s \<longleftrightarrow>
     (\<forall>a ob. stateObjects s a = Some ob \<longrightarrow> obj_ok E (strie s) a ob) \<and>
     (\<forall>a acc. trie_account E (strie s) a = Some acc \<longrightarrow> length (CodeHash acc) = 32) \<and>
     lru_ok (codeSizeCache s)"

definition revs_ok :: "stateDB \<Rightarrow> bool" where
  "revs_ok s \<longleftrightarrow> sorted_wrt (<) (map fst (validRevisions s)) \<and> sorted (map snd (validRevisions s)) \<and>
     (\<forall>r\<in>set (validRevisions s). fst r < nextRevisionId s \<and> snd r \<le> length (journal s))"

definition sdb_ok :: "crypto \<Rightarrow> stateDB \<Rightarrow> bool" where
  "sdb_ok E s \<longleftrightarrow> objs_ok E s \<and> (\<forall>ch\<in>set (journal s). entry_ok E (strie s) ch) \<and> revs_ok s"

definition crypto_ok :: "crypto \<Rightarrow> bool" where
  "crypto_ok E \<longleftrightarrow> (\<forall>b. length (keccak256 E b) = 32)"

text \<open>The position in the block that the next log is stamped with.\<close>

definition log_pos :: "stateDB \<Rightarrow> hash \<times> hash \<times> nat \<times> nat" where
  "log_pos s = (thash s, bhash s, txIndex s, logSize s)"

text \<open>\<open>ext E s s'\<close>: the database has moved from \<open>s\<close> to \<open>s'\<close> by journalled changes, and undoing them
  brings the view of \<open>s\<close> back.\<close>

definition ext :: "crypto \<Rightarrow> stateDB \<Rightarrow> stateDB \<Rightarrow> bool" where
  "ext E s s' \<longleftrightarrow> sdb_ok E s' \<and> db s' = db s \<and> strie s' = strie s \<and>
     (\<exists>js. journal s' = journal s @ js \<and> aundo_all E (db s) (rev js) (view E s') = Some (view E s)) \<and>
     validRevisions s' = validRevisions s \<and> nextRevisionId s' = nextRevisionId s \<and> log_pos s' = log_pos s"

section \<open>Closed forms\<close>

lemma hash_bytes_BytesToHash: "length b = 32 \<Longrightarrow> hash_bytes (BytesToHash b) = b"
proof -
  assume l: "length b = 32"
  have "SetBytes b < 2 ^ 256" using SetBytes_bound [of b] l by simp
  then have "unat (word_of_int (SetBytes b) :: hash) = nat (SetBytes b)"
    by (simp add: unat_eq_nat_uint uint_word_of_int take_bit_int_eq_self_iff)
  then show ?thesis using be_bytes_SetBytes [of b] l by (simp add: hash_bytes_def BytesToHash_eq)
qed

lemma bytes_of_simps [simp]: "bytes_of None = []" "bytes_of (Some b) = b"
  by (simp_all add: bytes_of_def)

lemma setError_simps [simp]:
  "data (setError e ob) = data ob" "code (setError e ob) = code ob" "otrie (setError e ob) = otrie ob"
  "cachedStorage (setError e ob) = cachedStorage ob" "suicided (setError e ob) = suicided ob"
  "deleted (setError e ob) = deleted ob" "obj_address (setError e ob) = obj_address ob"
  by (simp_all add: setError_def)

lemma fst_so_Code: "bytes_of (fst (so_Code E d ob)) = code_at E d (code ob) (CodeHash (data ob))"
  by (auto simp: so_Code_def code_at_def split: option.splits)

lemma code_at_so_Code:
  "code_at E d (fst (so_Code E d ob)) (CodeHash (data ob)) = code_at E d (code ob) (CodeHash (data ob))"
  by (auto simp: so_Code_def code_at_def split: option.splits)

lemma so_Code_view: "obj_view E d (snd (so_Code E d ob)) = obj_view E d ob"
  by (auto simp: so_Code_def obj_view_def code_at_def obj_storage_def trie_of_def fun_eq_iff split: option.splits)

lemma so_Code_keeps [simp]:
  "obj_address (snd (so_Code E d ob)) = obj_address ob" "data (snd (so_Code E d ob)) = data ob"
  "deleted (snd (so_Code E d ob)) = deleted ob"
  by (auto simp: so_Code_def split: option.splits)

lemma getTrie_eq: "fst (getTrie d ob) = trie_of d ob"
  by (simp add: getTrie_def trie_of_def split: option.splits)

lemma getTrie_keeps [simp]:
  "obj_address (snd (getTrie d ob)) = obj_address ob" "data (snd (getTrie d ob)) = data ob"
  "deleted (snd (getTrie d ob)) = deleted ob" "code (snd (getTrie d ob)) = code ob"
  "cachedStorage (snd (getTrie d ob)) = cachedStorage ob" "suicided (snd (getTrie d ob)) = suicided ob"
  by (auto simp: getTrie_def split: option.splits)

lemma trie_of_getTrie [simp]: "trie_of d (snd (getTrie d ob)) = trie_of d ob"
  by (auto simp: getTrie_def trie_of_def split: option.splits)

lemma trie_of_setError [simp]: "trie_of d (setError e ob) = trie_of d ob"
  by (simp add: trie_of_def cong: option.case_cong)

lemma decodeSlot_cases:
  "\<exists>ob'. decodeSlot (bytes_of (SecureTrie_Get E (hash_bytes key) t)) ob = (slot E key t, ob') \<and>
     (ob' = ob \<or> (\<exists>e. ob' = setError e ob))"
  by (auto simp: decodeSlot_def slot_def BytesToHash_eq Let_def split: sum.split)

lemma so_GetState_cases:
  "\<exists>ob'. so_GetState E d key ob = (obj_storage E d ob key, ob') \<and> trie_of d ob' = trie_of d ob \<and>
     (cachedStorage ob' = cachedStorage ob \<or>
      cachedStorage ob' = (cachedStorage ob)(key \<mapsto> obj_storage E d ob key)) \<and>
     obj_address ob' = obj_address ob \<and> data ob' = data ob \<and> deleted ob' = deleted ob \<and>
     code ob' = code ob \<and> suicided ob' = suicided ob"
proof (cases "cachedStorage ob key")
  case (Some v)
  then show ?thesis by (simp add: so_GetState_def obj_storage_def)
next
  case None
  obtain t ob1 where t: "getTrie d ob = (t, ob1)" by fastforce
  then have t1: "t = trie_of d ob" "ob1 = snd (getTrie d ob)" using getTrie_eq [of d ob] by auto
  obtain ob2 where o2: "decodeSlot (bytes_of (SecureTrie_Get E (hash_bytes key) t)) ob1 = (slot E key t, ob2)"
    "ob2 = ob1 \<or> (\<exists>e. ob2 = setError e ob1)" using decodeSlot_cases by blast
  then have "trie_of d ob2 = trie_of d ob" "cachedStorage ob2 = cachedStorage ob"
    "obj_address ob2 = obj_address ob" "data ob2 = data ob" "deleted ob2 = deleted ob"
    "code ob2 = code ob" "suicided ob2 = suicided ob" by (auto simp: t1)
  then show ?thesis using None t o2(1) t1(1)
    by (auto simp: so_GetState_def obj_storage_def trie_of_def cong: option.case_cong)
qed

lemma fst_so_GetState: "fst (so_GetState E d key ob) = obj_storage E d ob key"
  using so_GetState_cases [of E d key ob] by auto

lemma so_GetState_keeps [simp]:
  "obj_address (snd (so_GetState E d key ob)) = obj_address ob" "data (snd (so_GetState E d key ob)) = data ob"
  "deleted (snd (so_GetState E d key ob)) = deleted ob" "code (snd (so_GetState E d key ob)) = code ob"
  "suicided (snd (so_GetState E d key ob)) = suicided ob"
  using so_GetState_cases [of E d key ob] by auto

lemma obj_storage_cache:
  "trie_of d ob' = trie_of d ob \<Longrightarrow>
   cachedStorage ob' = cachedStorage ob \<or> (\<exists>k. cachedStorage ob' = (cachedStorage ob)(k \<mapsto> obj_storage E d ob k)) \<Longrightarrow>
   obj_storage E d ob' = obj_storage E d ob"
  by (rule HOL.ext) (auto simp: obj_storage_def cong: option.case_cong)

lemma so_GetState_storage: "obj_storage E d (snd (so_GetState E d key ob)) = obj_storage E d ob"
  using so_GetState_cases [of E d key ob] by (intro obj_storage_cache) auto

lemma so_GetState_view: "obj_view E d (snd (so_GetState E d key ob)) = obj_view E d ob"
  by (simp add: obj_view_def so_GetState_storage)

section \<open>Lookups\<close>

lemma lookup_eq:
  "lookup E s a =
     (case stateObjects s a of
        Some ob \<Rightarrow> if deleted ob then None else Some ob
      | None \<Rightarrow> map_option (\<lambda>acc. newObject E a (Nonce acc) (Some (Balance acc)) (Root acc) (Some (CodeHash acc)) True)
          (trie_account E (strie s) a))"
  by (auto simp: lookup_def getStateObject_def trie_account_def Let_def split: option.splits sum.splits)

lemma newObject_ok: "length (CodeHash acc) = 32 \<Longrightarrow>
  obj_ok E t a (newObject E a n b r (Some (CodeHash acc)) cb)"
  by (simp add: obj_ok_def newObject_def)

lemma newObject_deleted [simp]: "\<not> deleted (newObject E a n b r c cb)" "obj_address (newObject E a n b r c cb) = a"
  by (simp_all add: newObject_def)

text \<open>What \<open>getStateObject\<close> does to the database: at most the object it returns becomes live.\<close>

lemma getStateObject_cases:
  obtains (none) "getStateObject E a s = (None, s)" "lookup E s a = None"
  | (live) ob where "getStateObject E a s = (Some ob, s)" "stateObjects s a = Some ob" "\<not> deleted ob"
      "lookup E s a = Some ob"
  | (load) ob where "getStateObject E a s = (Some ob, setStateObject ob s)" "stateObjects s a = None"
      "\<not> deleted ob" "obj_address ob = a" "lookup E s a = Some ob"
      "\<exists>acc. trie_account E (strie s) a = Some acc \<and> CodeHash (data ob) = CodeHash acc"
proof (cases "stateObjects s a")
  case (Some ob)
  then show ?thesis using none live by (cases "deleted ob") (auto simp: getStateObject_def lookup_eq)
next
  case None
  show ?thesis
  proof (cases "trie_account E (strie s) a")
    case None
    with \<open>stateObjects s a = None\<close> have "lookup E s a = None" "snd (getStateObject E a s) = s"
      by (auto simp: lookup_eq getStateObject_def trie_account_def Let_def split: sum.splits if_splits)
    then show ?thesis using none by (cases "getStateObject E a s") (simp add: lookup_def)
  next
    case (Some acc)
    let ?ob = "newObject E a (Nonce acc) (Some (Balance acc)) (Root acc) (Some (CodeHash acc)) True"
    have l: "lookup E s a = Some ?ob" using None Some by (simp add: lookup_eq)
    moreover have "snd (getStateObject E a s) = setStateObject ?ob s"
      using None Some by (auto simp: getStateObject_def trie_account_def Let_def split: sum.splits if_splits)
    ultimately have g: "getStateObject E a s = (Some ?ob, setStateObject ?ob s)"
      by (cases "getStateObject E a s") (simp add: lookup_def)
    show ?thesis by (rule load [OF g None _ _ l]) (auto simp: Some newObject_def)
  qed
qed

lemma log_pos_simps [simp]:
  "log_pos (s\<lparr>stateObjects := x\<rparr>) = log_pos s" "log_pos (s\<lparr>journal := js\<rparr>) = log_pos s"
  "log_pos (s\<lparr>stateObjectsDirty := D\<rparr>) = log_pos s" "log_pos (s\<lparr>stateObjectsDestructed := D\<rparr>) = log_pos s"
  "log_pos (s\<lparr>codeSizeCache := c\<rparr>) = log_pos s" "log_pos (s\<lparr>refund := r\<rparr>) = log_pos s"
  "log_pos (s\<lparr>logs := l\<rparr>) = log_pos s" "log_pos (s\<lparr>preimages := p\<rparr>) = log_pos s"
  "log_pos (s\<lparr>nextRevisionId := n\<rparr>) = log_pos s" "log_pos (s\<lparr>validRevisions := rs\<rparr>) = log_pos s"
  by (simp_all add: log_pos_def)

lemma lookup_cong:
  "stateObjects s' = stateObjects s \<Longrightarrow> strie s' = strie s \<Longrightarrow> lookup E s' = lookup E s"
  by (rule HOL.ext) (simp add: lookup_eq cong: option.case_cong)

lemma view_cong:
  "stateObjects s' = stateObjects s \<Longrightarrow> strie s' = strie s \<Longrightarrow> db s' = db s \<Longrightarrow> refund s' = refund s \<Longrightarrow>
   logs s' = logs s \<Longrightarrow> preimages s' = preimages s \<Longrightarrow> view E s' = view E s"
  by (simp add: view_def GetLogs_def lookup_cong [of s' s])

lemma lookup_setStateObject:
  "lookup E (setStateObject ob s) b =
     (if b = obj_address ob then (if deleted ob then None else Some ob) else lookup E s b)"
  by (simp add: lookup_eq setStateObject_def cong: option.case_cong)

lemma view_setStateObject:
  "\<not> deleted ob \<Longrightarrow> view E (setStateObject ob s) =
     (view E s)\<lparr>vw_accts := (vw_accts (view E s))(obj_address ob \<mapsto> obj_view E (db s) ob)\<rparr>"
  by (auto simp: view_def lookup_setStateObject setStateObject_def GetLogs_def fun_eq_iff
    simp del: fun_upd_apply) (auto simp: lookup_setStateObject [unfolded setStateObject_def])

lemma vw_accts_view: "vw_accts (view E s) a = map_option (obj_view E (db s)) (lookup E s a)"
  by (simp add: view_def)

lemma obj_view_simps [simp]:
  "obj_view E d (ob\<lparr>data := (data ob)\<lparr>Balance := b\<rparr>\<rparr>) = (obj_view E d ob)\<lparr>av_balance := b\<rparr>"
  "obj_view E d (ob\<lparr>data := (data ob)\<lparr>Nonce := n\<rparr>\<rparr>) = (obj_view E d ob)\<lparr>av_nonce := n\<rparr>"
  "obj_view E d (ob\<lparr>onDirty := x\<rparr>) = obj_view E d ob"
  "obj_view E d (ob\<lparr>touched := x\<rparr>) = obj_view E d ob"
  "obj_view E d (ob\<lparr>suicided := x\<rparr>) = (obj_view E d ob)\<lparr>av_suicided := x\<rparr>"
  "obj_view E d (ob\<lparr>dirtyStorage := ds\<rparr>) = obj_view E d ob"
  "obj_view E d (ob\<lparr>cachedStorage := (cachedStorage ob)(k \<mapsto> w)\<rparr>) =
     (obj_view E d ob)\<lparr>av_storage := (av_storage (obj_view E d ob))(k := w)\<rparr>"
  "obj_view E d (ob\<lparr>code := c, data := (data ob)\<lparr>CodeHash := h\<rparr>, dirtyCode := x\<rparr>) =
     (obj_view E d ob)\<lparr>av_codehash := h, av_code := code_at E d c h\<rparr>"
  by (simp_all add: obj_view_def obj_storage_def trie_of_def fun_eq_iff cong: option.case_cong)

lemma aview_eqI:
  "av_nonce x = av_nonce y \<Longrightarrow> av_balance x = av_balance y \<Longrightarrow> av_codehash x = av_codehash y \<Longrightarrow>
   av_code x = av_code y \<Longrightarrow> av_storage x = av_storage y \<Longrightarrow> av_suicided x = av_suicided y \<Longrightarrow> x = (y :: aview)"
  by simp

lemma obj_view_sel:
  "av_nonce (obj_view E d ob) = Nonce (data ob)" "av_balance (obj_view E d ob) = Balance (data ob)"
  "av_codehash (obj_view E d ob) = CodeHash (data ob)"
  "av_code (obj_view E d ob) = code_at E d (code ob) (CodeHash (data ob))"
  "av_storage (obj_view E d ob) = obj_storage E d ob" "av_suicided (obj_view E d ob) = suicided ob"
  by (simp_all add: obj_view_def)

section \<open>Journalled changes\<close>

lemma aundo_all_append:
  "aundo_all E d (xs @ ys) v = (case aundo_all E d xs v of None \<Rightarrow> None | Some w \<Rightarrow> aundo_all E d ys w)"
  by (induction xs arbitrary: v) (auto split: option.splits)

lemma ext_ok: "ext E s s' \<Longrightarrow> sdb_ok E s'"
  by (simp add: ext_def)

lemma ext_refl: "sdb_ok E s \<Longrightarrow> ext E s s"
  by (auto simp: ext_def)

lemma ext_trans [trans]: "ext E s s1 \<Longrightarrow> ext E s1 s2 \<Longrightarrow> ext E s s2"
  by (fastforce simp: ext_def aundo_all_append)

lemma ext_update:
  assumes "sdb_ok E s" and "objs_ok E s'" and "db s' = db s" "strie s' = strie s" "journal s' = journal s @ js"
    "validRevisions s' = validRevisions s" "nextRevisionId s' = nextRevisionId s" "log_pos s' = log_pos s"
    and "\<forall>ch\<in>set js. entry_ok E (strie s) ch"
    and "aundo_all E (db s) (rev js) (view E s') = Some (view E s)"
  shows "ext E s s'"
  using assms by (auto simp: ext_def sdb_ok_def revs_ok_def)

lemma objs_ok_set:
  assumes "objs_ok E s" and "obj_ok E (strie s) (obj_address ob) ob"
    and "stateObjects s' = (stateObjects s)(obj_address ob \<mapsto> ob)" and "strie s' = strie s"
    and "lru_ok (codeSizeCache s')"
  shows "objs_ok E s'"
  using assms by (auto simp: objs_ok_def split: if_splits)

lemma objs_ok_cong:
  "objs_ok E s \<Longrightarrow> stateObjects s' = stateObjects s \<Longrightarrow> strie s' = strie s \<Longrightarrow> lru_ok (codeSizeCache s') \<Longrightarrow> objs_ok E s'"
  by (auto simp: objs_ok_def)

text \<open>Loading an object changes nothing that can be seen, nor the journal.\<close>

definition frame :: "stateDB \<Rightarrow> stateDB \<Rightarrow> bool" where
  "frame s s' \<longleftrightarrow> db s' = db s \<and> strie s' = strie s \<and> journal s' = journal s \<and>
     validRevisions s' = validRevisions s \<and> nextRevisionId s' = nextRevisionId s \<and> log_pos s' = log_pos s"

lemma frame_refl [simp]: "frame s s"
  by (simp add: frame_def)

lemma frame_trans: "frame s s1 \<Longrightarrow> frame s1 s2 \<Longrightarrow> frame s s2"
  by (simp add: frame_def)

lemma frame_ok: "sdb_ok E s \<Longrightarrow> frame s s' \<Longrightarrow> objs_ok E s' \<Longrightarrow> sdb_ok E s'"
  by (simp add: sdb_ok_def frame_def revs_ok_def)

lemma frame_ext: "sdb_ok E s \<Longrightarrow> frame s s' \<Longrightarrow> objs_ok E s' \<Longrightarrow> view E s' = view E s \<Longrightarrow> ext E s s'"
  by (auto simp: ext_def frame_ok) (auto simp: frame_def)

lemma lookup_live: "stateObjects s a = Some ob \<Longrightarrow> \<not> deleted ob \<Longrightarrow> lookup E s a = Some ob"
  by (simp add: lookup_eq)

lemma getStateObject_objs:
  assumes "objs_ok E s" and "getStateObject E a s = (r, s1)"
  shows "objs_ok E s1 \<and> frame s s1 \<and> view E s1 = view E s \<and> lookup E s a = r \<and> lookup E s1 a = r \<and>
    (\<forall>ob. r = Some ob \<longrightarrow> stateObjects s1 a = Some ob \<and> \<not> deleted ob \<and> obj_ok E (strie s1) a ob)"
proof (cases rule: getStateObject_cases [of E a s])
  case none
  then show ?thesis using assms by auto
next
  case (live ob)
  then have "obj_ok E (strie s) a ob" using assms(1) by (auto simp: objs_ok_def)
  then show ?thesis using assms live by auto
next
  case (load ob)
  have o: "obj_ok E (strie s) a ob" using assms(1) load by (auto simp: objs_ok_def obj_ok_def)
  have v: "view E (setStateObject ob s) = view E s"
    using load view_setStateObject [of ob E s] by (simp add: vw_accts_view fun_upd_idem)
  have "objs_ok E (setStateObject ob s)"
    by (rule objs_ok_set [OF assms(1), of ob]) (use assms(1) o load in \<open>auto simp: setStateObject_def objs_ok_def\<close>)
  then show ?thesis using assms load v o
    by (auto simp: frame_def lookup_setStateObject) (auto simp: setStateObject_def)
qed

lemma getStateObject_ext:
  assumes "sdb_ok E s" and "getStateObject E a s = (r, s1)"
  shows "ext E s s1 \<and> frame s s1 \<and> view E s1 = view E s \<and> lookup E s a = r \<and> lookup E s1 a = r \<and>
    (\<forall>ob. r = Some ob \<longrightarrow> stateObjects s1 a = Some ob \<and> \<not> deleted ob \<and> obj_ok E (strie s1) a ob)"
  using getStateObject_objs [OF _ assms(2)] assms(1) frame_ext by (auto simp: sdb_ok_def)

lemma fireDirty_cases: "\<exists>x D. fireDirty ob s = (ob\<lparr>onDirty := x\<rparr>, s\<lparr>stateObjectsDirty := D\<rparr>)"
proof (cases "onDirty ob")
  case True
  then show ?thesis by (auto simp: fireDirty_def MarkStateObjectDirty_def)
next
  case False
  then have "fireDirty ob s = (ob\<lparr>onDirty := False\<rparr>, s\<lparr>stateObjectsDirty := stateObjectsDirty s\<rparr>)"
    by (simp add: fireDirty_def)
  then show ?thesis by blast
qed

lemma obj_ok_onDirty [simp]: "obj_ok E t a (ob\<lparr>onDirty := x\<rparr>) = obj_ok E t a ob"
  by (simp add: obj_ok_def)

lemma createObject_ext:
  assumes "crypto_ok E" "sdb_ok E s" and "createObject E a s = ((ob, prev), s')"
  shows "ext E s s' \<and> prev = lookup E s a \<and> validRevisions s' = validRevisions s \<and>
    nextRevisionId s' = nextRevisionId s \<and>
    journal s' = journal s @ [case prev of None \<Rightarrow> CreateObjectChange a | Some p \<Rightarrow> ResetObjectChange p] \<and>
    stateObjects s' a = Some ob \<and> \<not> deleted ob \<and>
    obj_ok E (strie s') a ob \<and>
    obj_view E (db s) ob = obj_view E (db s) (newObject E a 0 None 0 None True) \<and>
    view E s' = (view E s)\<lparr>vw_accts := (vw_accts (view E s))(a \<mapsto> obj_view E (db s) ob)\<rparr>"
proof -
  let ?n = "newObject E a 0 None 0 None True"
  obtain s1 where g: "getStateObject E a s = (prev, s1)"
    using assms(3) by (auto simp: createObject_def split: prod.splits)
  note g1 = getStateObject_ext [OF assms(2) g]
  obtain x D where f: "fireDirty (?n\<lparr>data := (data ?n)\<lparr>Nonce := 0\<rparr>\<rparr>) s1 =
      (?n\<lparr>data := (data ?n)\<lparr>Nonce := 0\<rparr>, onDirty := x\<rparr>, s1\<lparr>stateObjectsDirty := D\<rparr>)"
    using fireDirty_cases by blast
  define ch where "ch = (case prev of None \<Rightarrow> CreateObjectChange a | Some p \<Rightarrow> ResetObjectChange p)"
  have ob: "ob = ?n\<lparr>onDirty := x\<rparr>"
    using assms(3) g f by (auto simp: createObject_def so_setNonce_def newObject_def split: option.splits)
  have s': "s' = setStateObject ob (s1\<lparr>stateObjectsDirty := D, journal := journal s1 @ [ch]\<rparr>)"
    using assms(3) g f ob
    by (auto simp: createObject_def so_setNonce_def append_journal_def ch_def split: option.splits)
  have ok: "obj_ok E (strie s) a ob" "\<not> deleted ob" "obj_address ob = a"
    using assms(1) by (auto simp: ob obj_ok_def newObject_def emptyCodeHash_def crypto_ok_def)
  have v: "view E s' = (view E s)\<lparr>vw_accts := (vw_accts (view E s))(a \<mapsto> obj_view E (db s) ob)\<rparr>"
    using g1 ok view_cong [of "s1\<lparr>stateObjectsDirty := D, journal := journal s1 @ [ch]\<rparr>" s1 E]
    by (simp add: s' view_setStateObject ext_def)
  have o1: "objs_ok E s1" "strie s1 = strie s" using g1 by (auto simp: ext_def sdb_ok_def)
  have "objs_ok E s'"
    by (rule objs_ok_set [OF o1(1), of ob]) (use o1 ok in \<open>auto simp: s' setStateObject_def objs_ok_def\<close>)
  moreover have "entry_ok E (strie s1) ch \<and> aundo E (db s1) ch (view E s') = Some (view E s1)"
  proof (cases prev)
    case None
    then have "lookup E s a = None" using g1 by simp
    moreover have "trie_account E (strie s) a = None"
      using \<open>lookup E s a = None\<close> assms(2)
      by (auto simp: lookup_eq sdb_ok_def objs_ok_def obj_ok_def split: option.splits if_splits)
    ultimately show ?thesis using None g1 o1
      by (auto simp: ch_def v entry_ok_def fun_upd_idem_iff vw_accts_view)
  next
    case (Some p)
    then have "lookup E s a = Some p" "obj_address p = a" "obj_ok E (strie s) a p" "\<not> deleted p"
      using g1 o1 by (auto simp: obj_ok_def)
    then show ?thesis using Some g1 o1
      by (auto simp: ch_def v entry_ok_def fun_upd_idem_iff vw_accts_view ext_def)
  qed
  ultimately have "ext E s1 s'"
    by (intro ext_update [where js = "[ch]"]) (use g1 in \<open>auto simp: s' setStateObject_def ext_def\<close>)
  then have "ext E s s'" using g1 ext_trans by blast
  then show ?thesis using g1 ok v o1 by (auto simp: s' setStateObject_def ob frame_def ch_def)
qed

lemma GetOrNewStateObject_ext:
  assumes "crypto_ok E" "sdb_ok E s" and "GetOrNewStateObject E a s = (ob, s')"
  shows "ext E s s' \<and> stateObjects s' a = Some ob \<and> \<not> deleted ob \<and> obj_ok E (strie s') a ob \<and>
    view E s' = (view E s)\<lparr>vw_accts := (vw_accts (view E s))(a \<mapsto> obj_view E (db s) ob)\<rparr> \<and>
    obj_view E (db s) ob = (case vw_accts (view E s) a of Some x \<Rightarrow> x
      | None \<Rightarrow> obj_view E (db s) (newObject E a 0 None 0 None True))"
proof -
  obtain r s1 where g: "getStateObject E a s = (r, s1)" by fastforce
  note g1 = getStateObject_ext [OF assms(2) g]
  show ?thesis
  proof (cases r)
    case None
    then obtain prev where c: "createObject E a s1 = ((ob, prev), s')"
      using assms(3) g by (auto simp: GetOrNewStateObject_def split: prod.splits)
    have "sdb_ok E s1" "db s1 = db s" using g1 by (auto simp: ext_def)
    with createObject_ext [OF assms(1) _ c] None g1 ext_trans show ?thesis
      by (fastforce simp: vw_accts_view)
  next
    case (Some o1)
    then have "o1 = ob" "s1 = s'" using assms(3) g g1 by (auto simp: GetOrNewStateObject_def)
    moreover have "(vw_accts (view E s))(a \<mapsto> obj_view E (db s) o1) = vw_accts (view E s)"
      using Some g1 by (intro fun_upd_idem) (auto simp: vw_accts_view)
    ultimately show ?thesis using Some g1 by (auto simp: vw_accts_view)
  qed
qed

section \<open>Methods of objects\<close>

text \<open>A method changes its object and the journal such that undoing its entries gives the object's view back.\<close>

definition runs :: "crypto \<Rightarrow> address \<Rightarrow> stateObject \<Rightarrow> stateDB \<Rightarrow> stateObject \<times> stateDB \<Rightarrow> bool" where
  "runs E a ob s r \<longleftrightarrow> (\<exists>o2 D js. r = (o2, s\<lparr>journal := journal s @ js, stateObjectsDirty := D\<rparr>) \<and>
        obj_ok E (strie s) a o2 \<and> \<not> deleted o2 \<and> (\<forall>ch\<in>set js. entry_ok E (strie s) ch) \<and>
        (\<forall>v. vw_accts v a = Some (obj_view E (db s) o2) \<longrightarrow>
           aundo_all E (db s) (rev js) v = Some (v\<lparr>vw_accts := (vw_accts v)(a \<mapsto> obj_view E (db s) ob)\<rparr>)))"

definition method_ok :: "crypto \<Rightarrow> (stateObject \<Rightarrow> stateDB \<Rightarrow> stateObject \<times> stateDB) \<Rightarrow> bool" where
  "method_ok E f \<longleftrightarrow> (\<forall>ob s a. stateObjects s a = Some ob \<and> \<not> deleted ob \<and> obj_ok E (strie s) a ob \<longrightarrow>
     runs E a ob s (f ob s))"

lemma method_okI:
  assumes "\<And>ob s a. stateObjects s a = Some ob \<Longrightarrow> \<not> deleted ob \<Longrightarrow> obj_ok E (strie s) a ob \<Longrightarrow>
     runs E a ob s (f ob s)"
  shows "method_ok E f"
  using assms unfolding method_ok_def by blast

lemma on_object_ext:
  assumes "crypto_ok E" "sdb_ok E s" "method_ok E f"
  shows "ext E s (on_object E a f s)"
proof -
  obtain ob s1 where g: "GetOrNewStateObject E a s = (ob, s1)" by fastforce
  note g1 = GetOrNewStateObject_ext [OF assms(1,2) g]
  then obtain o2 D js where f: "f ob s1 = (o2, s1\<lparr>journal := journal s1 @ js, stateObjectsDirty := D\<rparr>)"
    and o2: "obj_ok E (strie s1) a o2" "\<not> deleted o2" "\<forall>ch\<in>set js. entry_ok E (strie s1) ch"
    and u: "\<And>v. vw_accts v a = Some (obj_view E (db s1) o2) \<Longrightarrow>
      aundo_all E (db s1) (rev js) v = Some (v\<lparr>vw_accts := (vw_accts v)(a \<mapsto> obj_view E (db s1) ob)\<rparr>)"
    using assms(3) unfolding method_ok_def runs_def by blast
  define s2 where "s2 = s1\<lparr>journal := journal s1 @ js, stateObjectsDirty := D\<rparr>"
  have e: "on_object E a f s = setStateObject o2 s2" using g f by (simp add: on_object_def s2_def)
  have a: "obj_address o2 = a" using o2 by (simp add: obj_ok_def)
  have l: "lookup E s1 a = Some ob" using g1 by (simp add: lookup_eq)
  have v2: "view E (setStateObject o2 s2) = (view E s1)\<lparr>vw_accts := (vw_accts (view E s1))(a \<mapsto> obj_view E (db s1) o2)\<rparr>"
    using view_cong [of s2 s1 E] o2 a by (simp add: view_setStateObject s2_def)
  have "(vw_accts (view E s1))(a \<mapsto> obj_view E (db s1) ob) = vw_accts (view E s1)"
    using l by (intro fun_upd_idem) (simp add: vw_accts_view)
  then have un: "aundo_all E (db s1) (rev js) (view E (setStateObject o2 s2)) = Some (view E s1)"
    by (subst u) (simp_all add: v2)
  have "objs_ok E (setStateObject o2 s2)"
    by (rule objs_ok_set [of E s1 o2]) (use g1 o2 a in \<open>auto simp: s2_def setStateObject_def ext_def sdb_ok_def objs_ok_def\<close>)
  then have "ext E s1 (setStateObject o2 s2)"
    by (intro ext_update [where js = js]) (use g1 un o2 in \<open>auto simp: s2_def setStateObject_def ext_def\<close>)
  then show ?thesis using e g1 ext_trans by metis
qed

lemma view_upd_same: "vw_accts v a = Some x \<Longrightarrow> (v :: view)\<lparr>vw_accts := (vw_accts v)(a \<mapsto> x)\<rparr> = v"
  by (simp add: fun_upd_idem)

lemma method_ok_single:
  assumes "\<And>ob s a. stateObjects s a = Some ob \<Longrightarrow> \<not> deleted ob \<Longrightarrow> obj_ok E (strie s) a ob \<Longrightarrow>
     \<exists>o' ch g. f ob s = fireDirty o' (append_journal ch s) \<and> obj_ok E (strie s) a o' \<and> \<not> deleted o' \<and>
       entry_ok E (strie s) ch \<and> (\<forall>v. aundo E (db s) ch v = aundo_on a g v) \<and>
       g (obj_view E (db s) o') = obj_view E (db s) ob"
  shows "method_ok E f"
proof (rule method_okI)
  fix ob :: stateObject and s :: stateDB and a
  assume "stateObjects s a = Some ob" "\<not> deleted ob" "obj_ok E (strie s) a ob"
  from assms [OF this] obtain o' ch g where f: "f ob s = fireDirty o' (append_journal ch s)"
    and o: "obj_ok E (strie s) a o'" "\<not> deleted o'" "entry_ok E (strie s) ch"
    "\<forall>v. aundo E (db s) ch v = aundo_on a g v" "g (obj_view E (db s) o') = obj_view E (db s) ob" by blast
  obtain x D where d: "fireDirty o' (append_journal ch s) = (o'\<lparr>onDirty := x\<rparr>, (append_journal ch s)\<lparr>stateObjectsDirty := D\<rparr>)"
    using fireDirty_cases by blast
  show "runs E a ob s (f ob s)" unfolding runs_def
    by (rule exI [of _ "o'\<lparr>onDirty := x\<rparr>"], rule exI [of _ D], rule exI [of _ "[ch]"])
      (use f d o in \<open>auto simp: append_journal_def aundo_on_def\<close>)
qed

lemma method_ok_SetBalance: "method_ok E (so_SetBalance b)"
proof (rule method_ok_single)
  fix ob :: stateObject and s :: stateDB and a
  assume "\<not> deleted ob" "obj_ok E (strie s) a ob"
  then show "\<exists>o' ch g. so_SetBalance b ob s = fireDirty o' (append_journal ch s) \<and> obj_ok E (strie s) a o' \<and> \<not> deleted o' \<and>
       entry_ok E (strie s) ch \<and> (\<forall>v. aundo E (db s) ch v = aundo_on a g v) \<and>
       g (obj_view E (db s) o') = obj_view E (db s) ob"
    by (intro exI [of _ "ob\<lparr>data := (data ob)\<lparr>Balance := b\<rparr>\<rparr>"] exI [of _ "BalanceChange a (Balance (data ob))"]
        exI [of _ "\<lambda>x. x\<lparr>av_balance := Balance (data ob)\<rparr>"])
      (auto simp: so_SetBalance_def so_setBalance_def obj_ok_def entry_ok_def intro!: aview_eqI simp: obj_view_sel)
qed

lemma method_ok_SetNonce: "method_ok E (so_SetNonce n)"
proof (rule method_ok_single)
  fix ob :: stateObject and s :: stateDB and a
  assume "\<not> deleted ob" "obj_ok E (strie s) a ob"
  then show "\<exists>o' ch g. so_SetNonce n ob s = fireDirty o' (append_journal ch s) \<and> obj_ok E (strie s) a o' \<and> \<not> deleted o' \<and>
       entry_ok E (strie s) ch \<and> (\<forall>v. aundo E (db s) ch v = aundo_on a g v) \<and>
       g (obj_view E (db s) o') = obj_view E (db s) ob"
    by (intro exI [of _ "ob\<lparr>data := (data ob)\<lparr>Nonce := n\<rparr>\<rparr>"] exI [of _ "NonceChange a (Nonce (data ob))"]
        exI [of _ "\<lambda>x. x\<lparr>av_nonce := Nonce (data ob)\<rparr>"])
      (auto simp: so_SetNonce_def so_setNonce_def obj_ok_def entry_ok_def intro!: aview_eqI simp: obj_view_sel)
qed

lemma method_ok_SetState: "method_ok E (so_SetState E k w)"
proof (rule method_ok_single)
  fix ob :: stateObject and s :: stateDB and a
  assume a: "\<not> deleted ob" "obj_ok E (strie s) a ob"
  let ?p = "obj_storage E (db s) ob k" and ?o = "snd (so_GetState E (db s) k ob)"
  show "\<exists>o' ch g. so_SetState E k w ob s = fireDirty o' (append_journal ch s) \<and> obj_ok E (strie s) a o' \<and> \<not> deleted o' \<and>
       entry_ok E (strie s) ch \<and> (\<forall>v. aundo E (db s) ch v = aundo_on a g v) \<and>
       g (obj_view E (db s) o') = obj_view E (db s) ob"
    by (intro exI [of _ "?o\<lparr>cachedStorage := (cachedStorage ?o)(k \<mapsto> w), dirtyStorage := (dirtyStorage ?o)(k \<mapsto> w)\<rparr>"]
        exI [of _ "StorageChange a k ?p"] exI [of _ "\<lambda>x. x\<lparr>av_storage := (av_storage x)(k := ?p)\<rparr>"])
      (use a in \<open>auto simp: so_SetState_def so_setState_def split_beta fst_so_GetState obj_ok_def entry_ok_def so_GetState_view
        obj_view_sel so_GetState_storage intro!: aview_eqI\<close>)
qed

lemma method_ok_SetCode: "method_ok E (so_SetCode E h c)"
proof (rule method_ok_single)
  fix ob :: stateObject and s :: stateDB and a
  assume a: "\<not> deleted ob" "obj_ok E (strie s) a ob"
  let ?p = "fst (so_Code E (db s) ob)" and ?o = "snd (so_Code E (db s) ob)"
  have h: "hash_bytes (BytesToHash (CodeHash (data ob))) = CodeHash (data ob)"
    using a by (simp add: obj_ok_def hash_bytes_BytesToHash)
  have v: "obj_view E (db s) (?o\<lparr>code := c, data := (data ob)\<lparr>CodeHash := hash_bytes h\<rparr>, dirtyCode := True\<rparr>) =
      (obj_view E (db s) ob)\<lparr>av_codehash := hash_bytes h, av_code := code_at E (db s) c (hash_bytes h)\<rparr>"
    using obj_view_simps(8) [where ob = ?o and c = c and h = "hash_bytes h" and x = True] by (simp add: so_Code_view)
  show "\<exists>o' ch g. so_SetCode E h c ob s = fireDirty o' (append_journal ch s) \<and> obj_ok E (strie s) a o' \<and> \<not> deleted o' \<and>
       entry_ok E (strie s) ch \<and> (\<forall>v. aundo E (db s) ch v = aundo_on a g v) \<and>
       g (obj_view E (db s) o') = obj_view E (db s) ob"
    by (intro exI [of _ "?o\<lparr>code := c, data := (data ?o)\<lparr>CodeHash := hash_bytes h\<rparr>, dirtyCode := True\<rparr>"]
        exI [of _ "CodeChange a ?p (CodeHash (data ob))"]
        exI [of _ "\<lambda>x. x\<lparr>av_codehash := hash_bytes (BytesToHash (CodeHash (data ob))),
          av_code := code_at E (db s) ?p (hash_bytes (BytesToHash (CodeHash (data ob))))\<rparr>"])
      (use a h v in \<open>auto simp: so_SetCode_def so_setCode_def obj_ok_def entry_ok_def so_Code_view split_beta
        obj_view_sel code_at_so_Code intro!: aview_eqI\<close>)
qed

lemma method_ok_touch: "method_ok E touch"
proof (rule method_okI)
  fix ob :: stateObject and s :: stateDB and a
  assume a: "\<not> deleted ob" "obj_ok E (strie s) a ob"
  let ?ch = "TouchChange a (touched ob) (\<not> onDirty ob)"
  obtain x D where d: "fireDirty ob (append_journal ?ch s) = (ob\<lparr>onDirty := x\<rparr>, (append_journal ?ch s)\<lparr>stateObjectsDirty := D\<rparr>)"
    using fireDirty_cases by blast
  show "runs E a ob s (touch ob s)" unfolding runs_def
    by (rule exI [of _ "ob\<lparr>onDirty := x, touched := True\<rparr>"], rule exI [of _ D], rule exI [of _ "[?ch]"])
      (use a d in \<open>auto simp: touch_def append_journal_def aundo_on_def obj_ok_def entry_ok_def view_upd_same\<close>)
qed

lemma method_ok_skip: "method_ok E (\<lambda>ob s. (ob, s))"
proof (rule method_okI)
  fix ob :: stateObject and s :: stateDB and a
  assume a: "\<not> deleted ob" "obj_ok E (strie s) a ob"
  show "runs E a ob s (ob, s)" unfolding runs_def
    by (rule exI [of _ ob], rule exI [of _ "stateObjectsDirty s"], rule exI [of _ "[]"])
      (use a in \<open>auto simp: view_upd_same\<close>)
qed

lemma method_ok_SubBalance: "method_ok E (so_SubBalance b)"
  by (rule method_okI, cases "big_Sign b = 0")
    (use method_ok_skip method_ok_SetBalance in \<open>auto simp: so_SubBalance_def method_ok_def\<close>)

lemma method_ok_AddBalance: "method_ok E (so_AddBalance E b)"
  by (rule method_okI)
    (use method_ok_skip method_ok_touch method_ok_SetBalance in \<open>auto simp: so_AddBalance_def method_ok_def\<close>)

lemmas methods_ok = method_ok_SetBalance method_ok_SetNonce method_ok_SetState method_ok_SetCode
  method_ok_SubBalance method_ok_AddBalance

lemma ext_setters:
  assumes "crypto_ok E" "sdb_ok E s"
  shows "ext E s (AddBalance E a b s)" "ext E s (SubBalance E a b s)" "ext E s (SetBalance E a b s)"
    "ext E s (SetNonce E a n s)" "ext E s (SetCode E a c s)" "ext E s (SetState E a k w s)"
  unfolding AddBalance_def SubBalance_def SetBalance_def SetNonce_def SetCode_def SetState_def
  by (rule on_object_ext [OF assms], rule methods_ok)+

lemma ext_view_upd:
  assumes "sdb_ok E s" and "s' = s\<lparr>journal := journal s @ [ch], refund := r, logs := l, preimages := p\<rparr>"
    and "entry_ok E (strie s) ch" and "aundo E (db s) ch (view E s') = Some (view E s)"
  shows "ext E s s'"
proof (rule ext_update [OF assms(1), where js = "[ch]"])
  show "objs_ok E s'" using assms(1,2) by (auto simp: sdb_ok_def intro: objs_ok_cong)
       (rule objs_ok_cong [of E s], auto simp: objs_ok_def)
qed (use assms in auto)

lemma view_no_accts:
  "view E (s\<lparr>journal := j, refund := r, logs := l, preimages := p\<rparr>) =
     (view E s)\<lparr>vw_refund := r, vw_logs := (\<lambda>h. case l h of None \<Rightarrow> [] | Some x \<Rightarrow> x), vw_preimages := p\<rparr>"
  by (simp add: view_def GetLogs_def lookup_cong [of "s\<lparr>journal := j, refund := r, logs := l, preimages := p\<rparr>" s])

lemma ext_AddRefund: "sdb_ok E s \<Longrightarrow> ext E s (AddRefund g s)"
proof (rule ext_view_upd [where ch = "RefundChange (refund s)"])
  show "AddRefund g s = s\<lparr>journal := journal s @ [RefundChange (refund s)], refund := refund s + g, logs := logs s,
    preimages := preimages s\<rparr>"
    by (simp add: AddRefund_def append_journal_def)
  then show "aundo E (db s) (RefundChange (refund s)) (view E (AddRefund g s)) = Some (view E s)"
    by (simp only: view_no_accts aundo.simps) (simp add: view_def GetLogs_def)
qed (auto simp: entry_ok_def)

lemma ext_AddPreimage: "sdb_ok E s \<Longrightarrow> ext E s (AddPreimage h p s)"
proof (cases "preimages s h")
  case None
  assume ok: "sdb_ok E s"
  have e: "AddPreimage h p s = s\<lparr>journal := journal s @ [AddPreimageChange h], refund := refund s, logs := logs s,
      preimages := (preimages s)(h \<mapsto> p)\<rparr>"
    using None by (simp add: AddPreimage_def append_journal_def)
  have "(preimages s)(h := None) = preimages s" using None by (rule fun_upd_idem)
  then have "aundo E (db s) (AddPreimageChange h) (view E (AddPreimage h p s)) = Some (view E s)"
    by (simp only: e view_no_accts aundo.simps) (simp add: view_def GetLogs_def)
  with ext_view_upd [OF ok e] show ?thesis by (simp add: entry_ok_def)
qed (simp add: AddPreimage_def ext_refl)

lemma ext_AddLog:
  assumes "sdb_ok E s"
  shows "ext E (s\<lparr>logSize := Suc (logSize s)\<rparr>) (AddLog l s)"
proof -
  let ?s = "s\<lparr>logSize := Suc (logSize s)\<rparr>"
  define l1 where "l1 = l\<lparr>log_txhash := thash s, log_bhash := bhash s, log_txindex := txIndex s, log_index := logSize s\<rparr>"
  have e: "AddLog l s = ?s\<lparr>journal := journal ?s @ [AddLogChange (thash s)], refund := refund ?s,
      logs := (logs ?s)(thash s \<mapsto> GetLogs (thash s) ?s @ [l1]), preimages := preimages ?s\<rparr>"
    by (simp add: AddLog_def append_journal_def Let_def GetLogs_def l1_def)
  have "(\<lambda>h. case ((logs ?s)(thash s \<mapsto> GetLogs (thash s) ?s @ [l1])) h of None \<Rightarrow> [] | Some x \<Rightarrow> x) =
      (\<lambda>h. GetLogs h s)(thash s := GetLogs (thash s) s @ [l1])"
    by (auto simp: GetLogs_def fun_eq_iff)
  then have "aundo E (db s) (AddLogChange (thash s)) (view E (AddLog l s)) = Some (view E ?s)"
    unfolding e view_no_accts by (simp add: view_def fun_upd_idem GetLogs_def lookup_cong [of ?s s])
  moreover have "sdb_ok E ?s" using assms by (simp add: sdb_ok_def revs_ok_def objs_ok_def)
  ultimately show ?thesis using ext_view_upd [OF _ e] by (simp add: entry_ok_def)
qed

lemma fresh_balance [simp]: "(fresh_view E)\<lparr>av_balance := 0\<rparr> = fresh_view E"
  by (simp add: fresh_view_def)

lemma new_view: "obj_view E d (newObject E a 0 None 0 None True) = fresh_view E"
  by (simp add: obj_view_def newObject_def fresh_view_def code_at_def obj_storage_def trie_of_def NewSecure_def
      slot_def SecureTrie_Get_def fun_eq_iff)

lemma Suicide_ext:
  assumes "sdb_ok E s"
  shows "ext E s (snd (Suicide E a s)) \<and> view E (snd (Suicide E a s)) = vSuicide a (view E s)"
proof -
  obtain r s1 where g: "getStateObject E a s = (r, s1)" by fastforce
  note g1 = getStateObject_ext [OF assms g]
  show ?thesis
  proof (cases r)
    case None
    then show ?thesis using g g1 by (auto simp: Suicide_def vSuicide_def vw_accts_view)
  next
    case (Some ob)
    let ?ch = "SuicideChange a (suicided ob) (Balance (data ob))"
    obtain x D where d: "fireDirty (ob\<lparr>suicided := True\<rparr>) (append_journal ?ch s1) =
        (ob\<lparr>suicided := True, onDirty := x\<rparr>, (append_journal ?ch s1)\<lparr>stateObjectsDirty := D\<rparr>)"
      using fireDirty_cases by blast
    define o2 where "o2 = ob\<lparr>suicided := True, onDirty := x, data := (data ob)\<lparr>Balance := 0\<rparr>\<rparr>"
    define s2 where "s2 = s1\<lparr>journal := journal s1 @ [?ch], stateObjectsDirty := D,
        stateObjectsDestructed := insert a (stateObjectsDestructed s1)\<rparr>"
    have e: "snd (Suicide E a s) = setStateObject o2 s2"
      using g Some d by (simp add: Suicide_def markSuicided_def o2_def s2_def setStateObject_def append_journal_def Let_def)
    have ob: "stateObjects s1 a = Some ob" "\<not> deleted ob" "obj_ok E (strie s1) a ob" "lookup E s1 a = Some ob"
      using g1 Some by auto
    have o2: "\<not> deleted o2" "obj_address o2 = a" "obj_ok E (strie s1) a o2"
      using ob by (auto simp: o2_def obj_ok_def)
    have vo: "obj_view E (db s1) o2 = (obj_view E (db s1) ob)\<lparr>av_suicided := True, av_balance := 0\<rparr>"
      using obj_view_simps(1) [where ob = "ob\<lparr>suicided := True, onDirty := x\<rparr>" and b = 0]
        obj_view_simps(3) [where ob = "ob\<lparr>suicided := True\<rparr>" and x = x] by (simp add: o2_def)
    have v2: "view E (setStateObject o2 s2) = (view E s1)\<lparr>vw_accts := (vw_accts (view E s1))(a \<mapsto> obj_view E (db s1) o2)\<rparr>"
      using view_cong [of s2 s1 E] o2 by (simp add: view_setStateObject s2_def)
    have "(obj_view E (db s1) o2)\<lparr>av_suicided := suicided ob, av_balance := Balance (data ob)\<rparr> = obj_view E (db s1) ob"
      unfolding vo by (rule aview_eqI) (simp_all add: obj_view_sel)
    then have un: "aundo E (db s1) ?ch (view E (setStateObject o2 s2)) = Some (view E s1)"
      using ob(4) by (simp add: v2 view_upd_same vw_accts_view)
    have "objs_ok E (setStateObject o2 s2)"
      by (rule objs_ok_set [of E s1 o2]) (use g1 o2 in \<open>auto simp: s2_def setStateObject_def ext_def sdb_ok_def objs_ok_def\<close>)
    then have "ext E s1 (setStateObject o2 s2)"
      by (intro ext_update [where js = "[?ch]"]) (use g1 un in \<open>auto simp: s2_def setStateObject_def ext_def entry_ok_def\<close>)
    then have "ext E s (snd (Suicide E a s))" using e g1 ext_trans by metis
    moreover have "lookup E s a = Some ob" "db s1 = db s" using g1 Some by (auto simp: frame_def)
    then have "view E (snd (Suicide E a s)) = vSuicide a (view E s)"
      using g1 vo by (simp add: e v2 vSuicide_def vw_accts_view)
    ultimately show ?thesis ..
  qed
qed

lemma CreateAccount_ext:
  assumes "crypto_ok E" "sdb_ok E s"
  shows "ext E s (CreateAccount E a s) \<and> view E (CreateAccount E a s) = vCreateAccount E a (view E s)"
proof -
  obtain ob prev s1 where c: "createObject E a s = ((ob, prev), s1)" by (metis surj_pair)
  note c1 = createObject_ext [OF assms c]
  show ?thesis
  proof (cases prev)
    case None
    then show ?thesis using c c1
      by (simp add: CreateAccount_def vCreateAccount_def vw_accts_view new_view cong: option.case_cong)
  next
    case (Some p)
    let ?o = "ob\<lparr>data := (data ob)\<lparr>Balance := Balance (data p)\<rparr>\<rparr>"
    obtain x D where d: "fireDirty ?o s1 = (?o\<lparr>onDirty := x\<rparr>, s1\<lparr>stateObjectsDirty := D\<rparr>)"
      using fireDirty_cases by blast
    let ?s = "setStateObject (?o\<lparr>onDirty := x\<rparr>) (s1\<lparr>stateObjectsDirty := D\<rparr>)"
    have e: "CreateAccount E a s = ?s" using c Some d by (simp add: CreateAccount_def so_setBalance_def)
    have o: "obj_ok E (strie s1) a (?o\<lparr>onDirty := x\<rparr>)" "\<not> deleted ob" "obj_address ob = a"
      using c1 by (auto simp: obj_ok_def)
    have v: "view E ?s = (view E s)\<lparr>vw_accts := (vw_accts (view E s))(a \<mapsto> obj_view E (db s) (?o\<lparr>onDirty := x\<rparr>))\<rparr>"
      using c1 o view_cong [of "s1\<lparr>stateObjectsDirty := D\<rparr>" s1 E]
      by (simp add: view_setStateObject ext_def)
    have p: "lookup E s a = Some p" "obj_address p = a" "entry_ok E (strie s1) (ResetObjectChange p)"
    proof -
      show l: "lookup E s a = Some p" using c1 Some by simp
      have "entry_ok E (strie s1) (ResetObjectChange p)" using c1 Some by (auto simp: ext_def sdb_ok_def)
      then show "entry_ok E (strie s1) (ResetObjectChange p)" .
      show "obj_address p = a" using getStateObject_ext [OF assms(2), of a] l
        by (cases "getStateObject E a s") (auto simp: obj_ok_def)
    qed
    have "aundo E (db s) (ResetObjectChange p) (view E ?s) = Some (view E s)"
      using p(1,2) by (simp add: v view_upd_same vw_accts_view)
    moreover have "objs_ok E ?s"
      by (rule objs_ok_set [of E s1 "?o\<lparr>onDirty := x\<rparr>"])
        (use c1 o in \<open>auto simp: setStateObject_def ext_def sdb_ok_def objs_ok_def\<close>)
    ultimately have "ext E s ?s"
      by (intro ext_update [where js = "[ResetObjectChange p]"])
        (use assms c1 Some p in \<open>auto simp: setStateObject_def ext_def\<close>)
    moreover have "obj_view E (db s) (?o\<lparr>onDirty := x\<rparr>) = (fresh_view E)\<lparr>av_balance := av_balance (obj_view E (db s) p)\<rparr>"
      using c1 obj_view_simps(3) [where ob = ?o and x = x] obj_view_simps(1) [where ob = ob and b = "Balance (data p)"]
      by (simp add: new_view obj_view_sel)
    then have "view E ?s = vCreateAccount E a (view E s)"
      using p(1) by (simp add: v vCreateAccount_def vw_accts_view)
    ultimately show ?thesis unfolding e ..
  qed
qed

section \<open>Getters only load\<close>

lemma writeback:
  assumes "objs_ok E s" and "stateObjects s a = Some ob" and "\<not> deleted ob"
    and "obj_view E (db s) o2 = obj_view E (db s) ob" and "obj_ok E (strie s) a o2" and "\<not> deleted o2"
    and "s' = (setStateObject o2 s)\<lparr>codeSizeCache := c\<rparr>" and "lru_ok c"
  shows "objs_ok E s' \<and> frame s s' \<and> view E s' = view E s"
proof -
  have "objs_ok E s'"
    by (rule objs_ok_set [OF assms(1), of o2]) (use assms in \<open>auto simp: setStateObject_def obj_ok_def\<close>)
  moreover have "view E s' = view E s"
    using assms view_setStateObject [of o2 E s] view_cong [of s' "setStateObject o2 s" E] lookup_live [OF assms(2,3)]
    by (simp add: vw_accts_view fun_upd_idem obj_ok_def)
  ultimately show ?thesis using assms(7) by (simp add: frame_def setStateObject_def)
qed

lemma so_Code_ok: "obj_ok E t a ob \<Longrightarrow> obj_ok E t a (snd (so_Code E d ob))"
  by (simp add: obj_ok_def)

lemma so_GetState_ok: "obj_ok E t a ob \<Longrightarrow> obj_ok E t a (snd (so_GetState E d k ob))"
  by (simp add: obj_ok_def)

lemma GetState_loads:
  assumes "objs_ok E s" and "GetState E a k s = (v, s')"
  shows "objs_ok E s' \<and> frame s s' \<and> view E s' = view E s \<and>
    v = (case vw_accts (view E s) a of None \<Rightarrow> 0 | Some x \<Rightarrow> av_storage x k)"
proof -
  obtain r s1 where g: "getStateObject E a s = (r, s1)" by fastforce
  note g1 = getStateObject_objs [OF assms(1) g]
  show ?thesis
  proof (cases r)
    case None
    then show ?thesis using g g1 assms(2) by (simp add: GetState_def vw_accts_view)
  next
    case (Some ob)
    have d: "db s1 = db s" using g1 by (simp add: frame_def)
    have v: "vw_accts (view E s) a = Some (obj_view E (db s) ob)" using g1 Some by (auto simp: vw_accts_view)
    have e: "s' = (setStateObject (snd (so_GetState E (db s1) k ob)) s1)\<lparr>codeSizeCache := codeSizeCache s1\<rparr>"
      "v = obj_storage E (db s1) ob k"
      using g Some assms(2) fst_so_GetState [of E "db s1" k ob]
      by (auto simp: GetState_def setStateObject_def split_beta)
    have "objs_ok E s' \<and> frame s1 s' \<and> view E s' = view E s1"
      using g1 Some by (intro writeback [OF _ _ _ so_GetState_view so_GetState_ok _ e(1)]) (auto simp: objs_ok_def)
    then show ?thesis using g1 Some e(2) d v frame_trans [of s s1 s'] by (auto simp: obj_view_sel)
  qed
qed

lemma GetCode_loads:
  assumes "objs_ok E s" and "GetCode E a s = (c, s')"
  shows "objs_ok E s' \<and> frame s s' \<and> view E s' = view E s \<and>
    bytes_of c = (case vw_accts (view E s) a of None \<Rightarrow> [] | Some x \<Rightarrow> av_code x)"
proof -
  obtain r s1 where g: "getStateObject E a s = (r, s1)" by fastforce
  note g1 = getStateObject_objs [OF assms(1) g]
  show ?thesis
  proof (cases r)
    case None
    then show ?thesis using g g1 assms(2) by (simp add: GetCode_def vw_accts_view)
  next
    case (Some ob)
    have d: "db s1 = db s" using g1 by (simp add: frame_def)
    have v: "vw_accts (view E s) a = Some (obj_view E (db s) ob)" using g1 Some by (auto simp: vw_accts_view)
    let ?o = "snd (so_Code E (db s1) ob)"
    obtain lr where e: "s' = (setStateObject ?o s1)\<lparr>codeSizeCache := lr\<rparr>" "lru_ok lr"
      using g Some assms(2) g1 by (auto simp: GetCode_def Let_def objs_ok_def setStateObject_def lru_ok_Add split_beta)
    have c: "bytes_of c = code_at E (db s1) (code ob) (CodeHash (data ob))"
      using g Some assms(2) fst_so_Code [of E "db s1" ob] by (auto simp: GetCode_def Let_def split_beta)
    have "objs_ok E s' \<and> frame s1 s' \<and> view E s' = view E s1"
      using g1 Some e(2) by (intro writeback [OF _ _ _ so_Code_view so_Code_ok _ e(1)]) auto
    then show ?thesis using g1 Some c d v frame_trans [of s s1 s'] by (auto simp: obj_view_sel)
  qed
qed

lemma GetCodeSize_loads:
  assumes "objs_ok E s" and "GetCodeSize E a s = (n, s')"
  shows "objs_ok E s' \<and> frame s s' \<and> view E s' = view E s"
proof -
  obtain r s1 where g: "getStateObject E a s = (r, s1)" by fastforce
  note g1 = getStateObject_objs [OF assms(1) g]
  show ?thesis
  proof (cases r)
    case None
    then show ?thesis using g g1 assms(2) by (simp add: GetCodeSize_def)
  next
    case (Some ob)
    let ?key = "BytesToHash (CodeHash (data ob))"
    obtain cached lr where l: "lru_Get ?key (codeSizeCache s1) = (cached, lr)" by fastforce
    have lr: "lru_ok lr" using g1 lru_ok_Get [of "codeSizeCache s1" ?key] l by (simp add: objs_ok_def)
    show ?thesis
    proof (cases cached)
      case None
      let ?o = "snd (so_Code E (db s1) ob)"
      define lr2 where "lr2 = (if dbErr ?o = None
        then snd (lru_Add ?key (length (bytes_of (fst (so_Code E (db s1) ob)))) lr) else lr)"
      have e: "s' = (setStateObject ?o s1)\<lparr>codeSizeCache := lr2\<rparr>"
        using g Some assms(2) l None by (auto simp: GetCodeSize_def Let_def setStateObject_def split_beta lr2_def)
      have "lru_ok lr2" using lr by (simp add: lr2_def lru_ok_Add)
      have "objs_ok E s' \<and> frame s1 s' \<and> view E s' = view E s1"
        using g1 Some \<open>lru_ok lr2\<close> by (intro writeback [OF _ _ _ so_Code_view so_Code_ok _ e]) auto
      then show ?thesis using g1 frame_trans [of s s1 s'] by auto
    next
      case (Some m)
      then have s': "s' = s1\<lparr>codeSizeCache := lr\<rparr>"
        using g \<open>r = Some ob\<close> assms(2) l by (auto simp: GetCodeSize_def Let_def)
      have "objs_ok E s'" using g1 lr s' by (auto intro: objs_ok_cong)
      then show ?thesis using g1 s' view_cong [of s' s1 E] by (auto simp: frame_def)
    qed
  qed
qed

section \<open>Undoing refines undoing on views\<close>

definition refines :: "crypto \<Rightarrow> stateDB \<Rightarrow> stateDB option \<Rightarrow> view option \<Rightarrow> bool" where
  "refines E s r av \<longleftrightarrow>
     (case r of None \<Rightarrow> av = None | Some s' \<Rightarrow> av = Some (view E s') \<and> objs_ok E s' \<and> frame s s')"

lemma refines_Some:
  "objs_ok E s' \<Longrightarrow> frame s s' \<Longrightarrow> view E s' = v \<Longrightarrow> refines E s (Some s') (Some v)"
  by (simp add: refines_def)

lemma set_object_refines:
  assumes "objs_ok E s" and "obj_ok E (strie s) a o2" and "\<not> deleted o2"
    and "s' = setStateObject o2 (s\<lparr>stateObjectsDirty := D, stateObjectsDestructed := D'\<rparr>)"
  shows "refines E s (Some s') (Some ((view E s)\<lparr>vw_accts := (vw_accts (view E s))(a \<mapsto> obj_view E (db s) o2)\<rparr>))"
proof (rule refines_Some)
  show "objs_ok E s'"
    by (rule objs_ok_set [OF assms(1), of o2]) (use assms in \<open>auto simp: setStateObject_def obj_ok_def objs_ok_def\<close>)
  show "frame s s'" by (simp add: frame_def assms(4) setStateObject_def)
  have "view E (s\<lparr>stateObjectsDirty := D, stateObjectsDestructed := D'\<rparr>) = view E s" by (rule view_cong) simp_all
  then show "view E s' = (view E s)\<lparr>vw_accts := (vw_accts (view E s))(a \<mapsto> obj_view E (db s) o2)\<rparr>"
    using assms(2,3) by (simp add: assms(4) view_setStateObject obj_ok_def)
qed

lemma refines_frame:
  "refines E s1 r av \<Longrightarrow> frame s s1 \<Longrightarrow> refines E s r av"
  by (auto simp: refines_def intro: frame_trans split: option.splits)

lemma undo_on_refines:
  assumes "objs_ok E s"
    and f: "\<And>ob s1. frame s s1 \<Longrightarrow> obj_ok E (strie s) a ob \<Longrightarrow> \<not> deleted ob \<Longrightarrow>
      \<exists>o2 D. f ob s1 = (o2, s1\<lparr>stateObjectsDirty := D\<rparr>) \<and> obj_ok E (strie s) a o2 \<and> \<not> deleted o2 \<and>
        obj_view E (db s) o2 = g (obj_view E (db s) ob)"
  shows "refines E s (undo_on E a f s) (aundo_on a g (view E s))"
proof -
  obtain r s1 where g: "getStateObject E a s = (r, s1)" by fastforce
  note g1 = getStateObject_objs [OF assms(1) g]
  show ?thesis
  proof (cases r)
    case None
    then show ?thesis using g g1 by (simp add: undo_on_def aundo_on_def refines_def vw_accts_view)
  next
    case (Some ob)
    have fr: "frame s s1" "db s1 = db s" "strie s1 = strie s" using g1 by (auto simp: frame_def)
    obtain o2 D where o2: "f ob s1 = (o2, s1\<lparr>stateObjectsDirty := D\<rparr>)" "obj_ok E (strie s) a o2" "\<not> deleted o2"
        "obj_view E (db s) o2 = g (obj_view E (db s) ob)"
      using f [OF fr(1), of ob] g1 Some fr(3) by auto
    have u: "undo_on E a f s = Some (setStateObject o2 (s1\<lparr>stateObjectsDirty := D, stateObjectsDestructed := stateObjectsDestructed s1\<rparr>))"
      using g Some o2(1) by (simp add: undo_on_def)
    have w: "aundo_on a g (view E s) = Some ((view E s1)\<lparr>vw_accts := (vw_accts (view E s1))(a \<mapsto> obj_view E (db s1) o2)\<rparr>)"
    proof -
      have "vw_accts (view E s) a = Some (obj_view E (db s) ob)" using g1 Some by (auto simp: vw_accts_view)
      then show ?thesis using g1 fr o2(4) by (simp add: aundo_on_def)
    qed
    have "refines E s1 (undo_on E a f s) (aundo_on a g (view E s))"
      unfolding u w by (rule set_object_refines [OF _ _ _ refl]) (use g1 fr o2 in auto)
    then show ?thesis using fr(1) by (rule refines_frame)
  qed
qed

lemma fire_method:
  assumes "f = (\<lambda>ob s. fireDirty (h ob) s)" and "obj_ok E t a (h ob)" and "\<not> deleted (h ob)"
    and "obj_view E d (h ob) = g (obj_view E d ob)"
  shows "\<exists>o2 D. f ob s1 = (o2, s1\<lparr>stateObjectsDirty := D\<rparr>) \<and> obj_ok E t a o2 \<and> \<not> deleted o2 \<and>
        obj_view E d o2 = g (obj_view E d ob)"
proof -
  obtain x D where "fireDirty (h ob) s1 = ((h ob)\<lparr>onDirty := x\<rparr>, s1\<lparr>stateObjectsDirty := D\<rparr>)"
    using fireDirty_cases by blast
  then show ?thesis using assms by auto
qed

lemma refines_dirty:
  "refines E s r av \<Longrightarrow> refines E s (map_option (\<lambda>s1. if b then s1\<lparr>stateObjectsDirty := D s1\<rparr> else s1) r) av"
proof (cases r)
  case (Some s1)
  assume "refines E s r av"
  with Some have r: "av = Some (view E s1)" "objs_ok E s1" "frame s s1" by (simp_all add: refines_def)
  have "view E (s1\<lparr>stateObjectsDirty := D s1\<rparr>) = view E s1" by (rule view_cong) simp_all
  moreover have "objs_ok E (s1\<lparr>stateObjectsDirty := D s1\<rparr>)" using r(2) by (simp add: objs_ok_def)
  ultimately show ?thesis using r Some by (simp add: refines_def frame_def)
qed (simp add: refines_def)

lemma undo_create:
  assumes "objs_ok E s" and "trie_account E (strie s) a = None"
  shows "refines E s (undo E (CreateObjectChange a) s) (aundo E (db s) (CreateObjectChange a) (view E s))"
proof -
  let ?s = "s\<lparr>stateObjects := (stateObjects s)(a := None), stateObjectsDirty := stateObjectsDirty s - {a}\<rparr>"
  have "lookup E ?s b = (if b = a then None else lookup E s b)" for b
    using assms(2) by (simp add: lookup_eq cong: option.case_cong)
  then have "view E ?s = (view E s)\<lparr>vw_accts := (vw_accts (view E s))(a := None)\<rparr>"
    by (simp add: view_def GetLogs_def fun_eq_iff)
  moreover have "objs_ok E ?s" using assms(1) by (auto simp: objs_ok_def)
  ultimately show ?thesis by (simp add: refines_def frame_def)
qed

lemma undo_suicide:
  assumes "objs_ok E s"
  shows "refines E s (undo E (SuicideChange a prev b) s) (aundo E (db s) (SuicideChange a prev b) (view E s))"
proof -
  obtain r s1 where g: "getStateObject E a s = (r, s1)" by fastforce
  note g1 = getStateObject_objs [OF assms(1) g]
  show ?thesis
  proof (cases r)
    case None
    then show ?thesis using g g1 by (simp add: refines_def vw_accts_view)
  next
    case (Some ob)
    have fr: "frame s s1" "db s1 = db s" "strie s1 = strie s" using g1 by (auto simp: frame_def)
    let ?o = "ob\<lparr>suicided := prev, data := (data ob)\<lparr>Balance := b\<rparr>\<rparr>"
    obtain x D where d: "fireDirty ?o s1 = (?o\<lparr>onDirty := x\<rparr>, s1\<lparr>stateObjectsDirty := D\<rparr>)"
      using fireDirty_cases by blast
    define D' where "D' = (if \<not> prev then stateObjectsDestructed s1 - {a} else stateObjectsDestructed s1)"
    have o: "obj_ok E (strie s1) a (?o\<lparr>onDirty := x\<rparr>)" "\<not> deleted ob" using g1 Some by (auto simp: obj_ok_def)
    have u: "undo E (SuicideChange a prev b) s =
        Some (setStateObject (?o\<lparr>onDirty := x\<rparr>) (s1\<lparr>stateObjectsDirty := D, stateObjectsDestructed := D'\<rparr>))"
      using g Some d by (simp add: so_setBalance_def setStateObject_def D'_def)
    have v: "vw_accts (view E s) a = Some (obj_view E (db s) ob)" using g1 Some by (simp add: vw_accts_view)
    have "obj_view E (db s) (?o\<lparr>onDirty := x\<rparr>) = (obj_view E (db s) ob)\<lparr>av_suicided := prev, av_balance := b\<rparr>"
      using obj_view_simps(1) [where ob = "ob\<lparr>suicided := prev\<rparr>" and b = b] by simp
    then have w: "aundo E (db s) (SuicideChange a prev b) (view E s) = Some ((view E s1)\<lparr>vw_accts :=
        (vw_accts (view E s1))(a \<mapsto> obj_view E (db s1) (?o\<lparr>onDirty := x\<rparr>))\<rparr>)"
      using v g1 fr by simp
    have "refines E s1 (undo E (SuicideChange a prev b) s) (aundo E (db s) (SuicideChange a prev b) (view E s))"
      unfolding u w by (rule set_object_refines [OF _ _ _ refl]) (use g1 o in auto)
    then show ?thesis using fr(1) by (rule refines_frame)
  qed
qed

lemma undo_plain:
  assumes "objs_ok E s"
  shows "refines E s (Some (s\<lparr>refund := r, logs := l, preimages := p\<rparr>))
    (Some ((view E s)\<lparr>vw_refund := r, vw_logs := (\<lambda>h. case l h of None \<Rightarrow> [] | Some x \<Rightarrow> x), vw_preimages := p\<rparr>))"
  using assms lookup_cong [of "s\<lparr>refund := r, logs := l, preimages := p\<rparr>" s E]
  by (auto simp: refines_def frame_def objs_ok_def view_def GetLogs_def)

lemma undo_log:
  assumes "objs_ok E s"
  shows "refines E s (undo E (AddLogChange h) s) (aundo E (db s) (AddLogChange h) (view E s))"
proof (cases "GetLogs h s = []")
  case True
  then show ?thesis by (simp add: refines_def view_def)
next
  case False
  define l where "l = (if length (GetLogs h s) = 1 then (logs s)(h := None) else (logs s)(h \<mapsto> butlast (GetLogs h s)))"
  have u: "undo E (AddLogChange h) s = Some (s\<lparr>refund := refund s, logs := l, preimages := preimages s\<rparr>)"
    using False by (simp add: l_def Let_def)
  have "butlast (GetLogs h s) = []" if "length (GetLogs h s) = 1" using that by (cases "GetLogs h s") auto
  then have "(\<lambda>k. case l k of None \<Rightarrow> [] | Some x \<Rightarrow> x) = (\<lambda>k. GetLogs k s)(h := butlast (GetLogs h s))"
    by (auto simp: l_def GetLogs_def fun_eq_iff)
  then have "aundo E (db s) (AddLogChange h) (view E s) = Some ((view E s)\<lparr>vw_refund := refund s,
      vw_logs := (\<lambda>k. case l k of None \<Rightarrow> [] | Some x \<Rightarrow> x), vw_preimages := preimages s\<rparr>)"
    using False by (simp add: view_def)
  then show ?thesis using u undo_plain [OF assms, where r = "refund s" and l = l and p = "preimages s"] by simp
qed

lemma undo_refines:
  assumes "objs_ok E s" and "entry_ok E (strie s) ch"
  shows "refines E s (undo E ch s) (aundo E (db s) ch (view E s))"
proof (cases ch)
  case (BalanceChange a b)
  then show ?thesis unfolding BalanceChange undo.simps aundo.simps
    by (intro undo_on_refines [OF assms(1)] fire_method [of _ "\<lambda>ob. ob\<lparr>data := (data ob)\<lparr>Balance := b\<rparr>\<rparr>"])
      (auto simp: so_setBalance_def obj_ok_def fun_eq_iff)
next
  case (NonceChange a n)
  then show ?thesis unfolding NonceChange undo.simps aundo.simps
    by (intro undo_on_refines [OF assms(1)] fire_method [of _ "\<lambda>ob. ob\<lparr>data := (data ob)\<lparr>Nonce := n\<rparr>\<rparr>"])
      (auto simp: so_setNonce_def obj_ok_def fun_eq_iff)
next
  case (StorageChange a k w)
  then show ?thesis unfolding StorageChange undo.simps aundo.simps
    by (intro undo_on_refines [OF assms(1)] fire_method [of _ "\<lambda>ob. ob\<lparr>cachedStorage := (cachedStorage ob)(k \<mapsto> w),
        dirtyStorage := (dirtyStorage ob)(k \<mapsto> w)\<rparr>"])
      (auto simp: so_setState_def obj_ok_def fun_eq_iff)
next
  case (CodeChange a c h)
  then show ?thesis unfolding CodeChange undo.simps aundo.simps
    by (intro undo_on_refines [OF assms(1)] fire_method [of _ "\<lambda>ob. ob\<lparr>code := c,
        data := (data ob)\<lparr>CodeHash := hash_bytes (BytesToHash h)\<rparr>, dirtyCode := True\<rparr>"])
      (auto simp: so_setCode_def obj_ok_def fun_eq_iff)
next
  case (TouchChange a prev prevDirty)
  have "refines E s (undo_on E a (\<lambda>ob s1. (ob\<lparr>touched := prev\<rparr>, s1)) s) (aundo_on a (\<lambda>x. x) (view E s))"
  proof (rule undo_on_refines [OF assms(1)])
    fix ob s1
    assume "obj_ok E (strie s) a ob" "\<not> deleted ob"
    then show "\<exists>o2 D. (ob\<lparr>touched := prev\<rparr>, s1) = (o2, s1\<lparr>stateObjectsDirty := D\<rparr>) \<and> obj_ok E (strie s) a o2 \<and>
        \<not> deleted o2 \<and> obj_view E (db s) o2 = obj_view E (db s) ob"
      by (intro exI [of _ "ob\<lparr>touched := prev\<rparr>"] exI [of _ "stateObjectsDirty s1"]) (simp add: obj_ok_def)
  qed
  then show ?thesis unfolding TouchChange
    using assms(1) refines_dirty by (auto simp: refines_def [of E s "Some s"])
next
  case (CreateObjectChange a)
  then show ?thesis using undo_create [OF assms(1)] assms(2) by (simp add: entry_ok_def)
next
  case (ResetObjectChange p)
  then show ?thesis using assms set_object_refines [where s = s and ?o2.0 = p and D = "stateObjectsDirty s" and D' = "stateObjectsDestructed s", OF _ _ _ refl]
    by (simp add: entry_ok_def)
next
  case (SuicideChange a prev b)
  then show ?thesis using undo_suicide [OF assms(1)] by simp
next
  case (RefundChange r)
  then show ?thesis using undo_plain [OF assms(1), where r = r and l = "logs s" and p = "preimages s"] by (simp add: view_def GetLogs_def)
next
  case (AddLogChange h)
  then show ?thesis using undo_log [OF assms(1)] by simp
next
  case (AddPreimageChange h)
  then show ?thesis using undo_plain [OF assms(1), where r = "refund s" and l = "logs s" and p = "(preimages s)(h := None)"]
    by (simp add: view_def GetLogs_def)
qed

lemma undo_all_refines:
  assumes "objs_ok E s" and "\<forall>ch\<in>set chs. entry_ok E (strie s) ch"
  shows "refines E s (undo_all E chs s) (aundo_all E (db s) chs (view E s))"
  using assms
proof (induction chs arbitrary: s)
  case Nil
  then show ?case by (simp add: refines_def)
next
  case (Cons ch chs)
  have r: "refines E s (undo E ch s) (aundo E (db s) ch (view E s))" using Cons.prems by (intro undo_refines) auto
  show ?case
  proof (cases "undo E ch s")
    case None
    then show ?thesis using r by (simp add: refines_def)
  next
    case (Some s1)
    then have s1: "aundo E (db s) ch (view E s) = Some (view E s1)" "objs_ok E s1" "frame s s1"
      using r by (simp_all add: refines_def)
    have "refines E s1 (undo_all E chs s1) (aundo_all E (db s1) chs (view E s1))"
      using s1 Cons.prems by (intro Cons.IH) (auto simp: frame_def)
    then have "refines E s (undo_all E chs s1) (aundo_all E (db s1) chs (view E s1))"
      using s1(3) by (rule refines_frame)
    then show ?thesis using Some s1 by (simp add: frame_def)
  qed
qed

section \<open>Reverting to a snapshot\<close>

lemma sort_Search_least:
  assumes "\<And>k l. i \<le> k \<Longrightarrow> k \<le> l \<Longrightarrow> l < j \<Longrightarrow> f k \<Longrightarrow> f l" and "i \<le> j"
  shows "i \<le> sort_Search f i j \<and> sort_Search f i j \<le> j \<and> (\<forall>k. i \<le> k \<longrightarrow> k < sort_Search f i j \<longrightarrow> \<not> f k) \<and>
    (sort_Search f i j < j \<longrightarrow> f (sort_Search f i j))"
  using assms
proof (induction f i j rule: sort_Search.induct)
  case (1 f i j)
  show ?case
  proof (cases "i < j")
    case False
    then have "sort_Search f i j = i" by (subst sort_Search.simps) simp
    then show ?thesis using False 1(4) by simp
  next
    case True
    define h where "h = i + (j - i) div 2"
    have h: "i \<le> h" "h < j" using True by (auto simp: h_def)
    show ?thesis
    proof (cases "f h")
      case True
      have e: "sort_Search f i j = sort_Search f i h"
        using True \<open>i < j\<close> by (simp add: sort_Search.simps [of f i j] h_def)
      have r: "i \<le> sort_Search f i h \<and> sort_Search f i h \<le> h \<and> (\<forall>k. i \<le> k \<longrightarrow> k < sort_Search f i h \<longrightarrow> \<not> f k) \<and>
          (sort_Search f i h < h \<longrightarrow> f (sort_Search f i h))"
      proof (rule "1.IH"(2) [OF \<open>i < j\<close> h_def])
        show "f l" if "i \<le> k" "k \<le> l" "l < h" "f k" for k l
          by (rule 1(3) [OF that(1,2) _ that(4)]) (use that h in linarith)
      qed (use True h in auto)
      then show ?thesis unfolding e using h True by (cases "sort_Search f i h = h") auto
    next
      case False
      have e: "sort_Search f i j = sort_Search f (Suc h) j"
        using False \<open>i < j\<close> by (simp add: sort_Search.simps [of f i j] h_def)
      have r: "Suc h \<le> sort_Search f (Suc h) j \<and> sort_Search f (Suc h) j \<le> j \<and>
          (\<forall>k. Suc h \<le> k \<longrightarrow> k < sort_Search f (Suc h) j \<longrightarrow> \<not> f k) \<and>
          (sort_Search f (Suc h) j < j \<longrightarrow> f (sort_Search f (Suc h) j))"
      proof (rule "1.IH"(1) [OF \<open>i < j\<close> h_def])
        show "f l" if "Suc h \<le> k" "k \<le> l" "l < j" "f k" for k l
          by (rule 1(3) [OF _ that(2,3,4)]) (use that h in linarith)
      qed (use False h in auto)
      moreover have "\<not> f k" if "i \<le> k" "k \<le> h" for k using 1(3) [OF that h(2)] False by blast
      moreover have "k \<le> h \<or> Suc h \<le> k" for k by linarith
      ultimately show ?thesis unfolding e using h by (meson Suc_leD order.trans)
    qed
  qed
qed

end
