(* ===== verification/State_Spec.thy ===== *)
theory State_Spec
  imports State_View
begin

text \<open>
  The specification of the account database as a machine over views with a stack of saved
  views, and the proof that \<open>StateDB\<close> implements it: one simulation lemma per group of operations,
  composed into a refinement of arbitrary operation sequences.
\<close>

section \<open>The effect of the setters on the view\<close>

lemma on_object_view:
  assumes "crypto_ok E" "sdb_ok E s" "method_ok E f"
    and "\<And>ob s. obj_ok E (strie s) a ob \<Longrightarrow> obj_view E (db s) (fst (f ob s)) = g (obj_view E (db s) ob)"
  shows "view E (on_object E a f s) = vupd E a g (view E s)"
proof -
  obtain ob s1 where o: "GetOrNewStateObject E a s = (ob, s1)" by fastforce
  note g1 = GetOrNewStateObject_ext [OF assms(1,2) o]
  then obtain o2 D js where f: "f ob s1 = (o2, s1\<lparr>journal := journal s1 @ js, stateObjectsDirty := D\<rparr>)"
    and o2: "obj_ok E (strie s1) a o2" "\<not> deleted o2"
    using assms(3) unfolding method_ok_def runs_def by blast
  define s2 where "s2 = s1\<lparr>journal := journal s1 @ js, stateObjectsDirty := D\<rparr>"
  have e: "on_object E a f s = setStateObject o2 s2" using o f by (simp add: on_object_def s2_def)
  have "obj_view E (db s1) o2 = g (obj_view E (db s1) ob)" using assms(4) [of s1 ob] g1 f by simp
  then show ?thesis using e o2 g1 view_cong [of s2 s1 E]
    by (simp add: view_setStateObject s2_def obj_ok_def vupd_def ext_def new_view cong: option.case_cong)
qed

lemma fireDirty_view [simp]: "obj_view E d (fst (fireDirty ob s)) = obj_view E d ob"
  using fireDirty_cases [of ob s] by auto

lemma SetBalance_view: "obj_view E d (fst (so_SetBalance b ob s)) = (obj_view E d ob)\<lparr>av_balance := b\<rparr>"
  by (simp add: so_SetBalance_def so_setBalance_def)

lemma touch_view: "obj_view E d (fst (touch ob s)) = obj_view E d ob"
  using fireDirty_view [of E d ob] by (simp add: touch_def split_beta Let_def)

lemma methods_view:
  "obj_view E d (fst (so_AddBalance E b ob s)) = (obj_view E d ob)\<lparr>av_balance := av_balance (obj_view E d ob) + b\<rparr>"
  "obj_view E d (fst (so_SubBalance b ob s)) = (obj_view E d ob)\<lparr>av_balance := av_balance (obj_view E d ob) - b\<rparr>"
  "obj_view E d (fst (so_SetNonce n ob s)) = (obj_view E d ob)\<lparr>av_nonce := n\<rparr>"
  by (auto simp: so_AddBalance_def so_SubBalance_def so_SetNonce_def so_setNonce_def SetBalance_view touch_view
      obj_view_sel big_Sign_def sgn_0_0 intro!: aview_eqI)

lemma SetState_view:
  "obj_view E (db s) (fst (so_SetState E k w ob s)) =
     (obj_view E (db s) ob)\<lparr>av_storage := (av_storage (obj_view E (db s) ob))(k := w)\<rparr>"
  using obj_view_simps(7) [where ob = "snd (so_GetState E (db s) k ob)" and k = k and w = w]
  by (simp add: so_SetState_def so_setState_def split_beta so_GetState_view)

lemma SetCode_view:
  "crypto_ok E \<Longrightarrow> obj_view E (db s) (fst (so_SetCode E (BytesToHash (keccak256 E (bytes_of c))) c ob s)) =
     (obj_view E (db s) ob)\<lparr>av_codehash := keccak256 E (bytes_of c), av_code := bytes_of c\<rparr>"
  using obj_view_simps(8) [where ob = "snd (so_Code E (db s) ob)" and c = c and h = "keccak256 E (bytes_of c)" and x = True]
  by (auto simp: so_SetCode_def so_setCode_def split_beta so_Code_view crypto_ok_def hash_bytes_BytesToHash
      code_at_def emptyCodeHash_def bytes_of_def split: option.splits)

lemma view_setters:
  assumes "crypto_ok E" "sdb_ok E s"
  shows "view E (AddBalance E a b s) = vupd E a (\<lambda>x. x\<lparr>av_balance := av_balance x + b\<rparr>) (view E s)"
    "view E (SubBalance E a b s) = vupd E a (\<lambda>x. x\<lparr>av_balance := av_balance x - b\<rparr>) (view E s)"
    "view E (SetBalance E a b s) = vupd E a (\<lambda>x. x\<lparr>av_balance := b\<rparr>) (view E s)"
    "view E (SetNonce E a n s) = vupd E a (\<lambda>x. x\<lparr>av_nonce := n\<rparr>) (view E s)"
    "view E (SetCode E a c s) =
       vupd E a (\<lambda>x. x\<lparr>av_codehash := keccak256 E (bytes_of c), av_code := bytes_of c\<rparr>) (view E s)"
    "view E (SetState E a k w s) = vupd E a (\<lambda>x. x\<lparr>av_storage := (av_storage x)(k := w)\<rparr>) (view E s)"
  unfolding AddBalance_def SubBalance_def SetBalance_def SetNonce_def SetCode_def SetState_def
  by (rule on_object_view [OF assms], rule methods_ok,
      simp add: methods_view SetBalance_view SetState_view SetCode_view [OF assms(1)])+

lemma view_AddRefund: "view E (AddRefund g s) = (view E s)\<lparr>vw_refund := vw_refund (view E s) + g\<rparr>"
  using view_no_accts [where s = s and j = "journal s @ [RefundChange (refund s)]" and r = "refund s + g" and l = "logs s"
    and p = "preimages s"]
  by (simp add: AddRefund_def append_journal_def view_def GetLogs_def)

lemma view_AddPreimage:
  "view E (AddPreimage h p s) =
     (case vw_preimages (view E s) h of Some _ \<Rightarrow> view E s
      | None \<Rightarrow> (view E s)\<lparr>vw_preimages := (vw_preimages (view E s))(h \<mapsto> p)\<rparr>)"
  using view_no_accts [where s = s and j = "journal s @ [AddPreimageChange h]" and r = "refund s" and l = "logs s"
    and p = "(preimages s)(h \<mapsto> p)"]
  by (cases "preimages s h") (simp_all add: AddPreimage_def append_journal_def view_def GetLogs_def)

lemma view_AddLog: "view E (AddLog l s) = vAddLog (log_pos s) l (view E s)"
proof -
  let ?l = "l\<lparr>log_txhash := thash s, log_bhash := bhash s, log_txindex := txIndex s, log_index := logSize s\<rparr>"
  let ?s = "AddLog l s"
  have "lookup E ?s = lookup E s" "db ?s = db s" "refund ?s = refund s" "preimages ?s = preimages s"
    by (auto intro!: lookup_cong simp: AddLog_def append_journal_def Let_def)
  moreover have "(\<lambda>h. GetLogs h ?s) = (\<lambda>h. GetLogs h s)(thash s := GetLogs (thash s) s @ [?l])"
    by (auto simp: AddLog_def append_journal_def Let_def GetLogs_def fun_eq_iff)
  ultimately show ?thesis by (simp add: view_def vAddLog_def log_pos_def)
qed

section \<open>The specification machine\<close>

text \<open>The interface of the database as operations with their results, run on the code's state.
  \<open>OpGetCodeSize\<close> has no result here: its value comes from the code size cache.\<close>

datatype db_op =
    OpCreateAccount address | OpAddBalance address int | OpSubBalance address int | OpSetBalance address int
  | OpSetNonce address u64 | OpSetCode address "bytes option" | OpSetState address hash hash
  | OpSuicide address | OpAddLog log | OpAddPreimage hash bytes | OpAddRefund int
  | OpPrepare hash hash nat | OpSnapshot | OpRevert nat
  | OpExist address | OpEmpty address | OpGetBalance address | OpGetNonce address | OpGetCodeHash address
  | OpHasSuicided address | OpGetCode address | OpGetCodeSize address | OpGetState address hash
  | OpGetRefund | OpGetLogs hash

datatype db_out =
    ODone | OBool bool | OInt int | ONonce u64 | OHash hash | OBytes bytes | OLogs "log list" | OSnap nat

fun db_step :: "crypto \<Rightarrow> db_op \<Rightarrow> stateDB \<Rightarrow> (db_out \<times> stateDB) option" where
  "db_step E (OpCreateAccount a) s = Some (ODone, CreateAccount E a s)"
| "db_step E (OpAddBalance a b) s = Some (ODone, AddBalance E a b s)"
| "db_step E (OpSubBalance a b) s = Some (ODone, SubBalance E a b s)"
| "db_step E (OpSetBalance a b) s = Some (ODone, SetBalance E a b s)"
| "db_step E (OpSetNonce a n) s = Some (ODone, SetNonce E a n s)"
| "db_step E (OpSetCode a c) s = Some (ODone, SetCode E a c s)"
| "db_step E (OpSetState a k w) s = Some (ODone, SetState E a k w s)"
| "db_step E (OpSuicide a) s = Some (map_prod OBool id (Suicide E a s))"
| "db_step E (OpAddLog l) s = Some (ODone, AddLog l s)"
| "db_step E (OpAddPreimage h p) s = Some (ODone, AddPreimage h p s)"
| "db_step E (OpAddRefund g) s = Some (ODone, AddRefund g s)"
| "db_step E (OpPrepare th bh ti) s = Some (ODone, Prepare th bh ti s)"
| "db_step E OpSnapshot s = Some (map_prod OSnap id (Snapshot s))"
| "db_step E (OpRevert n) s = map_option (Pair ODone) (RevertToSnapshot E n s)"
| "db_step E (OpExist a) s = Some (map_prod OBool id (Exist E a s))"
| "db_step E (OpEmpty a) s = Some (map_prod OBool id (Empty E a s))"
| "db_step E (OpGetBalance a) s = Some (map_prod OInt id (GetBalance E a s))"
| "db_step E (OpGetNonce a) s = Some (map_prod ONonce id (GetNonce E a s))"
| "db_step E (OpGetCodeHash a) s = Some (map_prod OHash id (GetCodeHash E a s))"
| "db_step E (OpHasSuicided a) s = Some (map_prod OBool id (HasSuicided E a s))"
| "db_step E (OpGetCode a) s = Some (map_prod (\<lambda>c. OBytes (bytes_of c)) id (GetCode E a s))"
| "db_step E (OpGetCodeSize a) s = Some (map_prod (\<lambda>_. ODone) id (GetCodeSize E a s))"
| "db_step E (OpGetState a k) s = Some (map_prod OHash id (GetState E a k s))"
| "db_step E OpGetRefund s = Some (OInt (GetRefund s), s)"
| "db_step E (OpGetLogs h) s = Some (OLogs (GetLogs h s), s)"

fun db_run :: "crypto \<Rightarrow> db_op list \<Rightarrow> stateDB \<Rightarrow> (db_out list \<times> stateDB) option" where
  "db_run E [] s = Some ([], s)"
| "db_run E (op # ops) s =
     (case db_step E op s of
        None \<Rightarrow> None
      | Some (r, s1) \<Rightarrow> map_option (map_prod (Cons r) id) (db_run E ops s1))"

text \<open>The specification: a view, the saved views of the snapshots with their ids, the next id,
  and the position of the next log, which snapshots do not save.\<close>

record adb =
  ad_view :: view
  ad_snaps :: "(nat \<times> view) list"
  ad_next :: nat
  ad_pos :: "hash \<times> hash \<times> nat \<times> nat"

definition ad_get :: "address \<Rightarrow> 'a \<Rightarrow> (aview \<Rightarrow> 'a) \<Rightarrow> adb \<Rightarrow> 'a" where
  "ad_get a dflt f A = (case vw_accts (ad_view A) a of None \<Rightarrow> dflt | Some x \<Rightarrow> f x)"

definition ad_upd :: "(view \<Rightarrow> view) \<Rightarrow> adb \<Rightarrow> (db_out \<times> adb) option" where
  "ad_upd f A = Some (ODone, A\<lparr>ad_view := f (ad_view A)\<rparr>)"

fun ad_step :: "crypto \<Rightarrow> db_op \<Rightarrow> adb \<Rightarrow> (db_out \<times> adb) option" where
  "ad_step E (OpCreateAccount a) A = ad_upd (vCreateAccount E a) A"
| "ad_step E (OpAddBalance a b) A = ad_upd (vupd E a (\<lambda>x. x\<lparr>av_balance := av_balance x + b\<rparr>)) A"
| "ad_step E (OpSubBalance a b) A = ad_upd (vupd E a (\<lambda>x. x\<lparr>av_balance := av_balance x - b\<rparr>)) A"
| "ad_step E (OpSetBalance a b) A = ad_upd (vupd E a (\<lambda>x. x\<lparr>av_balance := b\<rparr>)) A"
| "ad_step E (OpSetNonce a n) A = ad_upd (vupd E a (\<lambda>x. x\<lparr>av_nonce := n\<rparr>)) A"
| "ad_step E (OpSetCode a c) A =
     ad_upd (vupd E a (\<lambda>x. x\<lparr>av_codehash := keccak256 E (bytes_of c), av_code := bytes_of c\<rparr>)) A"
| "ad_step E (OpSetState a k w) A = ad_upd (vupd E a (\<lambda>x. x\<lparr>av_storage := (av_storage x)(k := w)\<rparr>)) A"
| "ad_step E (OpSuicide a) A =
     Some (OBool (vw_accts (ad_view A) a \<noteq> None), A\<lparr>ad_view := vSuicide a (ad_view A)\<rparr>)"
| "ad_step E (OpAddLog l) A =
     Some (ODone, A\<lparr>ad_view := vAddLog (ad_pos A) l (ad_view A),
       ad_pos := (case ad_pos A of (th, bh, ti, n) \<Rightarrow> (th, bh, ti, Suc n))\<rparr>)"
| "ad_step E (OpAddPreimage h p) A =
     ad_upd (\<lambda>v. if vw_preimages v h = None then v\<lparr>vw_preimages := (vw_preimages v)(h \<mapsto> p)\<rparr> else v) A"
| "ad_step E (OpAddRefund g) A = ad_upd (\<lambda>v. v\<lparr>vw_refund := vw_refund v + g\<rparr>) A"
| "ad_step E (OpPrepare th bh ti) A = Some (ODone, A\<lparr>ad_pos := (th, bh, ti, snd (snd (snd (ad_pos A))))\<rparr>)"
| "ad_step E OpSnapshot A =
     Some (OSnap (ad_next A), A\<lparr>ad_next := Suc (ad_next A), ad_snaps := ad_snaps A @ [(ad_next A, ad_view A)]\<rparr>)"
| "ad_step E (OpRevert n) A =
     (case map_of (ad_snaps A) n of
        None \<Rightarrow> None
      | Some v \<Rightarrow> Some (ODone, A\<lparr>ad_view := v, ad_snaps := filter (\<lambda>p. fst p < n) (ad_snaps A)\<rparr>))"
| "ad_step E (OpExist a) A = Some (OBool (vw_accts (ad_view A) a \<noteq> None), A)"
| "ad_step E (OpEmpty a) A =
     Some (OBool (ad_get a True (\<lambda>x. av_nonce x = 0 \<and> av_balance x = 0 \<and> av_codehash x = emptyCodeHash E) A), A)"
| "ad_step E (OpGetBalance a) A = Some (OInt (ad_get a 0 av_balance A), A)"
| "ad_step E (OpGetNonce a) A = Some (ONonce (ad_get a 0 av_nonce A), A)"
| "ad_step E (OpGetCodeHash a) A = Some (OHash (ad_get a 0 (\<lambda>x. BytesToHash (av_codehash x)) A), A)"
| "ad_step E (OpHasSuicided a) A = Some (OBool (ad_get a False av_suicided A), A)"
| "ad_step E (OpGetCode a) A = Some (OBytes (ad_get a [] av_code A), A)"
| "ad_step E (OpGetCodeSize a) A = Some (ODone, A)"
| "ad_step E (OpGetState a k) A = Some (OHash (ad_get a 0 (\<lambda>x. av_storage x k) A), A)"
| "ad_step E OpGetRefund A = Some (OInt (vw_refund (ad_view A)), A)"
| "ad_step E (OpGetLogs h) A = Some (OLogs (vw_logs (ad_view A) h), A)"

fun ad_run :: "crypto \<Rightarrow> db_op list \<Rightarrow> adb \<Rightarrow> (db_out list \<times> adb) option" where
  "ad_run E [] A = Some ([], A)"
| "ad_run E (op # ops) A =
     (case ad_step E op A of
        None \<Rightarrow> None
      | Some (r, A1) \<Rightarrow> map_option (map_prod (Cons r) id) (ad_run E ops A1))"

definition saved :: "crypto \<Rightarrow> stateDB \<Rightarrow> nat \<times> nat \<Rightarrow> nat \<times> view \<Rightarrow> bool" where
  "saved E s r p \<longleftrightarrow> fst p = fst r \<and>
     aundo_all E (db s) (rev (drop (snd r) (journal s))) (view E s) = Some (snd p)"

definition implements :: "crypto \<Rightarrow> stateDB \<Rightarrow> adb \<Rightarrow> bool" where
  "implements E s A \<longleftrightarrow> sdb_ok E s \<and> ad_view A = view E s \<and>
     list_all2 (saved E s) (validRevisions s) (ad_snaps A) \<and>
     ad_next A = nextRevisionId s \<and> ad_pos A = log_pos s"

section \<open>The database implements the specification\<close>

lemma implements_ext:
  assumes "implements E s A" and "ext E s s'"
  shows "implements E s' (A\<lparr>ad_view := view E s'\<rparr>)"
proof -
  obtain js where js: "journal s' = journal s @ js" "aundo_all E (db s) (rev js) (view E s') = Some (view E s)"
    using assms(2) by (auto simp: ext_def)
  have "list_all2 (saved E s') (validRevisions s) (ad_snaps A)"
  proof (rule list.rel_mono_strong)
    show "list_all2 (saved E s) (validRevisions s) (ad_snaps A)" using assms(1) by (simp add: implements_def)
    fix r p assume "r \<in> set (validRevisions s)" "p \<in> set (ad_snaps A)" "saved E s r p"
    moreover have "snd r \<le> length (journal s)"
      using assms(1) \<open>r \<in> set (validRevisions s)\<close> by (auto simp: implements_def sdb_ok_def revs_ok_def)
    ultimately show "saved E s' r p" using js assms(2) by (simp add: saved_def ext_def aundo_all_append)
  qed
  then show ?thesis using assms by (simp add: implements_def ext_def)
qed

lemma implements_load:
  assumes "implements E s A" and "objs_ok E s' \<and> frame s s' \<and> view E s' = view E s"
  shows "implements E s' A"
  using implements_ext [OF assms(1), of s'] frame_ext [of E s s'] assms by (simp add: implements_def)

text \<open>One step of the database and of the specification.\<close>

definition simulates :: "crypto \<Rightarrow> (db_out \<times> stateDB) option \<Rightarrow> (db_out \<times> adb) option \<Rightarrow> bool" where
  "simulates E = rel_option (rel_prod (=) (implements E))"

lemma simulates_Some [simp]: "simulates E (Some (r, s)) (Some (r', A)) \<longleftrightarrow> r = r' \<and> implements E s A"
  by (simp add: simulates_def)

lemma simulates_upd:
  "implements E s A \<Longrightarrow> ext E s s' \<Longrightarrow> view E s' = f (view E s) \<Longrightarrow> simulates E (Some (ODone, s')) (ad_upd f A)"
  using implements_ext [of E s A s'] by (simp add: ad_upd_def implements_def)

lemma step_upd:
  assumes "crypto_ok E" "implements E s A"
  shows "simulates E (db_step E (OpCreateAccount a) s) (ad_step E (OpCreateAccount a) A)"
    "simulates E (db_step E (OpAddBalance a b) s) (ad_step E (OpAddBalance a b) A)"
    "simulates E (db_step E (OpSubBalance a b) s) (ad_step E (OpSubBalance a b) A)"
    "simulates E (db_step E (OpSetBalance a b) s) (ad_step E (OpSetBalance a b) A)"
    "simulates E (db_step E (OpSetNonce a n) s) (ad_step E (OpSetNonce a n) A)"
    "simulates E (db_step E (OpSetCode a c) s) (ad_step E (OpSetCode a c) A)"
    "simulates E (db_step E (OpSetState a k w) s) (ad_step E (OpSetState a k w) A)"
    "simulates E (db_step E (OpAddRefund g) s) (ad_step E (OpAddRefund g) A)"
    "simulates E (db_step E (OpAddPreimage h p) s) (ad_step E (OpAddPreimage h p) A)"
proof -
  have ok: "sdb_ok E s" using assms(2) by (simp add: implements_def)
  note c = CreateAccount_ext [OF assms(1) ok]
  note rules = ext_setters [OF assms(1) ok] ext_AddRefund [OF ok] ext_AddPreimage [OF ok] conjunct1 [OF c]
    view_setters [OF assms(1) ok] view_AddRefund conjunct2 [OF c]
  show "simulates E (db_step E (OpCreateAccount a) s) (ad_step E (OpCreateAccount a) A)"
    "simulates E (db_step E (OpAddBalance a b) s) (ad_step E (OpAddBalance a b) A)"
    "simulates E (db_step E (OpSubBalance a b) s) (ad_step E (OpSubBalance a b) A)"
    "simulates E (db_step E (OpSetBalance a b) s) (ad_step E (OpSetBalance a b) A)"
    "simulates E (db_step E (OpSetNonce a n) s) (ad_step E (OpSetNonce a n) A)"
    "simulates E (db_step E (OpSetCode a c) s) (ad_step E (OpSetCode a c) A)"
    "simulates E (db_step E (OpSetState a k w) s) (ad_step E (OpSetState a k w) A)"
    "simulates E (db_step E (OpAddRefund g) s) (ad_step E (OpAddRefund g) A)"
    unfolding db_step.simps ad_step.simps by (rule simulates_upd [OF assms(2)]; rule rules)+
  show "simulates E (db_step E (OpAddPreimage h p) s) (ad_step E (OpAddPreimage h p) A)"
    unfolding db_step.simps ad_step.simps
    by (rule simulates_upd [OF assms(2)], rule rules) (simp add: view_AddPreimage split: option.split)
qed

lemma step_Suicide:
  assumes "implements E s A"
  shows "simulates E (db_step E (OpSuicide a) s) (ad_step E (OpSuicide a) A)"
proof -
  have ok: "sdb_ok E s" using assms by (simp add: implements_def)
  have "fst (Suicide E a s) \<longleftrightarrow> vw_accts (view E s) a \<noteq> None"
    using getStateObject_ext [OF ok, of a]
    by (cases "getStateObject E a s") (auto simp: Suicide_def vw_accts_view split_beta Let_def split: option.split)
  then show ?thesis
    using implements_ext [OF assms conjunct1 [OF Suicide_ext [OF ok]], of a] Suicide_ext [OF ok, of a] assms
    by (cases "Suicide E a s") (simp add: implements_def)
qed

lemma step_log:
  assumes "implements E s A"
  shows "simulates E (db_step E (OpAddLog l) s) (ad_step E (OpAddLog l) A)"
    "simulates E (db_step E (OpPrepare th bh ti) s) (ad_step E (OpPrepare th bh ti) A)"
proof -
  have ok: "sdb_ok E s" using assms by (simp add: implements_def)
  have move: "implements E s' (A\<lparr>ad_pos := log_pos s'\<rparr>)"
    if "s' = s\<lparr>thash := x, bhash := y, txIndex := z, logSize := n\<rparr>" for s' x y z n
  proof -
    have "view E s' = view E s" by (rule view_cong) (simp_all add: that)
    then show ?thesis using assms
      by (simp add: implements_def saved_def that sdb_ok_def objs_ok_def revs_ok_def cong: list.rel_cong)
  qed
  let ?s = "s\<lparr>logSize := Suc (logSize s)\<rparr>"
  have "implements E ?s (A\<lparr>ad_pos := log_pos ?s\<rparr>)"
    by (rule move [where x = "thash s" and y = "bhash s" and z = "txIndex s" and n = "Suc (logSize s)"]) simp
  from implements_ext [OF this ext_AddLog [OF ok]]
  have "implements E (AddLog l s) (A\<lparr>ad_pos := log_pos ?s, ad_view := vAddLog (log_pos s) l (view E s)\<rparr>)"
    by (simp add: view_AddLog)
  moreover have "ad_view A = view E s" "ad_pos A = log_pos s" using assms by (simp_all add: implements_def)
  moreover have "log_pos ?s = (case log_pos s of (th, bh, ti, n) \<Rightarrow> (th, bh, ti, Suc n))" by (simp add: log_pos_def)
  ultimately show "simulates E (db_step E (OpAddLog l) s) (ad_step E (OpAddLog l) A)"
    by (simp add: implements_def)
  show "simulates E (db_step E (OpPrepare th bh ti) s) (ad_step E (OpPrepare th bh ti) A)"
    using move [where s' = "Prepare th bh ti s" and x = th and y = bh and z = ti and n = "logSize s"] assms
    by (simp add: Prepare_def implements_def log_pos_def)
qed

lemma step_reads:
  assumes "implements E s A"
  shows "simulates E (db_step E (OpExist a) s) (ad_step E (OpExist a) A)"
    "simulates E (db_step E (OpEmpty a) s) (ad_step E (OpEmpty a) A)"
    "simulates E (db_step E (OpGetBalance a) s) (ad_step E (OpGetBalance a) A)"
    "simulates E (db_step E (OpGetNonce a) s) (ad_step E (OpGetNonce a) A)"
    "simulates E (db_step E (OpGetCodeHash a) s) (ad_step E (OpGetCodeHash a) A)"
    "simulates E (db_step E (OpHasSuicided a) s) (ad_step E (OpHasSuicided a) A)"
proof -
  obtain r s1 where g: "getStateObject E a s = (r, s1)" by fastforce
  have ok: "objs_ok E s" using assms by (simp add: implements_def sdb_ok_def)
  note g1 = getStateObject_objs [OF ok g]
  have i: "implements E s1 A" using g1 by (intro implements_load [OF assms]) auto
  have v: "vw_accts (ad_view A) a = map_option (obj_view E (db s)) r"
    using assms g1 by (simp add: implements_def vw_accts_view)
  show "simulates E (db_step E (OpExist a) s) (ad_step E (OpExist a) A)"
    "simulates E (db_step E (OpEmpty a) s) (ad_step E (OpEmpty a) A)"
    "simulates E (db_step E (OpGetBalance a) s) (ad_step E (OpGetBalance a) A)"
    "simulates E (db_step E (OpGetNonce a) s) (ad_step E (OpGetNonce a) A)"
    "simulates E (db_step E (OpGetCodeHash a) s) (ad_step E (OpGetCodeHash a) A)"
    "simulates E (db_step E (OpHasSuicided a) s) (ad_step E (OpHasSuicided a) A)"
    using g i v by (auto simp: Exist_def Empty_def GetBalance_def GetNonce_def GetCodeHash_def HasSuicided_def
      ad_get_def so_empty_def obj_view_sel big_Sign_def sgn_0_0 split: option.splits)
qed

lemma step_loads:
  assumes "implements E s A"
  shows "simulates E (db_step E (OpGetCode a) s) (ad_step E (OpGetCode a) A)"
    "simulates E (db_step E (OpGetCodeSize a) s) (ad_step E (OpGetCodeSize a) A)"
    "simulates E (db_step E (OpGetState a k) s) (ad_step E (OpGetState a k) A)"
proof -
  have ok: "objs_ok E s" and v: "ad_view A = view E s" using assms by (simp_all add: implements_def sdb_ok_def)
  note l = implements_load [OF assms]
  show "simulates E (db_step E (OpGetCode a) s) (ad_step E (OpGetCode a) A)"
    using GetCode_loads [OF ok, of a] v l by (cases "GetCode E a s") (simp add: ad_get_def)
  show "simulates E (db_step E (OpGetCodeSize a) s) (ad_step E (OpGetCodeSize a) A)"
    using GetCodeSize_loads [OF ok, of a] l by (cases "GetCodeSize E a s") simp
  show "simulates E (db_step E (OpGetState a k) s) (ad_step E (OpGetState a k) A)"
    using GetState_loads [OF ok, of a k] v l by (cases "GetState E a k s") (simp add: ad_get_def)
qed

lemma step_pure:
  assumes "implements E s A"
  shows "simulates E (db_step E OpGetRefund s) (ad_step E OpGetRefund A)"
    "simulates E (db_step E (OpGetLogs h) s) (ad_step E (OpGetLogs h) A)"
  using assms by (simp_all add: implements_def view_def GetRefund_def)

lemma step_Snapshot:
  assumes "implements E s A"
  shows "simulates E (db_step E OpSnapshot s) (ad_step E OpSnapshot A)"
proof -
  let ?s = "s\<lparr>nextRevisionId := Suc (nextRevisionId s),
      validRevisions := validRevisions s @ [(nextRevisionId s, length (journal s))]\<rparr>"
  have v: "view E ?s = view E s" by (rule view_cong) simp_all
  have ok: "sdb_ok E ?s" using assms
    by (auto simp: implements_def sdb_ok_def revs_ok_def objs_ok_def sorted_append sorted_wrt_append less_Suc_eq)
  have "list_all2 (saved E ?s) (validRevisions s) (ad_snaps A)"
    using assms v by (simp add: implements_def saved_def cong: list.rel_cong)
  then show ?thesis using assms v ok
    by (simp add: Snapshot_def implements_def) (simp add: saved_def list_all2_appendI)
qed

lemma sorted_keys:
  fixes xs :: "(nat \<times> 'a) list"
  assumes "sorted_wrt (<) (map fst xs)" and "n < length xs"
  shows "map_of xs (fst (xs ! n)) = Some (snd (xs ! n))" "filter (\<lambda>p. fst p < fst (xs ! n)) xs = take n xs"
proof -
  have d: "distinct (map fst xs)" using assms(1) by (simp add: strict_sorted_iff)
  then show "map_of xs (fst (xs ! n)) = Some (snd (xs ! n))" using assms(2) by (simp add: map_of_is_SomeI)
  have l: "fst (xs ! i) < fst (xs ! j)" if "i < j" "j < length xs" for i j
    using assms(1) that by (simp add: sorted_wrt_iff_nth_less)
  have "fst p < fst (xs ! n)" if "p \<in> set (take n xs)" for p
    using that l [OF _ assms(2)] by (metis in_set_conv_nth length_take min_less_iff_conj nth_take)
  then have "filter (\<lambda>p. fst p < fst (xs ! n)) (take n xs) = take n xs" by (simp add: filter_id_conv)
  moreover have "\<not> fst p < fst (xs ! n)" if p: "p \<in> set (drop n xs)" for p
  proof -
    obtain i where "i < length (drop n xs)" "p = drop n xs ! i" using p by (metis in_set_conv_nth)
    then have "p = xs ! (n + i)" "n + i < length xs" using assms(2) by auto
    then show ?thesis using l [of n "n + i"] by (cases i) auto
  qed
  then have "filter (\<lambda>p. fst p < fst (xs ! n)) (drop n xs) = []" by (simp add: filter_empty_conv)
  ultimately show "filter (\<lambda>p. fst p < fst (xs ! n)) xs = take n xs"
    by (metis append_Nil2 append_take_drop_id filter_append)
qed

text \<open>The binary search of \<open>RevertToSnapshot\<close> finds the revision, if there is one.\<close>

lemma search_revision:
  fixes revs :: "(nat \<times> 'a) list"
  assumes "sorted_wrt (<) (map fst revs)" and "idx = sort_Search (\<lambda>i. fst (revs ! i) \<ge> k) 0 (length revs)"
  shows "idx = length revs \<or> fst (revs ! idx) \<noteq> k \<Longrightarrow> map_of revs k = None" "idx \<le> length revs"
proof -
  have l: "fst (revs ! i) < fst (revs ! j)" if "i < j" "j < length revs" for i j
    using assms(1) that by (simp add: sorted_wrt_iff_nth_less)
  have mono: "k \<le> fst (revs ! j)" if "0 \<le> i" "i \<le> j" "j < length revs" "k \<le> fst (revs ! i)" for i j
    using l [of i j] that by (cases "i = j") auto
  have "0 \<le> idx \<and> idx \<le> length revs \<and> (\<forall>i. 0 \<le> i \<longrightarrow> i < idx \<longrightarrow> \<not> fst (revs ! i) \<ge> k) \<and>
      (idx < length revs \<longrightarrow> fst (revs ! idx) \<ge> k)"
    unfolding assms(2) by (rule sort_Search_least, rule mono) simp_all
  then have idx: "idx \<le> length revs" "\<And>i. i < idx \<Longrightarrow> fst (revs ! i) < k" "idx < length revs \<Longrightarrow> k \<le> fst (revs ! idx)"
    by (simp_all add: not_le)
  then show "idx \<le> length revs" by blast
  assume a: "idx = length revs \<or> fst (revs ! idx) \<noteq> k"
  have "fst (revs ! i) \<noteq> k" if "i < length revs" for i
    using idx(2) [of i] idx(3) l [of idx i] a that by (cases i idx rule: linorder_cases) auto
  then show "map_of revs k = None" by (fastforce simp: map_of_eq_None_iff in_set_conv_nth)
qed

lemma drop_split: "k \<le> n \<Longrightarrow> drop k xs = drop k (take n xs) @ drop n xs"
proof -
  assume "k \<le> n"
  then have "drop n xs = drop (n - k) (drop k xs)" by simp
  then show ?thesis by (simp only: drop_take append_take_drop_id)
qed

text \<open>Cutting the journal and the revisions at a revision, once the view is the saved one.\<close>

lemma reverted_implements:
  assumes "implements E s A" and "frame s s1" and "objs_ok E s1"
    and "idx < length (validRevisions s)" and "view E s1 = snd (ad_snaps A ! idx)"
  defines "n \<equiv> snd (validRevisions s ! idx)"
  shows "implements E (s1\<lparr>journal := take n (journal s1), validRevisions := take idx (validRevisions s1)\<rparr>)
    (A\<lparr>ad_view := view E s1, ad_snaps := take idx (ad_snaps A)\<rparr>)"
proof -
  let ?s = "s1\<lparr>journal := take n (journal s1), validRevisions := take idx (validRevisions s1)\<rparr>"
  have ok: "\<forall>ch\<in>set (journal s). entry_ok E (strie s) ch" "revs_ok s"
    "list_all2 (saved E s) (validRevisions s) (ad_snaps A)"
    using assms(1) by (simp_all add: implements_def sdb_ok_def)
  have le: "snd r \<le> n \<and> snd r \<le> length (journal s)" if r: "r \<in> set (take idx (validRevisions s))" for r
  proof -
    obtain j where "j < idx" "r = validRevisions s ! j" using r assms(4) by (auto simp: in_set_conv_nth)
    then show ?thesis using ok(2) assms(4) sorted_nth_mono [of "map snd (validRevisions s)" j idx]
      by (auto simp: revs_ok_def n_def)
  qed
  have v: "view E ?s = view E s1" by (rule view_cong) simp_all
  have f: "db s1 = db s" "strie s1 = strie s" "journal s1 = journal s" "validRevisions s1 = validRevisions s"
    "nextRevisionId s1 = nextRevisionId s" "log_pos s1 = log_pos s" using assms(2) by (simp_all add: frame_def)
  have sv: "saved E s (validRevisions s ! idx) (ad_snaps A ! idx)" using ok(3) assms(4) by (simp add: list_all2_nthD)
  have "list_all2 (saved E ?s) (take idx (validRevisions s)) (take idx (ad_snaps A))"
  proof (rule list.rel_mono_strong)
    show "list_all2 (saved E s) (take idx (validRevisions s)) (take idx (ad_snaps A))"
      using ok(3) by (rule list_all2_takeI)
    fix r p assume r: "r \<in> set (take idx (validRevisions s))" and "saved E s r p"
    moreover have "drop (snd r) (journal s) = drop (snd r) (take n (journal s)) @ drop n (journal s)"
      using le [OF r] drop_split by blast
    ultimately show "saved E ?s r p" using sv v f assms(5) by (simp add: saved_def n_def aundo_all_append)
  qed
  moreover have "sdb_ok E ?s"
  proof -
    have "sorted_wrt (<) (map fst (take idx (validRevisions s)))" "sorted (map snd (take idx (validRevisions s)))"
      using ok(2) by (simp_all add: revs_ok_def sorted_wrt_take flip: take_map)
    then have "revs_ok ?s" using ok(2) le f by (auto simp: revs_ok_def dest: in_set_takeD)
    then show ?thesis using assms(3) ok(1) f by (auto simp: sdb_ok_def objs_ok_def dest: in_set_takeD)
  qed
  ultimately show ?thesis using assms(1) v f by (simp add: implements_def)
qed

lemma step_Revert:
  assumes "implements E s A"
  shows "simulates E (db_step E (OpRevert k) s) (ad_step E (OpRevert k) A)"
proof -
  define revs where "revs = validRevisions s"
  define idx where "idx = sort_Search (\<lambda>i. fst (revs ! i) \<ge> k) 0 (length revs)"
  have ok: "objs_ok E s" "\<forall>ch\<in>set (journal s). entry_ok E (strie s) ch" "revs_ok s"
    and A: "ad_view A = view E s" "list_all2 (saved E s) revs (ad_snaps A)"
      "ad_next A = nextRevisionId s" "ad_pos A = log_pos s"
    using assms by (simp_all add: implements_def sdb_ok_def revs_def)
  have len: "length (ad_snaps A) = length revs" using A(2) by (simp add: list_all2_lengthD)
  have ids: "map fst (ad_snaps A) = map fst revs"
    using A(2) by (induction rule: list_all2_induct) (auto simp: saved_def)
  have srt: "sorted_wrt (<) (map fst revs)" using ok(3) by (simp add: revs_ok_def revs_def)
  show ?thesis
  proof (cases "idx = length revs \<or> fst (revs ! idx) \<noteq> k")
    case True
    then have "map_of revs k = None" using search_revision(1) [OF srt idx_def] by simp
    then have "map_of (ad_snaps A) k = None" using ids by (metis map_of_eq_None_iff list.set_map)
    then show ?thesis using True
      by (simp add: RevertToSnapshot_def Let_def simulates_def flip: revs_def idx_def)
  next
    case False
    then have i: "idx < length revs" "fst (revs ! idx) = k" using search_revision(2) [OF srt idx_def] by auto
    let ?n = "snd (revs ! idx)" and ?v = "snd (ad_snaps A ! idx)"
    have sv: "saved E s (revs ! j) (ad_snaps A ! j)" if "j < length revs" for j
      using A(2) that by (simp add: list_all2_nthD)
    have ref: "refines E s (undo_all E (rev (drop ?n (journal s))) s)
        (aundo_all E (db s) (rev (drop ?n (journal s))) (view E s))"
      using ok by (intro undo_all_refines) (auto dest: in_set_dropD)
    moreover have "aundo_all E (db s) (rev (drop ?n (journal s))) (view E s) = Some ?v"
      using sv [OF i(1)] by (simp add: saved_def)
    ultimately obtain s1 where u: "undo_all E (rev (drop ?n (journal s))) s = Some s1"
      and s1: "view E s1 = ?v" "objs_ok E s1" "frame s s1"
      by (auto simp: refines_def split: option.splits)
    define s2 where "s2 = s1\<lparr>journal := take ?n (journal s1), validRevisions := take idx (validRevisions s1)\<rparr>"
    have c: "RevertToSnapshot E k s = Some s2"
      using False u by (simp add: RevertToSnapshot_def Let_def s2_def flip: revs_def idx_def)
    have a: "ad_step E (OpRevert k) A = Some (ODone, A\<lparr>ad_view := ?v, ad_snaps := take idx (ad_snaps A)\<rparr>)"
    proof -
      have "fst (ad_snaps A ! idx) = k" using sv [OF i(1)] i(2) by (simp add: saved_def)
      then show ?thesis using sorted_keys [of "ad_snaps A" idx] srt ids i(1) len by simp
    qed
    have "implements E s2 (A\<lparr>ad_view := ?v, ad_snaps := take idx (ad_snaps A)\<rparr>)"
      using reverted_implements [OF assms, of s1 idx] s1 i by (simp add: s2_def revs_def)
    then show ?thesis using c a by simp
  qed
qed

lemma db_step_simulates:
  assumes "crypto_ok E" "implements E s A"
  shows "simulates E (db_step E op s) (ad_step E op A)"
  using step_upd [OF assms] step_Suicide [OF assms(2)] step_log [OF assms(2)] step_reads [OF assms(2)]
    step_loads [OF assms(2)] step_pure [OF assms(2)] step_Snapshot [OF assms(2)] step_Revert [OF assms(2)]
  by (cases op) (simp_all only:)

lemma db_run_simulates:
  assumes "crypto_ok E" "implements E s A"
  shows "rel_option (rel_prod (=) (implements E)) (db_run E ops s) (ad_run E ops A)"
  using assms(2)
proof (induction ops arbitrary: s A)
  case Nil
  then show ?case by simp
next
  case (Cons op ops)
  note st = db_step_simulates [OF assms(1) Cons.prems, of op]
  show ?case
  proof (cases "db_step E op s")
    case None
    then show ?thesis using st by (simp add: simulates_def)
  next
    case (Some p)
    then obtain r s1 A1 where "db_step E op s = Some (r, s1)" "ad_step E op A = Some (r, A1)" "implements E s1 A1"
      using st by (auto simp: simulates_def option_rel_Some1 rel_prod.simps)
    then show ?thesis using Cons.IH [of s1 A1]
      by (auto simp: option.rel_map prod.rel_map rel_prod.simps elim!: option.rel_mono_strong)
  qed
qed

definition initial :: "crypto \<Rightarrow> stateDB \<Rightarrow> adb" where
  "initial E s = \<lparr>ad_view = view E s, ad_snaps = [], ad_next = nextRevisionId s, ad_pos = log_pos s\<rparr>"

lemma initial_implements: "sdb_ok E s \<Longrightarrow> validRevisions s = [] \<Longrightarrow> implements E s (initial E s)"
  by (simp add: implements_def initial_def)

text \<open>C10. The account database refines its specification: run any sequence of operations on a
  database with no open snapshot, and every getter returns what the machine over views with a stack
  of saved views returns, the run panics (a revert to an id that is not valid) exactly when the
  machine has no such snapshot, and the final view is the machine's.\<close>

theorem db_run_refines:
  assumes "crypto_ok E" and "sdb_ok E s" and "validRevisions s = []"
  shows "map_option (\<lambda>(rs, s'). (rs, view E s')) (db_run E ops s) =
    map_option (\<lambda>(rs, A). (rs, ad_view A)) (ad_run E ops (initial E s))"
  using db_run_simulates [OF assms(1) initial_implements [OF assms(2,3)], of ops]
  by (cases "db_run E ops s"; cases "ad_run E ops (initial E s)")
    (auto simp: rel_prod.simps implements_def)

definition db_example :: stateDB where
  "db_example = \<lparr>db = \<lparr>codes = Map.empty, tries = Map.empty\<rparr>, strie = Map.empty, pastTries = [],
     codeSizeCache = \<lparr>lru_cap = 4, evictList = []\<rparr>, stateObjects = Map.empty, stateObjectsDirty = {}, stateObjectsDestructed = {},
     refund = 0, thash = 0, bhash = 0, txIndex = 0, logs = Map.empty, logSize = 0, preimages = Map.empty,
     journal = [], validRevisions = [], nextRevisionId = 0\<rparr>"

definition crypto_example :: crypto where
  "crypto_example = \<lparr>keccak256 = (\<lambda>b. replicate 32 (of_nat (length b))), trieHash = (\<lambda>_. 0)\<rparr>"

lemma example_ok: "crypto_ok crypto_example" "sdb_ok crypto_example db_example" "validRevisions db_example = []"
  by (simp_all add: crypto_ok_def crypto_example_def sdb_ok_def db_example_def objs_ok_def revs_ok_def
      trie_account_def SecureTrie_Get_def lru_ok_def)

theorem db_run_refines_witness:
  "map_option (\<lambda>(rs, s'). (rs, view crypto_example s'))
     (db_run crypto_example [OpAddBalance 1 5, OpSnapshot, OpSubBalance 1 3, OpRevert 0, OpGetBalance 1] db_example) =
   map_option (\<lambda>(rs, A). (rs, ad_view A))
     (ad_run crypto_example [OpAddBalance 1 5, OpSnapshot, OpSubBalance 1 3, OpRevert 0, OpGetBalance 1]
       (initial crypto_example db_example))"
  by (rule db_run_refines [OF example_ok])

lemma db_run_implements:
  assumes "crypto_ok E" "implements E s A" "db_run E ops s = Some (rs, s')"
  shows "\<exists>A'. ad_run E ops A = Some (rs, A') \<and> implements E s' A'"
  using db_run_simulates [OF assms(1,2), of ops] assms(3)
  by (auto simp: option_rel_Some1 rel_prod.simps)

text \<open>C12. The well-formedness invariant of the database (live objects under their own address with
  a 32-byte code hash, deleted ones absent from the trie, journal entries consistent with the
  trie, snapshot ids and journal positions sorted and in range, a code size cache within its
  capacity) is kept by every sequence of operations.\<close>

theorem db_run_ok:
  assumes "crypto_ok E" and "sdb_ok E s" and "validRevisions s = []" and "db_run E ops s = Some (rs, s')"
  shows "sdb_ok E s'"
  using db_run_implements [OF assms(1) initial_implements [OF assms(2,3)] assms(4)] by (auto simp: implements_def)

theorem db_run_ok_witness:
  "sdb_ok crypto_example (snd (Snapshot (Prepare 1 2 3 db_example)))"
  by (rule db_run_ok [OF example_ok, of "[OpPrepare 1 2 3, OpSnapshot]" "[ODone, OSnap 0]"])
    (simp add: Snapshot_def Prepare_def db_example_def)

lemma ad_step_keeps_snaps:
  assumes "ad_step E op A = Some (r, A')" and "\<forall>k. op = OpRevert k \<longrightarrow> n < k"
    and "ad_snaps A = pre @ rest" and "\<forall>p\<in>set pre. fst p \<le> n"
  shows "\<exists>rest'. ad_snaps A' = pre @ rest'"
proof -
  have "filter (\<lambda>p. fst p < k) pre = pre" if "n < k" for k using that assms(4) by (fastforce simp: filter_id_conv)
  then show ?thesis using assms(1,2,3) by (cases op) (auto simp: ad_upd_def split: option.splits)
qed

lemma ad_run_keeps_snaps:
  assumes "ad_run E ops A = Some (rs, A')" and "\<forall>k. OpRevert k \<in> set ops \<longrightarrow> n < k"
    and "ad_snaps A = pre @ rest" and "\<forall>p\<in>set pre. fst p \<le> n"
  shows "\<exists>rest'. ad_snaps A' = pre @ rest'"
  using assms
proof (induction ops arbitrary: A rs rest)
  case (Cons op ops)
  from Cons.prems(1) obtain r A1 rs1 where s: "ad_step E op A = Some (r, A1)" "ad_run E ops A1 = Some (rs1, A')"
    by (auto split: option.splits)
  obtain rest1 where "ad_snaps A1 = pre @ rest1"
    using ad_step_keeps_snaps [OF s(1) _ Cons.prems(3,4)] Cons.prems(2) by auto
  then show ?case using Cons.IH [OF s(2)] Cons.prems(2,4) by auto
qed auto

text \<open>C11. Reverting to a snapshot restores the view of the snapshot: take any state a database
  can be in, take a snapshot, run any operations that do not revert to an older snapshot
  (nested snapshots and reverts included); then \<open>RevertToSnapshot\<close> with the id of the
  snapshot does not panic and gives every account, slot, log, preimage and the refund counter
  the value it had.\<close>

theorem RevertToSnapshot_restores:
  assumes "crypto_ok E" and "sdb_ok E s0" and "validRevisions s0 = []" and "db_run E ops0 s0 = Some (rs0, s)"
    and "Snapshot s = (revid, s1)" and "db_run E ops s1 = Some (rs, s2)"
    and "\<forall>k. OpRevert k \<in> set ops \<longrightarrow> revid < k"
  shows "\<exists>s3. RevertToSnapshot E revid s2 = Some s3 \<and> view E s3 = view E s \<and> sdb_ok E s3"
proof -
  obtain A where A: "implements E s A"
    using db_run_implements [OF assms(1) initial_implements [OF assms(2,3)] assms(4)] by blast
  define A1 where "A1 = A\<lparr>ad_next := Suc (ad_next A), ad_snaps := ad_snaps A @ [(ad_next A, ad_view A)]\<rparr>"
  have "implements E s1 A1" using step_Snapshot [OF A] assms(5) by (simp add: A1_def)
  then obtain A2 where A2: "ad_run E ops A1 = Some (rs, A2)" "implements E s2 A2"
    using db_run_implements [OF assms(1) _ assms(6)] by blast
  have revid: "revid = ad_next A" using assms(5) A by (auto simp: Snapshot_def implements_def)
  have ids: "\<forall>p\<in>set (ad_snaps A). fst p < revid"
    using A revid by (fastforce simp: implements_def sdb_ok_def revs_ok_def saved_def list_all2_conv_all_nth in_set_conv_nth)
  obtain rest where "ad_snaps A2 = (ad_snaps A @ [(revid, ad_view A)]) @ rest"
    using ad_run_keeps_snaps [OF A2(1) assms(7), of "ad_snaps A1" "[]"] ids revid by (force simp: A1_def)
  moreover have "map_of (ad_snaps A) revid = None" using ids by (fastforce simp: map_of_eq_None_iff)
  ultimately have "map_of (ad_snaps A2) revid = Some (ad_view A)" by (simp add: map_add_def)
  then show ?thesis using step_Revert [OF A2(2), of revid] A
    by (cases "RevertToSnapshot E revid s2") (auto simp: simulates_def implements_def)
qed

theorem RevertToSnapshot_restores_witness:
  "\<exists>s3. RevertToSnapshot crypto_example 0 (AddRefund 7 (snd (Snapshot db_example))) = Some s3 \<and>
     view crypto_example s3 = view crypto_example db_example \<and> sdb_ok crypto_example s3"
  by (rule RevertToSnapshot_restores [OF example_ok, of "[]" "[]" _ _ "snd (Snapshot db_example)" "[OpAddRefund 7]" "[ODone]"])
    (simp_all add: Snapshot_def db_example_def)

end
