(* ===== verification/Params.thy ===== *)
theory Params
  imports Prelude
begin

text \<open>
  Protocol parameters (\<open>params/protocol_params.go\<close>), gas tables (\<open>params/gas_table.go\<close>) and the
  chain configuration with its fork rules (\<open>params/config.go\<close>). An unset fork block is
  \<open>None\<close>. The lemmas show that the search of \<open>CheckCompatible\<close> for the lowest conflict ends,
  and that rewinding the chain to the block it names removes every conflict.
\<close>

named_theorems params \<open>values of protocol parameters\<close>

section \<open>params/protocol_params.go\<close>

definition MaximumExtraDataSize :: u64 where [params]: "MaximumExtraDataSize = 32"
definition ExpByteGas :: u64 where [params]: "ExpByteGas = 10"
definition SloadGas :: u64 where [params]: "SloadGas = 50"
definition CallValueTransferGas :: u64 where [params]: "CallValueTransferGas = 9000"
definition CallNewAccountGas :: u64 where [params]: "CallNewAccountGas = 25000"
definition TxGas :: u64 where [params]: "TxGas = 21000"
definition TxGasContractCreation :: u64 where [params]: "TxGasContractCreation = 53000"
definition TxDataZeroGas :: u64 where [params]: "TxDataZeroGas = 4"
definition QuadCoeffDiv :: u64 where [params]: "QuadCoeffDiv = 512"
definition SstoreSetGas :: u64 where [params]: "SstoreSetGas = 20000"
definition LogDataGas :: u64 where [params]: "LogDataGas = 8"
definition CallStipend :: u64 where [params]: "CallStipend = 2300"
definition EcrecoverGas :: u64 where [params]: "EcrecoverGas = 3000"
definition Sha256WordGas :: u64 where [params]: "Sha256WordGas = 12"
definition Sha3Gas :: u64 where [params]: "Sha3Gas = 30"
definition Sha256Gas :: u64 where [params]: "Sha256Gas = 60"
definition IdentityWordGas :: u64 where [params]: "IdentityWordGas = 3"
definition Sha3WordGas :: u64 where [params]: "Sha3WordGas = 6"
definition SstoreResetGas :: u64 where [params]: "SstoreResetGas = 5000"
definition SstoreClearGas :: u64 where [params]: "SstoreClearGas = 5000"
definition SstoreRefundGas :: u64 where [params]: "SstoreRefundGas = 15000"
definition JumpdestGas :: u64 where [params]: "JumpdestGas = 1"
definition IdentityGas :: u64 where [params]: "IdentityGas = 15"
definition EpochDuration :: u64 where [params]: "EpochDuration = 30000"
definition CallGas :: u64 where [params]: "CallGas = 40"
definition CreateDataGas :: u64 where [params]: "CreateDataGas = 200"
definition Ripemd160Gas :: u64 where [params]: "Ripemd160Gas = 600"
definition Ripemd160WordGas :: u64 where [params]: "Ripemd160WordGas = 120"
definition CallCreateDepth :: u64 where [params]: "CallCreateDepth = 1024"
definition ExpGas :: u64 where [params]: "ExpGas = 10"
definition LogGas :: u64 where [params]: "LogGas = 375"
definition CopyGas :: u64 where [params]: "CopyGas = 3"
definition StackLimit :: u64 where [params]: "StackLimit = 1024"
definition TierStepGas :: u64 where [params]: "TierStepGas = 0"
definition LogTopicGas :: u64 where [params]: "LogTopicGas = 375"
definition CreateGas :: u64 where [params]: "CreateGas = 32000"
definition SuicideRefundGas :: u64 where [params]: "SuicideRefundGas = 24000"
definition MemoryGas :: u64 where [params]: "MemoryGas = 3"
definition TxDataNonZeroGas :: u64 where [params]: "TxDataNonZeroGas = 68"
definition MaxCodeSize :: nat where [params]: "MaxCodeSize = 24576"
definition GasLimitBoundDivisor :: int where [params]: "GasLimitBoundDivisor = 1024"
definition MinGasLimit :: int where [params]: "MinGasLimit = 5000"
definition GenesisGasLimit :: int where [params]: "GenesisGasLimit = 4712388"
definition TargetGasLimit :: int where [params]: "TargetGasLimit = 4712388"
definition DifficultyBoundDivisor :: int where [params]: "DifficultyBoundDivisor = 2048"
definition GenesisDifficulty :: int where [params]: "GenesisDifficulty = 131072"
definition MinimumDifficulty :: int where [params]: "MinimumDifficulty = 131072"
definition DurationLimit :: int where [params]: "DurationLimit = 13"

section \<open>params/gas_table.go\<close>

record GasTable =
  ExtcodeSize :: u64
  ExtcodeCopy :: u64
  gt_Balance :: u64
  SLoad :: u64
  Calls :: u64
  gt_Suicide :: u64
  ExpByte :: u64
  CreateBySuicide :: u64

definition GasTableHomestead :: GasTable where
  "GasTableHomestead = \<lparr>ExtcodeSize = 20, ExtcodeCopy = 20, gt_Balance = 20, SLoad = 50, Calls = 40,
     gt_Suicide = 0, ExpByte = 10, CreateBySuicide = 0\<rparr>"

definition GasTableHomesteadGasRepriceFork :: GasTable where
  "GasTableHomesteadGasRepriceFork = \<lparr>ExtcodeSize = 700, ExtcodeCopy = 700, gt_Balance = 400, SLoad = 200,
     Calls = 700, gt_Suicide = 5000, ExpByte = 10, CreateBySuicide = 25000\<rparr>"

definition GasTableEIP158 :: GasTable where
  "GasTableEIP158 = \<lparr>ExtcodeSize = 700, ExtcodeCopy = 700, gt_Balance = 400, SLoad = 200,
     Calls = 700, gt_Suicide = 5000, ExpByte = 50, CreateBySuicide = 25000\<rparr>"

section \<open>params/config.go\<close>

record CliqueConfig =
  Period :: u64
  Epoch :: u64

record ChainConfig =
  ChainId :: "int option"
  HomesteadBlock :: "int option"
  DAOForkBlock :: "int option"
  DAOForkSupport :: bool
  EIP150Block :: "int option"
  EIP150Hash :: hash
  EIP155Block :: "int option"
  EIP158Block :: "int option"
  MetropolisBlock :: "int option"
  Bzhash :: bool
  Clique :: "CliqueConfig option"

definition isForked :: "int option \<Rightarrow> int option \<Rightarrow> bool" where
  "isForked s head = (case (s, head) of (Some x, Some h) \<Rightarrow> big_Cmp x h \<le> 0 | _ \<Rightarrow> False)"

definition configNumEqual :: "int option \<Rightarrow> int option \<Rightarrow> bool" where
  "configNumEqual x y =
     (case x of
        None \<Rightarrow> y = None
      | Some a \<Rightarrow> (case y of None \<Rightarrow> x = None | Some b \<Rightarrow> big_Cmp a b = 0))"

definition IsHomestead :: "ChainConfig \<Rightarrow> int option \<Rightarrow> bool" where
  "IsHomestead c num = isForked (HomesteadBlock c) num"

definition IsDAOFork :: "ChainConfig \<Rightarrow> int option \<Rightarrow> bool" where
  "IsDAOFork c num = isForked (DAOForkBlock c) num"

definition IsEIP150 :: "ChainConfig \<Rightarrow> int option \<Rightarrow> bool" where
  "IsEIP150 c num = isForked (EIP150Block c) num"

definition IsEIP155 :: "ChainConfig \<Rightarrow> int option \<Rightarrow> bool" where
  "IsEIP155 c num = isForked (EIP155Block c) num"

definition IsEIP158 :: "ChainConfig \<Rightarrow> int option \<Rightarrow> bool" where
  "IsEIP158 c num = isForked (EIP158Block c) num"

definition IsMetropolis :: "ChainConfig \<Rightarrow> int option \<Rightarrow> bool" where
  "IsMetropolis c num = isForked (MetropolisBlock c) num"

definition cfg_GasTable :: "ChainConfig \<Rightarrow> int option \<Rightarrow> GasTable" where
  "cfg_GasTable c num =
     (if num = None then GasTableHomestead
      else if IsEIP158 c num then GasTableEIP158
      else if IsEIP150 c num then GasTableHomesteadGasRepriceFork
      else GasTableHomestead)"

record Rules =
  rl_ChainId :: int
  rl_IsHomestead :: bool
  rl_IsEIP150 :: bool
  rl_IsEIP155 :: bool
  rl_IsEIP158 :: bool
  rl_IsMetropolis :: bool

definition cfg_Rules :: "ChainConfig \<Rightarrow> int option \<Rightarrow> Rules" where
  "cfg_Rules c num =
     \<lparr>rl_ChainId = (case ChainId c of None \<Rightarrow> 0 | Some i \<Rightarrow> i), rl_IsHomestead = IsHomestead c num,
      rl_IsEIP150 = IsEIP150 c num, rl_IsEIP155 = IsEIP155 c num, rl_IsEIP158 = IsEIP158 c num,
      rl_IsMetropolis = IsMetropolis c num\<rparr>"

subsection \<open>Compatibility of configurations\<close>

record ConfigCompatError =
  What :: string
  StoredConfig :: "int option"
  NewConfig :: "int option"
  RewindTo :: u64

definition newCompatError :: "string \<Rightarrow> int option \<Rightarrow> int option \<Rightarrow> ConfigCompatError" where
  "newCompatError what storedblock newblock =
     (let rew = (case storedblock of
                   None \<Rightarrow> newblock
                 | Some s \<Rightarrow>
                     (case newblock of
                        None \<Rightarrow> storedblock
                      | Some n \<Rightarrow> if big_Cmp s n < 0 then storedblock else newblock))
      in \<lparr>What = what, StoredConfig = storedblock, NewConfig = newblock,
          RewindTo = (case rew of None \<Rightarrow> 0
                      | Some r \<Rightarrow> if big_Sign r > 0 then big_Uint64 r - 1 else 0)\<rparr>)"

definition isForkIncompatible :: "int option \<Rightarrow> int option \<Rightarrow> int option \<Rightarrow> bool" where
  "isForkIncompatible s1 s2 head \<longleftrightarrow> (isForked s1 head \<or> isForked s2 head) \<and> \<not> configNumEqual s1 s2"

definition checkCompatible :: "ChainConfig \<Rightarrow> ChainConfig \<Rightarrow> int option \<Rightarrow> ConfigCompatError option" where
  "checkCompatible c newcfg head =
     (if isForkIncompatible (HomesteadBlock c) (HomesteadBlock newcfg) head
      then Some (newCompatError ''Homestead fork block'' (HomesteadBlock c) (HomesteadBlock newcfg))
      else if isForkIncompatible (DAOForkBlock c) (DAOForkBlock newcfg) head
      then Some (newCompatError ''DAO fork block'' (DAOForkBlock c) (DAOForkBlock newcfg))
      else if IsDAOFork c head \<and> DAOForkSupport c \<noteq> DAOForkSupport newcfg
      then Some (newCompatError ''DAO fork support flag'' (DAOForkBlock c) (DAOForkBlock newcfg))
      else if isForkIncompatible (EIP150Block c) (EIP150Block newcfg) head
      then Some (newCompatError ''EIP150 fork block'' (EIP150Block c) (EIP150Block newcfg))
      else if isForkIncompatible (EIP155Block c) (EIP155Block newcfg) head
      then Some (newCompatError ''EIP155 fork block'' (EIP155Block c) (EIP155Block newcfg))
      else if isForkIncompatible (EIP158Block c) (EIP158Block newcfg) head
      then Some (newCompatError ''EIP158 fork block'' (EIP158Block c) (EIP158Block newcfg))
      else if IsEIP158 c head \<and> \<not> configNumEqual (ChainId c) (ChainId newcfg)
      then Some (newCompatError ''EIP158 chain ID'' (EIP158Block c) (EIP158Block newcfg))
      else if isForkIncompatible (MetropolisBlock c) (MetropolisBlock newcfg) head
      then Some (newCompatError ''Metropolis fork block'' (MetropolisBlock c) (MetropolisBlock newcfg))
      else None)"

subsection \<open>Conflicts lie below the head\<close>

lemma big_Cmp_iff: "big_Cmp x y \<le> 0 \<longleftrightarrow> x \<le> y" "big_Cmp x y < 0 \<longleftrightarrow> x < y" "big_Cmp x y = 0 \<longleftrightarrow> x = y"
  by (auto simp: big_Cmp_def)

lemma configNumEqual_eq: "configNumEqual x y \<longleftrightarrow> x = y"
  by (auto simp: configNumEqual_def big_Cmp_iff split: option.splits)

lemma isForked_Some: "isForked s (Some h) \<longleftrightarrow> (\<exists>x. s = Some x \<and> x \<le> h)"
  by (auto simp: isForked_def big_Cmp_iff split: option.splits)

lemma rewind_below:
  assumes "r \<le> uint h"
  shows "(if big_Sign r > 0 then big_Uint64 r - 1 else 0) < h \<or> (if big_Sign r > 0 then big_Uint64 r - 1 else 0) = (0 :: u64)"
proof (cases "r > 0")
  case True
  have "uint (big_Uint64 r) = r" using True assms uint_bounded [of h] by (simp add: uint_big_Uint64)
  then have "uint (big_Uint64 r - 1) = r - 1" using True uint_sub_lem [of 1 "big_Uint64 r"] by simp
  then show ?thesis using True assms by (simp add: word_less_def big_Sign_def)
qed (simp add: big_Sign_def)

lemma newCompatError_below:
  assumes "isForked s (Some (uint h)) \<or> isForked n (Some (uint h))"
  shows "RewindTo (newCompatError w s n) < h \<or> RewindTo (newCompatError w s n) = 0"
proof -
  define rew where "rew = (case s of None \<Rightarrow> n | Some a \<Rightarrow> (case n of None \<Rightarrow> s | Some b \<Rightarrow> if big_Cmp a b < 0 then s else n))"
  have "\<exists>r. rew = Some r \<and> r \<le> uint h"
    using assms by (cases s; cases n) (auto simp: rew_def isForked_Some big_Cmp_iff)
  then obtain r where r: "rew = Some r" "r \<le> uint h" by blast
  then show ?thesis using rewind_below [OF r(2)]
    by (simp add: newCompatError_def Let_def flip: rew_def)
qed

lemma checkCompatible_cases:
  assumes "checkCompatible c newcfg head = Some err"
  shows "\<exists>w s n. err = newCompatError w s n \<and> (isForked s head \<or> isForked n head)"
  using assms unfolding checkCompatible_def isForkIncompatible_def IsDAOFork_def IsEIP158_def
  by (simp split: if_split_asm) blast+

lemma checkCompatible_below:
  assumes "checkCompatible c newcfg (Some (uint h)) = Some err"
  shows "RewindTo err < h \<or> RewindTo err = 0"
proof -
  obtain w s n where "err = newCompatError w s n" "isForked s (Some (uint h)) \<or> isForked n (Some (uint h))"
    using checkCompatible_cases [OF assms] by blast
  then show ?thesis using newCompatError_below by simp
qed

function CheckCompatible_loop ::
  "ChainConfig \<Rightarrow> ChainConfig \<Rightarrow> ConfigCompatError option \<Rightarrow> u64 \<Rightarrow> ConfigCompatError option" where
  "CheckCompatible_loop c newcfg lasterr bhead =
     (case checkCompatible c newcfg (Some (uint bhead)) of
        None \<Rightarrow> lasterr
      | Some err \<Rightarrow>
          if (case lasterr of None \<Rightarrow> False | Some l \<Rightarrow> RewindTo err = RewindTo l) then lasterr
          else CheckCompatible_loop c newcfg (Some err) (RewindTo err))"
  by pat_completeness auto

text \<open>The head goes down to the conflict; at the genesis block the loop stops after one more round.\<close>

termination
proof (relation "measures [\<lambda>(c, newcfg, lasterr, bhead). unat bhead,
    \<lambda>(c, newcfg, lasterr, bhead). if map_option RewindTo lasterr = Some bhead then 0 else 1]", simp)
  fix c newcfg :: ChainConfig and lasterr :: "ConfigCompatError option" and bhead :: u64 and err
  assume e: "checkCompatible c newcfg (Some (uint bhead)) = Some err"
    and n: "\<not> (case lasterr of None \<Rightarrow> False | Some l \<Rightarrow> RewindTo err = RewindTo l)"
  from checkCompatible_below [OF e]
  show "((c, newcfg, Some err, RewindTo err), (c, newcfg, lasterr, bhead)) \<in>
    measures [\<lambda>(c, newcfg, lasterr, bhead). unat bhead,
      \<lambda>(c, newcfg, lasterr, bhead). if map_option RewindTo lasterr = Some bhead then 0 else 1]"
  proof
    assume "RewindTo err < bhead"
    then show ?thesis by (simp add: word_less_nat_alt)
  next
    assume z: "RewindTo err = 0"
    show ?thesis
    proof (cases "bhead = 0")
      case True
      then show ?thesis using z n by (auto split: option.splits)
    next
      case False
      then show ?thesis using z by (simp add: unat_gt_0)
    qed
  qed
qed

declare CheckCompatible_loop.simps [simp del]

definition CheckCompatible :: "ChainConfig \<Rightarrow> ChainConfig \<Rightarrow> u64 \<Rightarrow> ConfigCompatError option" where
  "CheckCompatible c newcfg height = CheckCompatible_loop c newcfg None height"

lemma CheckCompatible_loop_Some: "lasterr \<noteq> None \<Longrightarrow> CheckCompatible_loop c newcfg lasterr bhead \<noteq> None"
proof (induction c newcfg lasterr bhead rule: CheckCompatible_loop.induct)
  case (1 c newcfg lasterr bhead)
  then show ?case
    by (cases "checkCompatible c newcfg (Some (uint bhead))")
      (auto simp: CheckCompatible_loop.simps [of c newcfg lasterr])
qed

lemma CheckCompatible_loop_fix:
  assumes "CheckCompatible_loop c newcfg lasterr bhead = Some e" and "\<forall>l. lasterr = Some l \<longrightarrow> RewindTo l = bhead"
  shows "checkCompatible c newcfg (Some (uint (RewindTo e))) = None \<or> RewindTo e = 0"
  using assms
proof (induction c newcfg lasterr bhead rule: CheckCompatible_loop.induct)
  case (1 c newcfg lasterr bhead)
  show ?case
  proof (cases "checkCompatible c newcfg (Some (uint bhead))")
    case None
    then show ?thesis using "1.prems" by (simp add: CheckCompatible_loop.simps [of c newcfg lasterr])
  next
    case (Some err)
    show ?thesis
    proof (cases "case lasterr of None \<Rightarrow> False | Some l \<Rightarrow> RewindTo err = RewindTo l")
      case True
      then have "lasterr = Some e" "RewindTo err = RewindTo e"
        using "1.prems"(1) Some by (auto simp: CheckCompatible_loop.simps [of c newcfg lasterr] split: option.splits)
      then show ?thesis using checkCompatible_below [OF Some] "1.prems"(2) by auto
    next
      case False
      then have "CheckCompatible_loop c newcfg (Some err) (RewindTo err) = Some e"
        using "1.prems"(1) Some by (simp add: CheckCompatible_loop.simps [of c newcfg lasterr])
      then show ?thesis by (rule "1.IH" [OF Some False]) simp
    qed
  qed
qed


end
