(* ===== verification/Evm_Machine.thy ===== *)
theory Evm_Machine
  imports State_Spec Params
begin

unbundle bit_operations_syntax

text \<open>
  The machine state of the EVM (\<open>core/vm\<close>): stack (\<open>stack.go\<close>, the top is the head of the list),
  memory (\<open>memory.go\<close>), the contract being run (\<open>contract.go\<close>), jump destination analysis
  (\<open>analysis.go\<close>), helpers (\<open>common.go\<close>), call gas (\<open>gas.go\<close>) and the memory and stack
  requirements of the instructions (\<open>memory_table.go\<close>, \<open>stack_table.go\<close>). Every big integer on the
  stack is its own object (\<open>dup\<close> copies, the integer pool only recycles popped ones), so
  the stack is a list of values. The result of code that may fail is an \<open>outcome\<close>: a value, a
  Go run-time panic, or the fuel of the interpreter loop used up.
\<close>

section \<open>Outcomes and errors\<close>

datatype 'a outcome = Ret 'a | Panic | NoFuel

fun obind :: "'a outcome \<Rightarrow> ('a \<Rightarrow> 'b outcome) \<Rightarrow> 'b outcome" where
  "obind (Ret x) f = f x"
| "obind Panic f = Panic"
| "obind NoFuel f = NoFuel"

datatype vm_error =
    ErrOutOfGas | ErrCodeStoreOutOfGas | ErrDepth | ErrInsufficientBalance | ErrGasUintOverflow
  | ErrStackUnderflow nat nat | ErrStackLimit nat | ErrInvalidOpcode byte | ErrInvalidJump byte int

section \<open>stack.go, stack_table.go\<close>

type_synonym stack = "int list"

definition stack_require :: "nat \<Rightarrow> stack \<Rightarrow> vm_error option" where
  "stack_require n st = (if length st < n then Some (ErrStackUnderflow (length st) n) else None)"

definition makeStackFunc :: "nat \<Rightarrow> nat \<Rightarrow> stack \<Rightarrow> vm_error option" where
  "makeStackFunc pops pushes st =
     (case stack_require pops st of
        Some err \<Rightarrow> Some err
      | None \<Rightarrow>
          if int (length st) + int pushes - int pops > uint StackLimit then Some (ErrStackLimit (length st))
          else None)"

definition makeDupStackFunc :: "nat \<Rightarrow> stack \<Rightarrow> vm_error option" where
  "makeDupStackFunc n = makeStackFunc n (n + 1)"

definition makeSwapStackFunc :: "nat \<Rightarrow> stack \<Rightarrow> vm_error option" where
  "makeSwapStackFunc n = makeStackFunc n n"

definition stack_swap :: "nat \<Rightarrow> stack \<Rightarrow> stack outcome" where
  "stack_swap n st =
     (if 0 < n \<and> n \<le> length st then Ret (st[n - 1 := st ! 0, 0 := st ! (n - 1)]) else Panic)"

definition stack_dup :: "nat \<Rightarrow> stack \<Rightarrow> stack outcome" where
  "stack_dup n st = (if 0 < n \<and> n \<le> length st then Ret (st ! (n - 1) # st) else Panic)"

section \<open>memory.go\<close>

record Memory =
  store :: bytes
  lastGasCost :: u64
  lastReturn :: "bytes option"

definition NewMemory :: Memory where
  "NewMemory = \<lparr>store = [], lastGasCost = 0, lastReturn = None\<rparr>"

text \<open>Go's \<open>copy\<close> into the part of a slice that starts at \<open>lo\<close> and has \<open>n\<close> bytes.\<close>

definition copy_into :: "nat \<Rightarrow> nat \<Rightarrow> bytes \<Rightarrow> bytes \<Rightarrow> bytes" where
  "copy_into lo n v xs = take lo xs @ take n v @ drop (lo + min n (length v)) xs"

definition mem_Set :: "u64 \<Rightarrow> u64 \<Rightarrow> bytes \<Rightarrow> Memory \<Rightarrow> Memory outcome" where
  "mem_Set off sz value m =
     (if unat sz > length (store m) then Panic
      else if sz > 0 then
        (if unat off \<le> unat (off + sz) \<and> unat (off + sz) \<le> length (store m)
         then Ret (m\<lparr>store := copy_into (unat off) (unat sz) value (store m)\<rparr>) else Panic)
      else Ret m)"

definition mem_Resize :: "u64 \<Rightarrow> Memory \<Rightarrow> Memory" where
  "mem_Resize sz m =
     (if length (store m) < unat sz
      then m\<lparr>store := store m @ replicate (unat sz - length (store m)) 0\<rparr> else m)"

definition mem_Get :: "int \<Rightarrow> int \<Rightarrow> Memory \<Rightarrow> bytes option outcome" where
  "mem_Get off sz m =
     (if sz = 0 then Ret None
      else if int (length (store m)) > off then
        (if 0 \<le> off \<and> 0 \<le> sz \<and> off + sz \<le> int (length (store m))
         then Ret (Some (take (nat sz) (drop (nat off) (store m)))) else Panic)
      else Ret None)"

text \<open>\<open>GetPtr\<close> differs from \<open>Get\<close> in not copying; its only caller halts, so nothing writes through it.\<close>

definition mem_GetPtr :: "int \<Rightarrow> int \<Rightarrow> Memory \<Rightarrow> bytes option outcome" where
  "mem_GetPtr off sz m =
     (if sz = 0 then Ret None
      else if int (length (store m)) > off then
        (if 0 \<le> off \<and> 0 \<le> sz \<and> off + sz \<le> int (length (store m))
         then Ret (Some (take (nat sz) (drop (nat off) (store m)))) else Panic)
      else Ret None)"

definition mem_Len :: "Memory \<Rightarrow> nat" where
  "mem_Len m = length (store m)"

section \<open>common.go\<close>

definition calcMemSize :: "int \<Rightarrow> int \<Rightarrow> int" where
  "calcMemSize off l = (if big_Sign l = 0 then 0 else off + l)"

definition getData :: "bytes \<Rightarrow> int \<Rightarrow> int \<Rightarrow> bytes" where
  "getData d start sz =
     (let dlen = int (length d);
          s = BigMin start dlen;
          e = BigMin (s + sz) dlen
      in RightPadBytes (take (unat (big_Uint64 e) - unat (big_Uint64 s)) (drop (unat (big_Uint64 s)) d))
           (nat (sint (big_Uint64 sz))))"

definition bigUint64 :: "int \<Rightarrow> u64 \<times> bool" where
  "bigUint64 v = (big_Uint64 v, BitLen v > 64)"

definition toWordSize :: "u64 \<Rightarrow> u64" where
  "toWordSize sz = (if sz > -1 - 31 then -1 div 32 + 1 else (sz + 31) div 32)"

fun allZero :: "bytes \<Rightarrow> bool" where
  "allZero [] = True"
| "allZero (b # bs) = (if b \<noteq> 0 then False else allZero bs)"

section \<open>gas.go\<close>

definition GasQuickStep :: u64 where [params]: "GasQuickStep = 2"
definition GasFastestStep :: u64 where [params]: "GasFastestStep = 3"
definition GasFastStep :: u64 where [params]: "GasFastStep = 5"
definition GasMidStep :: u64 where [params]: "GasMidStep = 8"
definition GasSlowStep :: u64 where [params]: "GasSlowStep = 10"
definition GasExtStep :: u64 where [params]: "GasExtStep = 20"

definition callGas :: "GasTable \<Rightarrow> u64 \<Rightarrow> u64 \<Rightarrow> int \<Rightarrow> vm_error + u64" where
  "callGas gasTable availableGas base callCost =
     (let avail = availableGas - base;
          gas = avail - avail div 64
      in if CreateBySuicide gasTable > 0 \<and> (BitLen callCost > 64 \<or> gas < big_Uint64 callCost) then Inr gas
         else if BitLen callCost > 64 then Inl ErrGasUintOverflow
         else Inr (big_Uint64 callCost))"

section \<open>memory_table.go\<close>

text \<open>\<open>None\<close> is an index out of range in \<open>Back\<close>; the stack has been validated before.\<close>

definition Back :: "stack \<Rightarrow> nat \<Rightarrow> int option" where
  "Back st n = (if n < length st then Some (st ! n) else None)"

definition back2 :: "(int \<Rightarrow> int \<Rightarrow> 'a) \<Rightarrow> stack \<Rightarrow> nat \<Rightarrow> nat \<Rightarrow> 'a option" where
  "back2 f st i j =
     (case Back st i of None \<Rightarrow> None
      | Some x \<Rightarrow> (case Back st j of None \<Rightarrow> None | Some y \<Rightarrow> Some (f x y)))"

definition memorySha3 :: "stack \<Rightarrow> int option" where
  "memorySha3 st = back2 calcMemSize st 0 1"

definition memoryCalldataCopy :: "stack \<Rightarrow> int option" where
  "memoryCalldataCopy st = back2 calcMemSize st 0 2"

definition memoryCodeCopy :: "stack \<Rightarrow> int option" where
  "memoryCodeCopy st = back2 calcMemSize st 0 2"

definition memoryExtCodeCopy :: "stack \<Rightarrow> int option" where
  "memoryExtCodeCopy st = back2 calcMemSize st 1 3"

definition memoryMLoad :: "stack \<Rightarrow> int option" where
  "memoryMLoad st = map_option (\<lambda>x. calcMemSize x 32) (Back st 0)"

definition memoryMStore8 :: "stack \<Rightarrow> int option" where
  "memoryMStore8 st = map_option (\<lambda>x. calcMemSize x 1) (Back st 0)"

definition memoryMStore :: "stack \<Rightarrow> int option" where
  "memoryMStore st = map_option (\<lambda>x. calcMemSize x 32) (Back st 0)"

definition memoryCreate :: "stack \<Rightarrow> int option" where
  "memoryCreate st = back2 calcMemSize st 1 2"

definition max_option :: "int option \<Rightarrow> int option \<Rightarrow> int option" where
  "max_option x y =
     (case x of None \<Rightarrow> None | Some a \<Rightarrow> (case y of None \<Rightarrow> None | Some b \<Rightarrow> Some (BigMax a b)))"

definition memoryCall :: "stack \<Rightarrow> int option" where
  "memoryCall st = max_option (back2 calcMemSize st 5 6) (back2 calcMemSize st 3 4)"

definition memoryCallCode :: "stack \<Rightarrow> int option" where
  "memoryCallCode st = max_option (back2 calcMemSize st 5 6) (back2 calcMemSize st 3 4)"

definition memoryDelegateCall :: "stack \<Rightarrow> int option" where
  "memoryDelegateCall st = max_option (back2 calcMemSize st 4 5) (back2 calcMemSize st 2 3)"

definition memoryReturn :: "stack \<Rightarrow> int option" where
  "memoryReturn st = back2 calcMemSize st 0 1"

definition memoryLog :: "stack \<Rightarrow> int option" where
  "memoryLog st = back2 calcMemSize st 0 1"

section \<open>analysis.go\<close>

definition JUMPDEST :: byte where "JUMPDEST = 0x5b"
definition PUSH1 :: byte where "PUSH1 = 0x60"
definition PUSH32 :: byte where "PUSH32 = 0x7f"

function jumpdests_loop :: "bytes \<Rightarrow> bytes \<Rightarrow> nat \<Rightarrow> bytes" where
  "jumpdests_loop bs m pc =
     (if pc < length bs then
        let op = bs ! pc in
        if op = JUMPDEST then
          jumpdests_loop bs (m[pc div 8 := (m ! (pc div 8)) OR push_bit (pc mod 8) 1]) (Suc pc)
        else if PUSH1 \<le> op \<and> op \<le> PUSH32 then
          jumpdests_loop bs m (Suc (pc + (unat op - unat PUSH1 + 1)))
        else jumpdests_loop bs m (Suc pc)
      else m)"
  by pat_completeness auto
termination by (relation "measure (\<lambda>(bs, m, pc). length bs - pc)") auto

declare jumpdests_loop.simps [simp del]

definition jumpdests :: "bytes \<Rightarrow> bytes" where
  "jumpdests bs = jumpdests_loop bs (replicate (length bs div 8 + 1) 0) 0"

text \<open>The analyses are cached under the hash of the code; the cache is shared along the calls.\<close>

type_synonym destinations = "hash \<rightharpoonup> bytes"

definition destinations_has :: "hash \<Rightarrow> bytes \<Rightarrow> int \<Rightarrow> destinations \<Rightarrow> (bool \<times> destinations) outcome" where
  "destinations_has codehash bs dest d =
     (let udest = big_Uint64 dest in
      if BitLen dest \<ge> 63 \<or> unat udest \<ge> length bs then Ret (False, d)
      else
        let (m, d1) = (case d codehash of
                         Some m \<Rightarrow> (m, d)
                       | None \<Rightarrow> (jumpdests bs, d(codehash \<mapsto> jumpdests bs)))
        in if unat udest div 8 < length m
           then Ret ((m ! (unat udest div 8)) AND push_bit (unat udest mod 8) 1 \<noteq> 0, d1)
           else Panic)"

section \<open>contract.go\<close>

text \<open>The caller of a contract: an account, or a contract of which the callee reads the address
  and, when the call is delegated, the caller and the value.\<close>

datatype ContractRef = AccountRef address | ParentContract address address "int option"

fun ref_Address :: "ContractRef \<Rightarrow> address" where
  "ref_Address (AccountRef a) = a"
| "ref_Address (ParentContract a c v) = a"

record Contract =
  CallerAddress :: address
  caller :: ContractRef
  self :: address
  Code :: bytes
  ct_CodeHash :: hash
  CodeAddr :: "address option"
  Input :: bytes
  Gas :: u64
  ct_value :: "int option"
  DelegateCall_flag :: bool

definition NewContract :: "ContractRef \<Rightarrow> address \<Rightarrow> int option \<Rightarrow> u64 \<Rightarrow> Contract" where
  "NewContract cl object value gas =
     \<lparr>CallerAddress = ref_Address cl, caller = cl, self = object, Code = [], ct_CodeHash = 0, CodeAddr = None,
      Input = [], Gas = gas, ct_value = value, DelegateCall_flag = False\<rparr>"

definition AsDelegate :: "Contract \<Rightarrow> Contract outcome" where
  "AsDelegate c =
     (case caller c of
        AccountRef _ \<Rightarrow> Panic
      | ParentContract _ pcaller pvalue \<Rightarrow>
          Ret (c\<lparr>DelegateCall_flag := True, CallerAddress := pcaller, ct_value := pvalue\<rparr>))"

definition GetByte :: "Contract \<Rightarrow> u64 \<Rightarrow> byte" where
  "GetByte c n = (if unat n < length (Code c) then Code c ! unat n else 0)"

definition GetOp :: "Contract \<Rightarrow> u64 \<Rightarrow> byte" where
  "GetOp c n = GetByte c n"

definition UseGas :: "u64 \<Rightarrow> Contract \<Rightarrow> bool \<times> Contract" where
  "UseGas gas c = (if Gas c < gas then (False, c) else (True, c\<lparr>Gas := Gas c - gas\<rparr>))"

definition SetCallCode :: "address \<Rightarrow> hash \<Rightarrow> bytes \<Rightarrow> Contract \<Rightarrow> Contract" where
  "SetCallCode addr h bs c = c\<lparr>Code := bs, ct_CodeHash := h, CodeAddr := Some addr\<rparr>"

definition contract_ref :: "Contract \<Rightarrow> ContractRef" where
  "contract_ref c = ParentContract (self c) (CallerAddress c) (ct_value c)"

section \<open>The machine\<close>

text \<open>What does not change while a transaction runs: the block context, the configuration, the
  cryptographic functions, and at which rounds of the interpreter loop \<open>Cancel\<close> has been called.\<close>

record Context =
  GetHash :: "u64 \<Rightarrow> hash"
  Origin :: address
  GasPrice :: int
  Coinbase :: address
  GasLimit :: int
  BlockNumber :: int
  Time :: int
  Difficulty :: int

record vm_Config =
  NoRecursion :: bool
  DisableGasMetering :: bool
  EnablePreimageRecording :: bool

record evm_env =
  ctxt :: Context
  chainConfig :: ChainConfig
  vmConfig :: vm_Config
  hashing :: crypto
  sha256_Sum256 :: "bytes \<Rightarrow> bytes"
  ripemd160_Sum :: "bytes \<Rightarrow> bytes"
  crypto_Ecrecover :: "bytes \<Rightarrow> bytes \<Rightarrow> bytes option"
  cancelled :: "nat \<Rightarrow> bool"

record evm =
  sdb :: stateDB
  depth :: nat
  dests :: destinations
  rounds :: nat

record frame =
  pc :: u64
  contract :: Contract
  mem :: Memory
  stk :: stack

type_synonym exec_result = "(evm \<times> frame \<times> bytes option \<times> vm_error option) outcome"

definition block :: "evm_env \<Rightarrow> int option" where
  "block env = Some (BlockNumber (ctxt env))"

end
