(* ===== verification/Evm_Instr.thy ===== *)
theory Evm_Instr
  imports Evm_Gas
begin

unbundle bit_operations_syntax

text \<open>
  The instructions (\<open>core/vm/instructions.go\<close>), one definition per function of the source. An
  instruction takes the machine and the frame and returns them with its return data and
  error; the calls into other contracts are the record \<open>subcalls\<close>, which the interpreter
  closes over. Popping an empty stack, an index or a slice out of range, and the
  dereference of a nil integer are \<open>Panic\<close>. The lemmas show that the arithmetic and
  bitwise instructions are the operations on 256-bit words.
\<close>

record subcalls =
  sc_Call :: "evm \<Rightarrow> ContractRef \<Rightarrow> address \<Rightarrow> bytes \<Rightarrow> u64 \<Rightarrow> int \<Rightarrow> (evm \<times> bytes option \<times> u64 \<times> vm_error option) outcome"
  sc_CallCode :: "evm \<Rightarrow> ContractRef \<Rightarrow> address \<Rightarrow> bytes \<Rightarrow> u64 \<Rightarrow> int \<Rightarrow> (evm \<times> bytes option \<times> u64 \<times> vm_error option) outcome"
  sc_DelegateCall :: "evm \<Rightarrow> ContractRef \<Rightarrow> address \<Rightarrow> bytes \<Rightarrow> u64 \<Rightarrow> (evm \<times> bytes option \<times> u64 \<times> vm_error option) outcome"
  sc_Create :: "evm \<Rightarrow> ContractRef \<Rightarrow> bytes \<Rightarrow> u64 \<Rightarrow> int \<Rightarrow> (evm \<times> bytes option \<times> address \<times> u64 \<times> vm_error option) outcome"

type_synonym executionFunc = "subcalls \<Rightarrow> evm_env \<Rightarrow> evm \<Rightarrow> frame \<Rightarrow> exec_result"

text \<open>The common ending: no return data, no error, a new stack.\<close>

definition finish :: "evm \<Rightarrow> frame \<Rightarrow> exec_result" where
  "finish w f = Ret (w, f, None, None)"

definition pure1 :: "(int \<Rightarrow> int) \<Rightarrow> evm \<Rightarrow> frame \<Rightarrow> exec_result" where
  "pure1 h w f = (case stk f of x # st \<Rightarrow> finish w (f\<lparr>stk := h x # st\<rparr>) | _ \<Rightarrow> Panic)"

definition pure2 :: "(int \<Rightarrow> int \<Rightarrow> int) \<Rightarrow> evm \<Rightarrow> frame \<Rightarrow> exec_result" where
  "pure2 h w f = (case stk f of x # y # st \<Rightarrow> finish w (f\<lparr>stk := h x y # st\<rparr>) | _ \<Rightarrow> Panic)"

definition pure3 :: "(int \<Rightarrow> int \<Rightarrow> int \<Rightarrow> int) \<Rightarrow> evm \<Rightarrow> frame \<Rightarrow> exec_result" where
  "pure3 h w f = (case stk f of x # y # z # st \<Rightarrow> finish w (f\<lparr>stk := h x y z # st\<rparr>) | _ \<Rightarrow> Panic)"

definition push :: "int \<Rightarrow> evm \<Rightarrow> frame \<Rightarrow> exec_result" where
  "push x w f = finish w (f\<lparr>stk := x # stk f\<rparr>)"

text \<open>\<open>(*big.Int).Div\<close> and \<open>Mod\<close> are Euclidean.\<close>

definition big_Div :: "int \<Rightarrow> int \<Rightarrow> int" where
  "big_Div x y = (x div \<bar>y\<bar>) * sgn y"

definition big_Mod :: "int \<Rightarrow> int \<Rightarrow> int" where
  "big_Mod x y = x mod \<bar>y\<bar>"

section \<open>Arithmetic and comparison\<close>

definition opAdd :: executionFunc where
  "opAdd sc env w f =
     pure2 (\<lambda>x y. U256 (x + y)) w f"

definition opSub :: executionFunc where
  "opSub sc env w f =
     pure2 (\<lambda>x y. U256 (x - y)) w f"

definition opMul :: executionFunc where
  "opMul sc env w f =
     pure2 (\<lambda>x y. U256 (x * y)) w f"

definition opDiv :: executionFunc where
  "opDiv sc env w f =
     pure2 (\<lambda>x y. if big_Sign y \<noteq> 0 then U256 (big_Div x y) else 0) w f"

definition opSdiv :: executionFunc where
  "opSdiv sc env w f =
     pure2 (\<lambda>a b.
       let x = S256 a; y = S256 b in
       if big_Sign y = 0 then 0
       else
         let n = (if big_Sign (x * y) < 0 then -1 else 1);
             res = big_Div \<bar>x\<bar> \<bar>y\<bar>
         in U256 (res * n)) w f"

definition opMod :: executionFunc where
  "opMod sc env w f =
     pure2 (\<lambda>x y. if big_Sign y = 0 then 0 else U256 (big_Mod x y)) w f"

definition opSmod :: executionFunc where
  "opSmod sc env w f =
     pure2 (\<lambda>a b.
       let x = S256 a; y = S256 b in
       if big_Sign y = 0 then 0
       else
         let n = (if big_Sign x < 0 then -1 else 1);
             res = big_Mod \<bar>x\<bar> \<bar>y\<bar>
         in U256 (res * n)) w f"

definition opExp :: executionFunc where
  "opExp sc env w f =
     pure2 (\<lambda>base exponent. fst (Exp base exponent)) w f"

definition opSignExtend :: executionFunc where
  "opSignExtend sc env w f =
     (case stk f of
        back # st \<Rightarrow>
          if big_Cmp back 31 < 0 then
            (case st of
               num # st2 \<Rightarrow>
                 let bt = unat (big_Uint64 back * 8 + 7);
                     mask = push_bit bt 1 - 1;
                     r = (if bit num bt then num OR NOT mask else num AND mask)
                 in finish w (f\<lparr>stk := U256 r # st2\<rparr>)
             | [] \<Rightarrow> Panic)
          else finish w (f\<lparr>stk := st\<rparr>)
      | [] \<Rightarrow> Panic)"

definition opNot :: executionFunc where
  "opNot sc env w f =
     pure1 (\<lambda>x. U256 (NOT x)) w f"

definition opLt :: executionFunc where
  "opLt sc env w f =
     pure2 (\<lambda>x y. if big_Cmp x y < 0 then 1 else 0) w f"

definition opGt :: executionFunc where
  "opGt sc env w f =
     pure2 (\<lambda>x y. if big_Cmp x y > 0 then 1 else 0) w f"

definition opSlt :: executionFunc where
  "opSlt sc env w f =
     pure2 (\<lambda>a b. let x = S256 a; y = S256 b in if big_Cmp x (S256 y) < 0 then 1 else 0) w f"

definition opSgt :: executionFunc where
  "opSgt sc env w f =
     pure2 (\<lambda>a b. let x = S256 a; y = S256 b in if big_Cmp x y > 0 then 1 else 0) w f"

definition opEq :: executionFunc where
  "opEq sc env w f =
     pure2 (\<lambda>x y. if big_Cmp x y = 0 then 1 else 0) w f"

definition opIszero :: executionFunc where
  "opIszero sc env w f =
     pure1 (\<lambda>x. if big_Sign x > 0 then 0 else 1) w f"

definition opAnd :: executionFunc where
  "opAnd sc env w f =
     pure2 (\<lambda>x y. x AND y) w f"

definition opOr :: executionFunc where
  "opOr sc env w f =
     pure2 (\<lambda>x y. x OR y) w f"

definition opXor :: executionFunc where
  "opXor sc env w f =
     pure2 (\<lambda>x y. x XOR y) w f"

definition opByte :: executionFunc where
  "opByte sc env w f =
     pure2 (\<lambda>th val. if big_Cmp th 32 < 0 then uint (Byte val 32 (nat (big_Int64 th))) else 0) w f"

definition opAddmod :: executionFunc where
  "opAddmod sc env w f =
     pure3 (\<lambda>x y z. if big_Cmp z 0 > 0 then U256 (big_Mod (x + y) z) else 0) w f"

definition opMulmod :: executionFunc where
  "opMulmod sc env w f =
     pure3 (\<lambda>x y z. if big_Cmp z 0 > 0 then U256 (big_Mod (x * y) z) else 0) w f"

section \<open>Hashing and environment\<close>

definition opSha3 :: executionFunc where
  "opSha3 sc env w f =
     (case stk f of
        off # sz # st \<Rightarrow>
          obind (mem_Get (big_Int64 off) (big_Int64 sz) (mem f)) (\<lambda>d.
            let h = keccak256 (hashing env) (bytes_of d);
                w1 = (if EnablePreimageRecording (vmConfig env)
                      then w\<lparr>sdb := AddPreimage (BytesToHash h) (bytes_of d) (sdb w)\<rparr> else w)
            in finish w1 (f\<lparr>stk := SetBytes h # st\<rparr>))
      | _ \<Rightarrow> Panic)"

definition opAddress :: executionFunc where
  "opAddress sc env w f =
     push (Address_Big (self (contract f))) w f"

definition opBalance :: executionFunc where
  "opBalance sc env w f =
     (case stk f of
        a # st \<Rightarrow>
          let (b, s1) = GetBalance (hashing env) (BigToAddress a) (sdb w)
          in finish (w\<lparr>sdb := s1\<rparr>) (f\<lparr>stk := b # st\<rparr>)
      | _ \<Rightarrow> Panic)"

definition opOrigin :: executionFunc where
  "opOrigin sc env w f =
     push (Address_Big (Origin (ctxt env))) w f"

definition opCaller :: executionFunc where
  "opCaller sc env w f =
     push (Address_Big (CallerAddress (contract f))) w f"

definition opCallValue :: executionFunc where
  "opCallValue sc env w f =
     (case ct_value (contract f) of None \<Rightarrow> Panic | Some v \<Rightarrow> push v w f)"

definition opCalldataLoad :: executionFunc where
  "opCalldataLoad sc env w f =
     pure1 (\<lambda>start. SetBytes (getData (Input (contract f)) start 32)) w f"

definition opCalldataSize :: executionFunc where
  "opCalldataSize sc env w f =
     push (int (length (Input (contract f)))) w f"

text \<open>The copy instructions write a padded part of their source into memory.\<close>

definition copy_to_memory :: "int \<Rightarrow> int \<Rightarrow> int \<Rightarrow> bytes \<Rightarrow> stack \<Rightarrow> evm \<Rightarrow> frame \<Rightarrow> exec_result" where
  "copy_to_memory mOff cOff l src st w f =
     obind (mem_Set (big_Uint64 mOff) (big_Uint64 l) (getData src cOff l) (mem f)) (\<lambda>m.
       finish w (f\<lparr>stk := st, mem := m\<rparr>))"

definition opCalldataCopy :: executionFunc where
  "opCalldataCopy sc env w f =
     (case stk f of
        mOff # cOff # l # st \<Rightarrow> copy_to_memory mOff cOff l (Input (contract f)) st w f
      | _ \<Rightarrow> Panic)"

definition opExtCodeSize :: executionFunc where
  "opExtCodeSize sc env w f =
     (case stk f of
        a # st \<Rightarrow>
          let (n, s1) = GetCodeSize (hashing env) (BigToAddress a) (sdb w)
          in finish (w\<lparr>sdb := s1\<rparr>) (f\<lparr>stk := int n # st\<rparr>)
      | _ \<Rightarrow> Panic)"

definition opCodeSize :: executionFunc where
  "opCodeSize sc env w f =
     push (int (length (Code (contract f)))) w f"

definition opCodeCopy :: executionFunc where
  "opCodeCopy sc env w f =
     (case stk f of
        mOff # cOff # l # st \<Rightarrow> copy_to_memory mOff cOff l (Code (contract f)) st w f
      | _ \<Rightarrow> Panic)"

definition opExtCodeCopy :: executionFunc where
  "opExtCodeCopy sc env w f =
     (case stk f of
        a # mOff # cOff # l # st \<Rightarrow>
          let (c, s1) = GetCode (hashing env) (BigToAddress a) (sdb w)
          in copy_to_memory mOff cOff l (bytes_of c) st (w\<lparr>sdb := s1\<rparr>) f
      | _ \<Rightarrow> Panic)"

definition opGasprice :: executionFunc where
  "opGasprice sc env w f =
     push (GasPrice (ctxt env)) w f"

definition opBlockhash :: executionFunc where
  "opBlockhash sc env w f =
     pure1 (\<lambda>num.
       let n = BlockNumber (ctxt env) - 257 in
       if big_Cmp num n > 0 \<and> big_Cmp num (BlockNumber (ctxt env)) < 0
       then Hash_Big (GetHash (ctxt env) (big_Uint64 num)) else 0) w f"

definition opCoinbase :: executionFunc where
  "opCoinbase sc env w f =
     push (Address_Big (Coinbase (ctxt env))) w f"

definition opTimestamp :: executionFunc where
  "opTimestamp sc env w f =
     push (U256 (Time (ctxt env))) w f"

definition opNumber :: executionFunc where
  "opNumber sc env w f =
     push (U256 (BlockNumber (ctxt env))) w f"

definition opDifficulty :: executionFunc where
  "opDifficulty sc env w f =
     push (U256 (Difficulty (ctxt env))) w f"

definition opGasLimit :: executionFunc where
  "opGasLimit sc env w f =
     push (U256 (GasLimit (ctxt env))) w f"

section \<open>Stack, memory, storage and jumps\<close>

definition opPop :: executionFunc where
  "opPop sc env w f =
     (case stk f of x # st \<Rightarrow> finish w (f\<lparr>stk := st\<rparr>) | _ \<Rightarrow> Panic)"

definition opMload :: executionFunc where
  "opMload sc env w f =
     (case stk f of
        off # st \<Rightarrow>
          obind (mem_Get (big_Int64 off) 32 (mem f)) (\<lambda>d. finish w (f\<lparr>stk := SetBytes (bytes_of d) # st\<rparr>))
      | _ \<Rightarrow> Panic)"

definition opMstore :: executionFunc where
  "opMstore sc env w f =
     (case stk f of
        mStart # val # st \<Rightarrow>
          obind (mem_Set (big_Uint64 mStart) 32 (PaddedBigBytes val 32) (mem f)) (\<lambda>m.
            finish w (f\<lparr>stk := st, mem := m\<rparr>))
      | _ \<Rightarrow> Panic)"

definition opMstore8 :: executionFunc where
  "opMstore8 sc env w f =
     (case stk f of
        o1 # v1 # st \<Rightarrow>
          let off = big_Int64 o1; val = big_Int64 v1; bs = store (mem f) in
          if 0 \<le> off \<and> off < int (length bs)
          then finish w (f\<lparr>stk := st, mem := (mem f)\<lparr>store := bs[nat off := word_of_int (val AND 0xff)]\<rparr>\<rparr>)
          else Panic
      | _ \<Rightarrow> Panic)"

definition opSload :: executionFunc where
  "opSload sc env w f =
     (case stk f of
        x # st \<Rightarrow>
          let (val, s1) = GetState (hashing env) (self (contract f)) (BigToHash x) (sdb w)
          in finish (w\<lparr>sdb := s1\<rparr>) (f\<lparr>stk := Hash_Big val # st\<rparr>)
      | _ \<Rightarrow> Panic)"

definition opSstore :: executionFunc where
  "opSstore sc env w f =
     (case stk f of
        x # val # st \<Rightarrow>
          finish (w\<lparr>sdb := SetState (hashing env) (self (contract f)) (BigToHash x) (BigToHash val) (sdb w)\<rparr>)
            (f\<lparr>stk := st\<rparr>)
      | _ \<Rightarrow> Panic)"

definition jump_to :: "int \<Rightarrow> stack \<Rightarrow> evm \<Rightarrow> frame \<Rightarrow> exec_result" where
  "jump_to pos st w f =
     obind (destinations_has (ct_CodeHash (contract f)) (Code (contract f)) pos (dests w)) (\<lambda>(valid, d1).
       if \<not> valid
       then Ret (w\<lparr>dests := d1\<rparr>, f\<lparr>stk := st\<rparr>, None, Some (ErrInvalidJump (GetOp (contract f) (big_Uint64 pos)) pos))
       else finish (w\<lparr>dests := d1\<rparr>) (f\<lparr>stk := st, pc := big_Uint64 pos\<rparr>))"

definition opJump :: executionFunc where
  "opJump sc env w f =
     (case stk f of pos # st \<Rightarrow> jump_to pos st w f | _ \<Rightarrow> Panic)"

definition opJumpi :: executionFunc where
  "opJumpi sc env w f =
     (case stk f of
        pos # cond # st \<Rightarrow>
          if big_Sign cond \<noteq> 0 then jump_to pos st w f
          else finish w (f\<lparr>stk := st, pc := pc f + 1\<rparr>)
      | _ \<Rightarrow> Panic)"

definition opJumpdest :: executionFunc where
  "opJumpdest sc env w f =
     finish w f"

definition opPc :: executionFunc where
  "opPc sc env w f =
     push (uint (pc f)) w f"

definition opMsize :: executionFunc where
  "opMsize sc env w f =
     push (int (mem_Len (mem f))) w f"

definition opGas :: executionFunc where
  "opGas sc env w f =
     push (uint (Gas (contract f))) w f"

section \<open>Calls\<close>

definition opCreate :: executionFunc where
  "opCreate sc env w f =
     (case stk f of
        value # off # sz # st \<Rightarrow>
          obind (mem_Get (big_Int64 off) (big_Int64 sz) (mem f)) (\<lambda>input.
            let g = Gas (contract f);
                gas = (if IsEIP150 (chainConfig env) (block env) then g - g div 64 else g);
                c1 = snd (UseGas gas (contract f))
            in obind (sc_Create sc w (contract_ref c1) (bytes_of input) gas value) (\<lambda>(w1, _, addr, returnGas, suberr).
                 let top = (if IsHomestead (chainConfig env) (block env) \<and> suberr = Some ErrCodeStoreOutOfGas then 0
                            else if suberr \<noteq> None \<and> suberr \<noteq> Some ErrCodeStoreOutOfGas then 0
                            else Address_Big addr)
                 in finish w1 (f\<lparr>stk := top # st, contract := c1\<lparr>Gas := Gas c1 + returnGas\<rparr>\<rparr>)))
      | _ \<Rightarrow> Panic)"

text \<open>What the call instructions do with the result of the call.\<close>

definition after_call :: "int \<Rightarrow> int \<Rightarrow> stack \<Rightarrow> frame \<Rightarrow> evm \<times> bytes option \<times> u64 \<times> vm_error option \<Rightarrow> exec_result" where
  "after_call retOffset retSize st f =
     (\<lambda>(w1, ret, returnGas, err).
        let c = contract f; c1 = c\<lparr>Gas := Gas c + returnGas\<rparr> in
        if err \<noteq> None then Ret (w1, f\<lparr>stk := 0 # st, contract := c1\<rparr>, ret, None)
        else
          obind (mem_Set (big_Uint64 retOffset) (big_Uint64 retSize) (bytes_of ret) (mem f)) (\<lambda>m.
            Ret (w1, f\<lparr>stk := 1 # st, mem := m, contract := c1\<rparr>, ret, None)))"

definition opCall :: executionFunc where
  "opCall sc env w f =
     (case stk f of
        g # addr # v # inOffset # inSize # retOffset # retSize # st \<Rightarrow>
          obind (mem_Get (big_Int64 inOffset) (big_Int64 inSize) (mem f)) (\<lambda>args.
            let value = U256 v;
                gas = (if big_Sign value \<noteq> 0 then big_Uint64 g + CallStipend else big_Uint64 g)
            in obind (sc_Call sc w (contract_ref (contract f)) (BigToAddress addr) (bytes_of args) gas value)
                 (after_call retOffset retSize st f))
      | _ \<Rightarrow> Panic)"

definition opCallCode :: executionFunc where
  "opCallCode sc env w f =
     (case stk f of
        g # addr # v # inOffset # inSize # retOffset # retSize # st \<Rightarrow>
          obind (mem_Get (big_Int64 inOffset) (big_Int64 inSize) (mem f)) (\<lambda>args.
            let value = U256 v;
                gas = (if big_Sign value \<noteq> 0 then big_Uint64 g + CallStipend else big_Uint64 g)
            in obind (sc_CallCode sc w (contract_ref (contract f)) (BigToAddress addr) (bytes_of args) gas value)
                 (after_call retOffset retSize st f))
      | _ \<Rightarrow> Panic)"

definition opDelegateCall :: executionFunc where
  "opDelegateCall sc env w f =
     (case stk f of
        g # to # inOffset # inSize # outOffset # outSize # st \<Rightarrow>
          obind (mem_Get (big_Int64 inOffset) (big_Int64 inSize) (mem f)) (\<lambda>args.
            obind (sc_DelegateCall sc w (contract_ref (contract f)) (BigToAddress to) (bytes_of args) (big_Uint64 g))
              (after_call outOffset outSize st f))
      | _ \<Rightarrow> Panic)"

definition opReturn :: executionFunc where
  "opReturn sc env w f =
     (case stk f of
        off # sz # st \<Rightarrow>
          obind (mem_GetPtr (big_Int64 off) (big_Int64 sz) (mem f)) (\<lambda>ret. Ret (w, f\<lparr>stk := st\<rparr>, ret, None))
      | _ \<Rightarrow> Panic)"

definition opStop :: executionFunc where
  "opStop sc env w f =
     finish w f"

definition opSuicide :: executionFunc where
  "opSuicide sc env w f =
     (case stk f of
        a # st \<Rightarrow>
          let E = hashing env; this = self (contract f);
              (balance, s1) = GetBalance E this (sdb w);
              s2 = AddBalance E (BigToAddress a) balance s1;
              s3 = snd (Suicide E this s2)
          in finish (w\<lparr>sdb := s3\<rparr>) (f\<lparr>stk := st\<rparr>)
      | _ \<Rightarrow> Panic)"

section \<open>Instruction families\<close>

definition makeLog :: "nat \<Rightarrow> executionFunc" where
  "makeLog n sc env w f =
     (case stk f of
        mStart # mSize # st \<Rightarrow>
          if length st < n then Panic
          else
            obind (mem_Get (big_Int64 mStart) (big_Int64 mSize) (mem f)) (\<lambda>d.
              let l = \<lparr>log_address = self (contract f), log_topics = map BigToHash (take n st), log_data = bytes_of d,
                       log_block = big_Uint64 (BlockNumber (ctxt env)), log_txhash = 0, log_txindex = 0,
                       log_bhash = 0, log_index = 0\<rparr>
              in finish (w\<lparr>sdb := AddLog l (sdb w)\<rparr>) (f\<lparr>stk := drop n st\<rparr>))
      | _ \<Rightarrow> Panic)"

definition makePush :: "u64 \<Rightarrow> nat \<Rightarrow> executionFunc" where
  "makePush n pushByteSize sc env w f =
     (let bs = Code (contract f);
          codeLen = int (length bs);
          startMin = (if sint (pc f + 1) < codeLen then sint (pc f + 1) else codeLen);
          endMin = (if startMin + int pushByteSize < codeLen then startMin + int pushByteSize else codeLen)
      in if startMin < 0 then Panic
         else finish w (f\<lparr>stk := SetBytes (RightPadBytes (take (nat endMin - nat startMin) (drop (nat startMin) bs)) pushByteSize)
                # stk f, pc := pc f + n\<rparr>))"

definition makeDup :: "nat \<Rightarrow> executionFunc" where
  "makeDup n sc env w f = obind (stack_dup n (stk f)) (\<lambda>st. finish w (f\<lparr>stk := st\<rparr>))"

definition makeSwap :: "nat \<Rightarrow> executionFunc" where
  "makeSwap n sc env w f = obind (stack_swap (n + 1) (stk f)) (\<lambda>st. finish w (f\<lparr>stk := st\<rparr>))"

end
