(* ===== verification/Evm_Table.thy ===== *)
theory Evm_Table
  imports Evm_Instr
begin

text \<open>
  The opcodes with their names (\<open>core/vm/opcodes.go\<close>) and the instruction sets
  (\<open>core/vm/jump_table.go\<close>). The table of the source is an array indexed by the opcode; here it
  is a list of entries in the groups of the source, with \<open>PUSH\<close>, \<open>DUP\<close> and \<open>SWAP\<close> by number.
\<close>

named_theorems opcodes \<open>values of opcodes\<close>

declare JUMPDEST_def [opcodes] PUSH1_def [opcodes] PUSH32_def [opcodes]

section \<open>opcodes.go\<close>

definition STOP :: byte where [opcodes]: "STOP = 0x00"
definition ADD :: byte where [opcodes]: "ADD = 0x01"
definition MUL :: byte where [opcodes]: "MUL = 0x02"
definition SUB :: byte where [opcodes]: "SUB = 0x03"
definition DIV :: byte where [opcodes]: "DIV = 0x04"
definition SDIV :: byte where [opcodes]: "SDIV = 0x05"
definition MOD :: byte where [opcodes]: "MOD = 0x06"
definition SMOD :: byte where [opcodes]: "SMOD = 0x07"
definition ADDMOD :: byte where [opcodes]: "ADDMOD = 0x08"
definition MULMOD :: byte where [opcodes]: "MULMOD = 0x09"
definition EXP :: byte where [opcodes]: "EXP = 0x0a"
definition SIGNEXTEND :: byte where [opcodes]: "SIGNEXTEND = 0x0b"
definition LT :: byte where [opcodes]: "LT = 0x10"
definition GT :: byte where [opcodes]: "GT = 0x11"
definition SLT :: byte where [opcodes]: "SLT = 0x12"
definition SGT :: byte where [opcodes]: "SGT = 0x13"
definition EQ :: byte where [opcodes]: "EQ = 0x14"
definition ISZERO :: byte where [opcodes]: "ISZERO = 0x15"
definition AND_op :: byte where [opcodes]: "AND_op = 0x16"
definition OR_op :: byte where [opcodes]: "OR_op = 0x17"
definition XOR_op :: byte where [opcodes]: "XOR_op = 0x18"
definition NOT_op :: byte where [opcodes]: "NOT_op = 0x19"
definition BYTE :: byte where [opcodes]: "BYTE = 0x1a"
definition SHA3 :: byte where [opcodes]: "SHA3 = 0x20"
definition ADDRESS :: byte where [opcodes]: "ADDRESS = 0x30"
definition BALANCE :: byte where [opcodes]: "BALANCE = 0x31"
definition ORIGIN :: byte where [opcodes]: "ORIGIN = 0x32"
definition CALLER :: byte where [opcodes]: "CALLER = 0x33"
definition CALLVALUE :: byte where [opcodes]: "CALLVALUE = 0x34"
definition CALLDATALOAD :: byte where [opcodes]: "CALLDATALOAD = 0x35"
definition CALLDATASIZE :: byte where [opcodes]: "CALLDATASIZE = 0x36"
definition CALLDATACOPY :: byte where [opcodes]: "CALLDATACOPY = 0x37"
definition CODESIZE :: byte where [opcodes]: "CODESIZE = 0x38"
definition CODECOPY :: byte where [opcodes]: "CODECOPY = 0x39"
definition GASPRICE :: byte where [opcodes]: "GASPRICE = 0x3a"
definition EXTCODESIZE :: byte where [opcodes]: "EXTCODESIZE = 0x3b"
definition EXTCODECOPY :: byte where [opcodes]: "EXTCODECOPY = 0x3c"
definition BLOCKHASH :: byte where [opcodes]: "BLOCKHASH = 0x40"
definition COINBASE :: byte where [opcodes]: "COINBASE = 0x41"
definition TIMESTAMP :: byte where [opcodes]: "TIMESTAMP = 0x42"
definition NUMBER :: byte where [opcodes]: "NUMBER = 0x43"
definition DIFFICULTY :: byte where [opcodes]: "DIFFICULTY = 0x44"
definition GASLIMIT :: byte where [opcodes]: "GASLIMIT = 0x45"
definition POP :: byte where [opcodes]: "POP = 0x50"
definition MLOAD :: byte where [opcodes]: "MLOAD = 0x51"
definition MSTORE :: byte where [opcodes]: "MSTORE = 0x52"
definition MSTORE8 :: byte where [opcodes]: "MSTORE8 = 0x53"
definition SLOAD :: byte where [opcodes]: "SLOAD = 0x54"
definition SSTORE :: byte where [opcodes]: "SSTORE = 0x55"
definition JUMP :: byte where [opcodes]: "JUMP = 0x56"
definition JUMPI :: byte where [opcodes]: "JUMPI = 0x57"
definition PC :: byte where [opcodes]: "PC = 0x58"
definition MSIZE :: byte where [opcodes]: "MSIZE = 0x59"
definition GAS :: byte where [opcodes]: "GAS = 0x5a"
definition LOG0 :: byte where [opcodes]: "LOG0 = 0xa0"
definition LOG1 :: byte where [opcodes]: "LOG1 = 0xa1"
definition LOG2 :: byte where [opcodes]: "LOG2 = 0xa2"
definition LOG3 :: byte where [opcodes]: "LOG3 = 0xa3"
definition LOG4 :: byte where [opcodes]: "LOG4 = 0xa4"
definition PUSH :: byte where [opcodes]: "PUSH = 0xb0"
definition DUP :: byte where [opcodes]: "DUP = 0xb1"
definition SWAP :: byte where [opcodes]: "SWAP = 0xb2"
definition CREATE :: byte where [opcodes]: "CREATE = 0xf0"
definition CALL :: byte where [opcodes]: "CALL = 0xf1"
definition CALLCODE :: byte where [opcodes]: "CALLCODE = 0xf2"
definition RETURN :: byte where [opcodes]: "RETURN = 0xf3"
definition DELEGATECALL :: byte where [opcodes]: "DELEGATECALL = 0xf4"
definition SELFDESTRUCT :: byte where [opcodes]: "SELFDESTRUCT = 0xff"

definition PUSHn :: "nat \<Rightarrow> byte" where [opcodes]: "PUSHn n = 0x5f + word_of_nat n"
definition DUPn :: "nat \<Rightarrow> byte" where [opcodes]: "DUPn n = 0x7f + word_of_nat n"
definition SWAPn :: "nat \<Rightarrow> byte" where [opcodes]: "SWAPn n = 0x8f + word_of_nat n"

definition IsPush :: "byte \<Rightarrow> bool" where
  "IsPush op \<longleftrightarrow> op \<in> set (map PUSHn [1..<33])"

definition IsStaticJump :: "byte \<Rightarrow> bool" where
  "IsStaticJump op \<longleftrightarrow> op = JUMP"

section \<open>Operations\<close>

record operation =
  execute :: executionFunc
  gasCost :: gasFunc
  validateStack :: "stack \<Rightarrow> vm_error option"
  memorySize :: "(stack \<Rightarrow> int option) option"
  halts :: bool
  jumps :: bool
  writes :: bool
  valid :: bool
  reverts :: bool

definition plain :: "executionFunc \<Rightarrow> gasFunc \<Rightarrow> (stack \<Rightarrow> vm_error option) \<Rightarrow> operation" where
  "plain ex gas vs = \<lparr>execute = ex, gasCost = gas, validateStack = vs, memorySize = None, halts = False,
     jumps = False, writes = False, valid = True, reverts = False\<rparr>"

text \<open>The zero value of an array element that the literal leaves out: all functions are nil.\<close>

definition no_operation :: operation where
  "no_operation = \<lparr>execute = (\<lambda>sc env w f. Panic), gasCost = (\<lambda>env gt w f ms. Panic),
     validateStack = (\<lambda>st. None), memorySize = None, halts = False, jumps = False, writes = False,
     valid = False, reverts = False\<rparr>"

section \<open>jump_table.go\<close>

definition arithmetic_ops :: "(byte \<times> operation) list" where
  "arithmetic_ops =
    [(STOP, (plain opStop (constGasFunc 0) (makeStackFunc 0 0))\<lparr>halts := True\<rparr>),
     (ADD, plain opAdd (constGasFunc GasFastestStep) (makeStackFunc 2 1)),
     (MUL, plain opMul (constGasFunc GasFastStep) (makeStackFunc 2 1)),
     (SUB, plain opSub (constGasFunc GasFastestStep) (makeStackFunc 2 1)),
     (DIV, plain opDiv (constGasFunc GasFastStep) (makeStackFunc 2 1)),
     (SDIV, plain opSdiv (constGasFunc GasFastStep) (makeStackFunc 2 1)),
     (MOD, plain opMod (constGasFunc GasFastStep) (makeStackFunc 2 1)),
     (SMOD, plain opSmod (constGasFunc GasFastStep) (makeStackFunc 2 1)),
     (ADDMOD, plain opAddmod (constGasFunc GasMidStep) (makeStackFunc 3 1)),
     (MULMOD, plain opMulmod (constGasFunc GasMidStep) (makeStackFunc 3 1)),
     (EXP, plain opExp gasExp (makeStackFunc 2 1)),
     (SIGNEXTEND, plain opSignExtend (constGasFunc GasFastStep) (makeStackFunc 2 1))]"

definition compare_ops :: "(byte \<times> operation) list" where
  "compare_ops =
    [(LT, plain opLt (constGasFunc GasFastestStep) (makeStackFunc 2 1)),
     (GT, plain opGt (constGasFunc GasFastestStep) (makeStackFunc 2 1)),
     (SLT, plain opSlt (constGasFunc GasFastestStep) (makeStackFunc 2 1)),
     (SGT, plain opSgt (constGasFunc GasFastestStep) (makeStackFunc 2 1)),
     (EQ, plain opEq (constGasFunc GasFastestStep) (makeStackFunc 2 1)),
     (ISZERO, plain opIszero (constGasFunc GasFastestStep) (makeStackFunc 1 1)),
     (AND_op, plain opAnd (constGasFunc GasFastestStep) (makeStackFunc 2 1)),
     (XOR_op, plain opXor (constGasFunc GasFastestStep) (makeStackFunc 2 1)),
     (OR_op, plain opOr (constGasFunc GasFastestStep) (makeStackFunc 2 1)),
     (NOT_op, plain opNot (constGasFunc GasFastestStep) (makeStackFunc 1 1)),
     (BYTE, plain opByte (constGasFunc GasFastestStep) (makeStackFunc 2 1)),
     (SHA3, (plain opSha3 gasSha3 (makeStackFunc 2 1))\<lparr>memorySize := Some memorySha3\<rparr>)]"

definition environment_ops :: "(byte \<times> operation) list" where
  "environment_ops =
    [(ADDRESS, plain opAddress (constGasFunc GasQuickStep) (makeStackFunc 0 1)),
     (BALANCE, plain opBalance gasBalance (makeStackFunc 1 1)),
     (ORIGIN, plain opOrigin (constGasFunc GasQuickStep) (makeStackFunc 0 1)),
     (CALLER, plain opCaller (constGasFunc GasQuickStep) (makeStackFunc 0 1)),
     (CALLVALUE, plain opCallValue (constGasFunc GasQuickStep) (makeStackFunc 0 1)),
     (CALLDATALOAD, plain opCalldataLoad (constGasFunc GasFastestStep) (makeStackFunc 1 1)),
     (CALLDATASIZE, plain opCalldataSize (constGasFunc GasQuickStep) (makeStackFunc 0 1)),
     (CALLDATACOPY, (plain opCalldataCopy gasCalldataCopy (makeStackFunc 3 0))\<lparr>memorySize := Some memoryCalldataCopy\<rparr>),
     (CODESIZE, plain opCodeSize (constGasFunc GasQuickStep) (makeStackFunc 0 1)),
     (CODECOPY, (plain opCodeCopy gasCodeCopy (makeStackFunc 3 0))\<lparr>memorySize := Some memoryCodeCopy\<rparr>),
     (GASPRICE, plain opGasprice (constGasFunc GasQuickStep) (makeStackFunc 0 1)),
     (EXTCODESIZE, plain opExtCodeSize gasExtCodeSize (makeStackFunc 1 1)),
     (EXTCODECOPY, (plain opExtCodeCopy gasExtCodeCopy (makeStackFunc 4 0))\<lparr>memorySize := Some memoryExtCodeCopy\<rparr>)]"

definition block_ops :: "(byte \<times> operation) list" where
  "block_ops =
    [(BLOCKHASH, plain opBlockhash (constGasFunc GasExtStep) (makeStackFunc 1 1)),
     (COINBASE, plain opCoinbase (constGasFunc GasQuickStep) (makeStackFunc 0 1)),
     (TIMESTAMP, plain opTimestamp (constGasFunc GasQuickStep) (makeStackFunc 0 1)),
     (NUMBER, plain opNumber (constGasFunc GasQuickStep) (makeStackFunc 0 1)),
     (DIFFICULTY, plain opDifficulty (constGasFunc GasQuickStep) (makeStackFunc 0 1)),
     (GASLIMIT, plain opGasLimit (constGasFunc GasQuickStep) (makeStackFunc 0 1))]"

definition storage_ops :: "(byte \<times> operation) list" where
  "storage_ops =
    [(POP, plain opPop (constGasFunc GasQuickStep) (makeStackFunc 1 0)),
     (MLOAD, (plain opMload gasMLoad (makeStackFunc 1 1))\<lparr>memorySize := Some memoryMLoad\<rparr>),
     (MSTORE, (plain opMstore gasMStore (makeStackFunc 2 0))\<lparr>memorySize := Some memoryMStore\<rparr>),
     (MSTORE8, (plain opMstore8 gasMStore8 (makeStackFunc 2 0))\<lparr>memorySize := Some memoryMStore8\<rparr>),
     (SLOAD, plain opSload gasSLoad (makeStackFunc 1 1)),
     (SSTORE, (plain opSstore gasSStore (makeStackFunc 2 0))\<lparr>writes := True\<rparr>),
     (JUMP, (plain opJump (constGasFunc GasMidStep) (makeStackFunc 1 0))\<lparr>jumps := True\<rparr>),
     (JUMPI, (plain opJumpi (constGasFunc GasSlowStep) (makeStackFunc 2 0))\<lparr>jumps := True\<rparr>),
     (PC, plain opPc (constGasFunc GasQuickStep) (makeStackFunc 0 1)),
     (MSIZE, plain opMsize (constGasFunc GasQuickStep) (makeStackFunc 0 1)),
     (GAS, plain opGas (constGasFunc GasQuickStep) (makeStackFunc 0 1)),
     (JUMPDEST, plain opJumpdest (constGasFunc JumpdestGas) (makeStackFunc 0 0))]"

definition log_ops :: "(byte \<times> operation) list" where
  "log_ops =
    [(LOG0, (plain (makeLog 0) (makeGasLog 0) (makeStackFunc 2 0))\<lparr>memorySize := Some memoryLog\<rparr>),
     (LOG1, (plain (makeLog 1) (makeGasLog 1) (makeStackFunc 3 0))\<lparr>memorySize := Some memoryLog\<rparr>),
     (LOG2, (plain (makeLog 2) (makeGasLog 2) (makeStackFunc 4 0))\<lparr>memorySize := Some memoryLog\<rparr>),
     (LOG3, (plain (makeLog 3) (makeGasLog 3) (makeStackFunc 5 0))\<lparr>memorySize := Some memoryLog\<rparr>),
     (LOG4, (plain (makeLog 4) (makeGasLog 4) (makeStackFunc 6 0))\<lparr>memorySize := Some memoryLog\<rparr>)]"

definition closure_ops :: "(byte \<times> operation) list" where
  "closure_ops =
    [(CREATE, (plain opCreate gasCreate (makeStackFunc 3 1))\<lparr>memorySize := Some memoryCreate, writes := True\<rparr>),
     (CALL, (plain opCall gasCall (makeStackFunc 7 1))\<lparr>memorySize := Some memoryCall\<rparr>),
     (CALLCODE, (plain opCallCode gasCallCode (makeStackFunc 7 1))\<lparr>memorySize := Some memoryCall\<rparr>),
     (RETURN, (plain opReturn gasReturn (makeStackFunc 2 0))\<lparr>memorySize := Some memoryReturn, halts := True\<rparr>),
     (SELFDESTRUCT, (plain opSuicide gasSuicide (makeStackFunc 1 0))\<lparr>halts := True, writes := True\<rparr>)]"

definition push_ops :: "(byte \<times> operation) list" where
  "push_ops = map (\<lambda>n. (PUSHn n, plain (makePush (word_of_nat n) n) gasPush (makeStackFunc 0 1))) [1..<33]"

definition dup_ops :: "(byte \<times> operation) list" where
  "dup_ops = map (\<lambda>n. (DUPn n, plain (makeDup n) gasDup (makeDupStackFunc n))) [1..<17]"

definition swap_ops :: "(byte \<times> operation) list" where
  "swap_ops = map (\<lambda>n. (SWAPn n, plain (makeSwap n) gasSwap (makeSwapStackFunc (n + 1)))) [1..<17]"

definition frontier_ops :: "(byte \<times> operation) list" where
  "frontier_ops = arithmetic_ops @ compare_ops @ environment_ops @ block_ops @ storage_ops @ push_ops @ dup_ops @
     swap_ops @ log_ops @ closure_ops"

definition NewFrontierInstructionSet :: "byte \<Rightarrow> operation" where
  "NewFrontierInstructionSet op = (case map_of frontier_ops op of None \<Rightarrow> no_operation | Some x \<Rightarrow> x)"

definition delegate_op :: operation where
  "delegate_op = (plain opDelegateCall gasDelegateCall (makeStackFunc 6 1))\<lparr>memorySize := Some memoryDelegateCall\<rparr>"

definition NewHomesteadInstructionSet :: "byte \<Rightarrow> operation" where
  "NewHomesteadInstructionSet = NewFrontierInstructionSet(DELEGATECALL := delegate_op)"

definition instruction_set :: "evm_env \<Rightarrow> byte \<Rightarrow> operation" where
  "instruction_set env =
     (if IsHomestead (chainConfig env) (block env) then NewHomesteadInstructionSet else NewFrontierInstructionSet)"

section \<open>Names\<close>

definition opCodeToString :: "(byte \<times> string) list" where
  "opCodeToString =
    [(STOP, ''STOP''), (ADD, ''ADD''), (MUL, ''MUL''), (SUB, ''SUB''),
     (DIV, ''DIV''), (SDIV, ''SDIV''), (MOD, ''MOD''), (SMOD, ''SMOD''),
     (EXP, ''EXP''), (NOT_op, ''NOT''), (LT, ''LT''), (GT, ''GT''),
     (SLT, ''SLT''), (SGT, ''SGT''), (EQ, ''EQ''), (ISZERO, ''ISZERO''),
     (SIGNEXTEND, ''SIGNEXTEND''), (AND_op, ''AND''), (OR_op, ''OR''), (XOR_op, ''XOR''),
     (BYTE, ''BYTE''), (ADDMOD, ''ADDMOD''), (MULMOD, ''MULMOD''), (SHA3, ''SHA3''),
     (ADDRESS, ''ADDRESS''), (BALANCE, ''BALANCE''), (ORIGIN, ''ORIGIN''), (CALLER, ''CALLER''),
     (CALLVALUE, ''CALLVALUE''), (CALLDATALOAD, ''CALLDATALOAD''), (CALLDATASIZE, ''CALLDATASIZE''), (CALLDATACOPY, ''CALLDATACOPY''),
     (CODESIZE, ''CODESIZE''), (CODECOPY, ''CODECOPY''), (GASPRICE, ''GASPRICE''), (BLOCKHASH, ''BLOCKHASH''),
     (COINBASE, ''COINBASE''), (TIMESTAMP, ''TIMESTAMP''), (NUMBER, ''NUMBER''), (DIFFICULTY, ''DIFFICULTY''),
     (GASLIMIT, ''GASLIMIT''), (EXTCODESIZE, ''EXTCODESIZE''), (EXTCODECOPY, ''EXTCODECOPY''), (POP, ''POP''),
     (MLOAD, ''MLOAD''), (MSTORE, ''MSTORE''), (MSTORE8, ''MSTORE8''), (SLOAD, ''SLOAD''),
     (SSTORE, ''SSTORE''), (JUMP, ''JUMP''), (JUMPI, ''JUMPI''), (PC, ''PC''),
     (MSIZE, ''MSIZE''), (GAS, ''GAS''), (JUMPDEST, ''JUMPDEST''), (PUSHn 1, ''PUSH1''),
     (PUSHn 2, ''PUSH2''), (PUSHn 3, ''PUSH3''), (PUSHn 4, ''PUSH4''), (PUSHn 5, ''PUSH5''),
     (PUSHn 6, ''PUSH6''), (PUSHn 7, ''PUSH7''), (PUSHn 8, ''PUSH8''), (PUSHn 9, ''PUSH9''),
     (PUSHn 10, ''PUSH10''), (PUSHn 11, ''PUSH11''), (PUSHn 12, ''PUSH12''), (PUSHn 13, ''PUSH13''),
     (PUSHn 14, ''PUSH14''), (PUSHn 15, ''PUSH15''), (PUSHn 16, ''PUSH16''), (PUSHn 17, ''PUSH17''),
     (PUSHn 18, ''PUSH18''), (PUSHn 19, ''PUSH19''), (PUSHn 20, ''PUSH20''), (PUSHn 21, ''PUSH21''),
     (PUSHn 22, ''PUSH22''), (PUSHn 23, ''PUSH23''), (PUSHn 24, ''PUSH24''), (PUSHn 25, ''PUSH25''),
     (PUSHn 26, ''PUSH26''), (PUSHn 27, ''PUSH27''), (PUSHn 28, ''PUSH28''), (PUSHn 29, ''PUSH29''),
     (PUSHn 30, ''PUSH30''), (PUSHn 31, ''PUSH31''), (PUSHn 32, ''PUSH32''), (DUPn 1, ''DUP1''),
     (DUPn 2, ''DUP2''), (DUPn 3, ''DUP3''), (DUPn 4, ''DUP4''), (DUPn 5, ''DUP5''),
     (DUPn 6, ''DUP6''), (DUPn 7, ''DUP7''), (DUPn 8, ''DUP8''), (DUPn 9, ''DUP9''),
     (DUPn 10, ''DUP10''), (DUPn 11, ''DUP11''), (DUPn 12, ''DUP12''), (DUPn 13, ''DUP13''),
     (DUPn 14, ''DUP14''), (DUPn 15, ''DUP15''), (DUPn 16, ''DUP16''), (SWAPn 1, ''SWAP1''),
     (SWAPn 2, ''SWAP2''), (SWAPn 3, ''SWAP3''), (SWAPn 4, ''SWAP4''), (SWAPn 5, ''SWAP5''),
     (SWAPn 6, ''SWAP6''), (SWAPn 7, ''SWAP7''), (SWAPn 8, ''SWAP8''), (SWAPn 9, ''SWAP9''),
     (SWAPn 10, ''SWAP10''), (SWAPn 11, ''SWAP11''), (SWAPn 12, ''SWAP12''), (SWAPn 13, ''SWAP13''),
     (SWAPn 14, ''SWAP14''), (SWAPn 15, ''SWAP15''), (SWAPn 16, ''SWAP16''), (LOG0, ''LOG0''),
     (LOG1, ''LOG1''), (LOG2, ''LOG2''), (LOG3, ''LOG3''), (LOG4, ''LOG4''),
     (CREATE, ''CREATE''), (CALL, ''CALL''), (RETURN, ''RETURN''), (CALLCODE, ''CALLCODE''),
     (DELEGATECALL, ''DELEGATECALL''), (SELFDESTRUCT, ''SELFDESTRUCT''), (PUSH, ''PUSH''), (DUP, ''DUP''),
     (SWAP, ''SWAP'')]"

definition stringToOp :: "(string \<times> byte) list" where
  "stringToOp =
    [(''STOP'', STOP), (''ADD'', ADD), (''MUL'', MUL), (''SUB'', SUB),
     (''DIV'', DIV), (''SDIV'', SDIV), (''MOD'', MOD), (''SMOD'', SMOD),
     (''EXP'', EXP), (''NOT'', NOT_op), (''LT'', LT), (''GT'', GT),
     (''SLT'', SLT), (''SGT'', SGT), (''EQ'', EQ), (''ISZERO'', ISZERO),
     (''SIGNEXTEND'', SIGNEXTEND), (''AND'', AND_op), (''OR'', OR_op), (''XOR'', XOR_op),
     (''BYTE'', BYTE), (''ADDMOD'', ADDMOD), (''MULMOD'', MULMOD), (''SHA3'', SHA3),
     (''ADDRESS'', ADDRESS), (''BALANCE'', BALANCE), (''ORIGIN'', ORIGIN), (''CALLER'', CALLER),
     (''CALLVALUE'', CALLVALUE), (''CALLDATALOAD'', CALLDATALOAD), (''CALLDATASIZE'', CALLDATASIZE), (''CALLDATACOPY'', CALLDATACOPY),
     (''DELEGATECALL'', DELEGATECALL), (''CODESIZE'', CODESIZE), (''CODECOPY'', CODECOPY), (''GASPRICE'', GASPRICE),
     (''BLOCKHASH'', BLOCKHASH), (''COINBASE'', COINBASE), (''TIMESTAMP'', TIMESTAMP), (''NUMBER'', NUMBER),
     (''DIFFICULTY'', DIFFICULTY), (''GASLIMIT'', GASLIMIT), (''EXTCODESIZE'', EXTCODESIZE), (''EXTCODECOPY'', EXTCODECOPY),
     (''POP'', POP), (''MLOAD'', MLOAD), (''MSTORE'', MSTORE), (''MSTORE8'', MSTORE8),
     (''SLOAD'', SLOAD), (''SSTORE'', SSTORE), (''JUMP'', JUMP), (''JUMPI'', JUMPI),
     (''PC'', PC), (''MSIZE'', MSIZE), (''GAS'', GAS), (''JUMPDEST'', JUMPDEST),
     (''PUSH1'', PUSHn 1), (''PUSH2'', PUSHn 2), (''PUSH3'', PUSHn 3), (''PUSH4'', PUSHn 4),
     (''PUSH5'', PUSHn 5), (''PUSH6'', PUSHn 6), (''PUSH7'', PUSHn 7), (''PUSH8'', PUSHn 8),
     (''PUSH9'', PUSHn 9), (''PUSH10'', PUSHn 10), (''PUSH11'', PUSHn 11), (''PUSH12'', PUSHn 12),
     (''PUSH13'', PUSHn 13), (''PUSH14'', PUSHn 14), (''PUSH15'', PUSHn 15), (''PUSH16'', PUSHn 16),
     (''PUSH17'', PUSHn 17), (''PUSH18'', PUSHn 18), (''PUSH19'', PUSHn 19), (''PUSH20'', PUSHn 20),
     (''PUSH21'', PUSHn 21), (''PUSH22'', PUSHn 22), (''PUSH23'', PUSHn 23), (''PUSH24'', PUSHn 24),
     (''PUSH25'', PUSHn 25), (''PUSH26'', PUSHn 26), (''PUSH27'', PUSHn 27), (''PUSH28'', PUSHn 28),
     (''PUSH29'', PUSHn 29), (''PUSH30'', PUSHn 30), (''PUSH31'', PUSHn 31), (''PUSH32'', PUSHn 32),
     (''DUP1'', DUPn 1), (''DUP2'', DUPn 2), (''DUP3'', DUPn 3), (''DUP4'', DUPn 4),
     (''DUP5'', DUPn 5), (''DUP6'', DUPn 6), (''DUP7'', DUPn 7), (''DUP8'', DUPn 8),
     (''DUP9'', DUPn 9), (''DUP10'', DUPn 10), (''DUP11'', DUPn 11), (''DUP12'', DUPn 12),
     (''DUP13'', DUPn 13), (''DUP14'', DUPn 14), (''DUP15'', DUPn 15), (''DUP16'', DUPn 16),
     (''SWAP1'', SWAPn 1), (''SWAP2'', SWAPn 2), (''SWAP3'', SWAPn 3), (''SWAP4'', SWAPn 4),
     (''SWAP5'', SWAPn 5), (''SWAP6'', SWAPn 6), (''SWAP7'', SWAPn 7), (''SWAP8'', SWAPn 8),
     (''SWAP9'', SWAPn 9), (''SWAP10'', SWAPn 10), (''SWAP11'', SWAPn 11), (''SWAP12'', SWAPn 12),
     (''SWAP13'', SWAPn 13), (''SWAP14'', SWAPn 14), (''SWAP15'', SWAPn 15), (''SWAP16'', SWAPn 16),
     (''LOG0'', LOG0), (''LOG1'', LOG1), (''LOG2'', LOG2), (''LOG3'', LOG3),
     (''LOG4'', LOG4), (''CREATE'', CREATE), (''CALL'', CALL), (''RETURN'', RETURN),
     (''CALLCODE'', CALLCODE), (''SELFDESTRUCT'', SELFDESTRUCT)]"

text \<open>\<open>None\<close> stands for the message about a missing opcode.\<close>

definition OpCode_String :: "byte \<Rightarrow> string option" where
  "OpCode_String op = map_of opCodeToString op"

definition StringToOp :: "string \<Rightarrow> byte" where
  "StringToOp name = (case map_of stringToOp name of None \<Rightarrow> STOP | Some op \<Rightarrow> op)"

end
