(* ===== verification/Evm.thy ===== *)
theory Evm
  imports Evm_Table
begin

text \<open>
  The interpreter loop (\<open>core/vm/interpreter.go\<close>), the precompiled contracts
  (\<open>core/vm/contracts.go\<close>), the message calls of the EVM (\<open>core/vm/evm.go\<close>), and balance
  transfers (\<open>core/evm.go\<close>). The loop recurses on fuel; a call made by an instruction runs
  the callee's loop with the fuel that is left. \<open>Cancel\<close> stores a flag that the loop reads in
  every round: \<open>cancelled env n\<close> is its value at round \<open>n\<close>. The tracer and the debug log only observe.
\<close>

section \<open>core/evm.go\<close>

definition CanTransfer :: "crypto \<Rightarrow> address \<Rightarrow> int \<Rightarrow> stateDB \<Rightarrow> bool \<times> stateDB" where
  "CanTransfer E addr amount s = (let (b, s1) = GetBalance E addr s in (big_Cmp b amount \<ge> 0, s1))"

definition Transfer :: "crypto \<Rightarrow> address \<Rightarrow> address \<Rightarrow> int \<Rightarrow> stateDB \<Rightarrow> stateDB" where
  "Transfer E sender recipient amount s = AddBalance E recipient amount (SubBalance E sender amount s)"

section \<open>contracts.go\<close>

definition secp256k1_N :: int where
  "secp256k1_N = 0xfffffffffffffffffffffffffffffffebaaedce6af48a03bbfd25e8cd0364141"

definition secp256k1_halfN :: int where
  "secp256k1_halfN = secp256k1_N div 2"

definition ValidateSignatureValues :: "byte \<Rightarrow> int \<Rightarrow> int \<Rightarrow> bool \<Rightarrow> bool" where
  "ValidateSignatureValues v r s homestead =
     (if big_Cmp r 1 < 0 \<or> big_Cmp s 1 < 0 then False
      else if homestead \<and> big_Cmp s secp256k1_halfN > 0 then False
      else big_Cmp r secp256k1_N < 0 \<and> big_Cmp s secp256k1_N < 0 \<and> (v = 0 \<or> v = 1))"

datatype precompile = ecrecover | sha256hash | ripemd160hash | dataCopy

definition PrecompiledContracts :: "address \<rightharpoonup> precompile" where
  "PrecompiledContracts = [1 \<mapsto> ecrecover, 2 \<mapsto> sha256hash, 3 \<mapsto> ripemd160hash, 4 \<mapsto> dataCopy]"

definition words_of :: "bytes \<Rightarrow> u64" where
  "words_of b = (word_of_nat (length b) + 31) div 32"

fun RequiredGas :: "precompile \<Rightarrow> bytes \<Rightarrow> u64" where
  "RequiredGas ecrecover b = EcrecoverGas"
| "RequiredGas sha256hash b = words_of b * Sha256WordGas + Sha256Gas"
| "RequiredGas ripemd160hash b = words_of b * Ripemd160WordGas + Ripemd160Gas"
| "RequiredGas dataCopy b = words_of b * IdentityWordGas + IdentityGas"

text \<open>\<open>ecrecover\<close> appends the recovery id to a slice of its input; when the input is longer
  than 128 bytes that overwrites the input's byte 128, so the input is returned as well.\<close>

definition ecrecover_Run :: "evm_env \<Rightarrow> bytes \<Rightarrow> (bytes option \<times> bytes) outcome" where
  "ecrecover_Run env b =
     (let inpt = RightPadBytes b 128;
          r = SetBytes (take 32 (drop 64 inpt));
          s = SetBytes (take 32 (drop 96 inpt));
          v = inpt ! 63 - 27
      in if \<not> allZero (take 31 (drop 32 inpt)) \<or> \<not> ValidateSignatureValues v r s False then Ret (None, b)
         else
           let sig = take 64 (drop 64 inpt) @ [v];
               b1 = (if 128 < length b then b[128 := v] else b)
           in case crypto_Ecrecover env (take 32 inpt) sig of
                None \<Rightarrow> Ret (None, b1)
              | Some pubKey \<Rightarrow>
                  if pubKey = [] then Panic
                  else Ret (Some (LeftPadBytes (drop 12 (keccak256 (hashing env) (tl pubKey))) 32), b1))"

fun precompile_Run :: "evm_env \<Rightarrow> precompile \<Rightarrow> bytes \<Rightarrow> (bytes option \<times> bytes) outcome" where
  "precompile_Run env ecrecover b = ecrecover_Run env b"
| "precompile_Run env sha256hash b = Ret (Some (sha256_Sum256 env b), b)"
| "precompile_Run env ripemd160hash b = Ret (Some (LeftPadBytes (ripemd160_Sum env b) 32), b)"
| "precompile_Run env dataCopy b = Ret (Some b, b)"

definition RunPrecompiledContract ::
  "evm_env \<Rightarrow> precompile \<Rightarrow> bytes \<Rightarrow> Contract \<Rightarrow> (Contract \<times> bytes option \<times> vm_error option) outcome" where
  "RunPrecompiledContract env p b c =
     (let gas = RequiredGas p b; (ok, c1) = UseGas gas c in
      if ok then obind (precompile_Run env p b) (\<lambda>(ret, _). Ret (c1, ret, None))
      else Ret (c1, None, Some ErrOutOfGas))"

section \<open>interpreter.go\<close>

text \<open>One round of the loop: fetch, validate, compute the memory size, charge, expand, execute.
  The result says whether the loop goes on.\<close>

datatype round = Next evm frame | Stop evm frame "bytes option" "vm_error option"

definition memory_size :: "operation \<Rightarrow> stack \<Rightarrow> (vm_error + u64) outcome" where
  "memory_size oper st =
     (case memorySize oper of
        None \<Rightarrow> Ret (Inr 0)
      | Some fn \<Rightarrow>
          (case fn st of
             None \<Rightarrow> Panic
           | Some n \<Rightarrow>
               let (memSize, overflow) = bigUint64 n in
               if overflow then Ret (Inl ErrGasUintOverflow)
               else
                 let (ms, overflow) = SafeMul (toWordSize memSize) 32
                 in Ret (if overflow then Inl ErrGasUintOverflow else Inr ms)))"

text \<open>Charging: an error of the gas function and too little gas are both out of gas.\<close>

definition charge :: "evm_env \<Rightarrow> operation \<Rightarrow> u64 \<Rightarrow> evm \<Rightarrow> frame \<Rightarrow> (evm \<times> frame \<times> bool) outcome" where
  "charge env oper ms w f =
     (if DisableGasMetering (vmConfig env) then Ret (w, f, True)
      else
        obind (gasCost oper env (cfg_GasTable (chainConfig env) (block env)) w f ms) (\<lambda>(w1, f1, r).
          case r of
            Inl _ \<Rightarrow> Ret (w1, f1, False)
          | Inr cost \<Rightarrow>
              let (ok, c1) = UseGas cost (contract f1) in Ret (w1, f1\<lparr>contract := c1\<rparr>, ok)))"

definition execute_op :: "subcalls \<Rightarrow> evm_env \<Rightarrow> operation \<Rightarrow> u64 \<Rightarrow> evm \<Rightarrow> frame \<Rightarrow> round outcome" where
  "execute_op sc env oper ms w f =
     (let f1 = (if ms > 0 then f\<lparr>mem := mem_Resize ms (mem f)\<rparr> else f) in
      obind (execute oper sc env w f1) (\<lambda>(w1, f2, res, err).
        if err \<noteq> None then Ret (Stop w1 f2 None err)
        else if halts oper then Ret (Stop w1 f2 res None)
        else
          let f3 = (if \<not> jumps oper then f2\<lparr>pc := pc f2 + 1\<rparr> else f2);
              f4 = (if res \<noteq> None then f3\<lparr>mem := (mem f3)\<lparr>lastReturn := None\<rparr>\<rparr> else f3)
          in Ret (Next w1 f4)))"

definition step :: "subcalls \<Rightarrow> evm_env \<Rightarrow> evm \<Rightarrow> frame \<Rightarrow> round outcome" where
  "step sc env w f =
     (let op = GetOp (contract f) (pc f);
          oper = instruction_set env op
      in if \<not> valid oper then Ret (Stop w f None (Some (ErrInvalidOpcode op)))
         else
           (case validateStack oper (stk f) of
              Some err \<Rightarrow> Ret (Stop w f None (Some err))
            | None \<Rightarrow>
                obind (memory_size oper (stk f)) (\<lambda>m.
                  case m of
                    Inl err \<Rightarrow> Ret (Stop w f None (Some err))
                  | Inr ms \<Rightarrow>
                      obind (charge env oper ms w f) (\<lambda>(w1, f1, ok).
                        if \<not> ok then Ret (Stop w1 f1 None (Some ErrOutOfGas))
                        else execute_op sc env oper ms w1 f1))))"

section \<open>evm.go\<close>

type_synonym interp = "evm \<Rightarrow> frame \<Rightarrow> exec_result"

text \<open>\<open>Interpreter.Run\<close>, given the loop.\<close>

definition Run :: "interp \<Rightarrow> Contract \<Rightarrow> bytes \<Rightarrow> evm \<Rightarrow> (evm \<times> Contract \<times> bytes option \<times> vm_error option) outcome" where
  "Run loop c inpt w =
     (let w1 = w\<lparr>depth := depth w + 1\<rparr> in
      if Code c = [] then Ret (w1\<lparr>depth := depth w1 - 1\<rparr>, c, None, None)
      else
        obind (loop w1 \<lparr>pc = 0, contract = c\<lparr>Input := inpt\<rparr>, mem = NewMemory, stk = []\<rparr>) (\<lambda>(w2, f, ret, err).
          Ret (w2\<lparr>depth := depth w2 - 1\<rparr>, contract f, ret, err)))"

definition run :: "interp \<Rightarrow> evm_env \<Rightarrow> Contract \<Rightarrow> bytes \<Rightarrow> evm \<Rightarrow> (evm \<times> Contract \<times> bytes option \<times> vm_error option) outcome" where
  "run loop env c inpt w =
     (case CodeAddr c of
        Some addr \<Rightarrow>
          (case PrecompiledContracts addr of
             Some p \<Rightarrow> obind (RunPrecompiledContract env p inpt c) (\<lambda>(c1, ret, err). Ret (w, c1, ret, err))
           | None \<Rightarrow> Run loop c inpt w)
      | None \<Rightarrow> Run loop c inpt w)"

text \<open>The end of the calls: an error uses up the gas and reverts to the snapshot.\<close>

definition finish_call :: "evm_env \<Rightarrow> nat \<Rightarrow> evm \<times> Contract \<times> bytes option \<times> vm_error option \<Rightarrow>
    (evm \<times> bytes option \<times> u64 \<times> vm_error option) outcome" where
  "finish_call env snapshot =
     (\<lambda>(w, c, ret, err).
        if err \<noteq> None then
          let c1 = snd (UseGas (Gas c) c) in
          (case RevertToSnapshot (hashing env) snapshot (sdb w) of
             None \<Rightarrow> Panic
           | Some s \<Rightarrow> Ret (w\<lparr>sdb := s\<rparr>, ret, Gas c1, err))
        else Ret (w, ret, Gas c, err))"

text \<open>\<open>SetCallCode\<close> with the code of an account.\<close>

definition load_code :: "evm_env \<Rightarrow> address \<Rightarrow> Contract \<Rightarrow> evm \<Rightarrow> Contract \<times> evm" where
  "load_code env addr c w =
     (let (h, s1) = GetCodeHash (hashing env) addr (sdb w);
          (cd, s2) = GetCode (hashing env) addr s1
      in (SetCallCode addr h (bytes_of cd) c, w\<lparr>sdb := s2\<rparr>))"

definition evm_Call :: "interp \<Rightarrow> evm_env \<Rightarrow> evm \<Rightarrow> ContractRef \<Rightarrow> address \<Rightarrow> bytes \<Rightarrow> u64 \<Rightarrow> int \<Rightarrow>
    (evm \<times> bytes option \<times> u64 \<times> vm_error option) outcome" where
  "evm_Call loop env w cl addr inpt gas value =
     (let E = hashing env in
      if NoRecursion (vmConfig env) \<and> depth w > 0 then Ret (w, None, gas, None)
      else if depth w > unat CallCreateDepth then Ret (w, None, gas, Some ErrDepth)
      else
        let (can, s1) = CanTransfer E (ref_Address cl) value (sdb w) in
        if \<not> can then Ret (w\<lparr>sdb := s1\<rparr>, None, gas, Some ErrInsufficientBalance)
        else
          let (snapshot, s2) = Snapshot s1;
              (ex, s3) = Exist E addr s2
          in if \<not> ex \<and> PrecompiledContracts addr = None \<and> IsEIP158 (chainConfig env) (block env) \<and> big_Sign value = 0
             then Ret (w\<lparr>sdb := s3\<rparr>, None, gas, None)
             else
               let s4 = (if \<not> ex then CreateAccount E addr s3 else s3);
                   s5 = Transfer E (ref_Address cl) addr value s4;
                   c = NewContract cl addr (Some value) gas;
                   (c1, w1) = load_code env addr c (w\<lparr>sdb := s5\<rparr>)
               in obind (run loop env c1 inpt w1) (finish_call env snapshot))"

definition evm_CallCode :: "interp \<Rightarrow> evm_env \<Rightarrow> evm \<Rightarrow> ContractRef \<Rightarrow> address \<Rightarrow> bytes \<Rightarrow> u64 \<Rightarrow> int \<Rightarrow>
    (evm \<times> bytes option \<times> u64 \<times> vm_error option) outcome" where
  "evm_CallCode loop env w cl addr inpt gas value =
     (let E = hashing env in
      if NoRecursion (vmConfig env) \<and> depth w > 0 then Ret (w, None, gas, None)
      else if depth w > unat CallCreateDepth then Ret (w, None, gas, Some ErrDepth)
      else
        let (can, s1) = CanTransfer E (ref_Address cl) value (sdb w) in
        if \<not> can then Ret (w\<lparr>sdb := s1\<rparr>, None, gas, Some ErrInsufficientBalance)
        else
          let (snapshot, s2) = Snapshot s1;
              c = NewContract cl (ref_Address cl) (Some value) gas;
              (c1, w1) = load_code env addr c (w\<lparr>sdb := s2\<rparr>)
          in obind (run loop env c1 inpt w1) (finish_call env snapshot))"

definition evm_DelegateCall :: "interp \<Rightarrow> evm_env \<Rightarrow> evm \<Rightarrow> ContractRef \<Rightarrow> address \<Rightarrow> bytes \<Rightarrow> u64 \<Rightarrow>
    (evm \<times> bytes option \<times> u64 \<times> vm_error option) outcome" where
  "evm_DelegateCall loop env w cl addr inpt gas =
     (if NoRecursion (vmConfig env) \<and> depth w > 0 then Ret (w, None, gas, None)
      else if depth w > unat CallCreateDepth then Ret (w, None, gas, Some ErrDepth)
      else
        let (snapshot, s2) = Snapshot (sdb w) in
        obind (AsDelegate (NewContract cl (ref_Address cl) None gas)) (\<lambda>c.
          let (c1, w1) = load_code env addr c (w\<lparr>sdb := s2\<rparr>)
          in obind (run loop env c1 inpt w1) (finish_call env snapshot)))"

definition CreateAddress :: "crypto \<Rightarrow> address \<Rightarrow> u64 \<Rightarrow> address" where
  "CreateAddress E b nonce =
     (let enc = (case EncodeToBytes (SliceV [InterfaceV (ByteArrayV (address_bytes b)), InterfaceV (UintV (unat nonce))]) of Inr d \<Rightarrow> d | Inl _ \<Rightarrow> [])
      in BytesToAddress (drop 12 (keccak256 E enc)))"

text \<open>The end of \<open>Create\<close>: store the code, pay for it, and revert unless it is the frontier rule
  that a contract whose code cannot be paid for is created without code.\<close>

definition finish_create :: "evm_env \<Rightarrow> nat \<Rightarrow> address \<Rightarrow> evm \<times> Contract \<times> bytes option \<times> vm_error option \<Rightarrow>
    (evm \<times> bytes option \<times> address \<times> u64 \<times> vm_error option) outcome" where
  "finish_create env snapshot contractAddr =
     (\<lambda>(w, c, ret, err).
        let E = hashing env;
            maxCodeSizeExceeded = (length (bytes_of ret) > MaxCodeSize);
            (w1, c1, err1) =
              (if err = None \<and> \<not> maxCodeSizeExceeded then
                 let createDataGas = word_of_nat (length (bytes_of ret)) * CreateDataGas;
                     (ok, c1) = UseGas createDataGas c
                 in if ok then (w\<lparr>sdb := SetCode E contractAddr ret (sdb w)\<rparr>, c1, None)
                    else (w, c1, Some ErrCodeStoreOutOfGas)
               else (w, c, err))
        in if maxCodeSizeExceeded \<or>
              (err1 \<noteq> None \<and> (IsHomestead (chainConfig env) (block env) \<or> err1 \<noteq> Some ErrCodeStoreOutOfGas))
           then
             let c2 = snd (UseGas (Gas c1) c1) in
             (case RevertToSnapshot E snapshot (sdb w1) of
                None \<Rightarrow> Panic
              | Some s \<Rightarrow> Ret (w1\<lparr>sdb := s\<rparr>, if err1 \<noteq> None then None else ret, contractAddr, Gas c2, err1))
           else Ret (w1, if err1 \<noteq> None then None else ret, contractAddr, Gas c1, err1))"

definition evm_Create :: "interp \<Rightarrow> evm_env \<Rightarrow> evm \<Rightarrow> ContractRef \<Rightarrow> bytes \<Rightarrow> u64 \<Rightarrow> int \<Rightarrow>
    (evm \<times> bytes option \<times> address \<times> u64 \<times> vm_error option) outcome" where
  "evm_Create loop env w cl bs gas value =
     (let E = hashing env; this = ref_Address cl in
      if NoRecursion (vmConfig env) \<and> depth w > 0 then Ret (w, None, 0, gas, None)
      else if depth w > unat CallCreateDepth then Ret (w, None, 0, gas, Some ErrDepth)
      else
        let (can, s1) = CanTransfer E this value (sdb w) in
        if \<not> can then Ret (w\<lparr>sdb := s1\<rparr>, None, 0, gas, Some ErrInsufficientBalance)
        else
          let (nonce, s2) = GetNonce E this s1;
              s3 = SetNonce E this (nonce + 1) s2;
              (snapshot, s4) = Snapshot s3;
              contractAddr = CreateAddress E this nonce;
              s5 = CreateAccount E contractAddr s4;
              s6 = (if IsEIP158 (chainConfig env) (block env) then SetNonce E contractAddr 1 s5 else s5);
              s7 = Transfer E this contractAddr value s6;
              c = SetCallCode contractAddr (BytesToHash (keccak256 E bs)) bs
                    (NewContract cl contractAddr (Some value) gas)
          in obind (run loop env c [] (w\<lparr>sdb := s7\<rparr>)) (finish_create env snapshot contractAddr))"

definition subcalls_of :: "interp \<Rightarrow> evm_env \<Rightarrow> subcalls" where
  "subcalls_of loop env =
     \<lparr>sc_Call = evm_Call loop env, sc_CallCode = evm_CallCode loop env,
      sc_DelegateCall = evm_DelegateCall loop env, sc_Create = evm_Create loop env\<rparr>"

text \<open>The loop of \<open>Run\<close>.\<close>

primrec run_loop :: "nat \<Rightarrow> evm_env \<Rightarrow> interp" where
  "run_loop 0 env = (\<lambda>w f. NoFuel)"
| "run_loop (Suc n) env =
     (\<lambda>w f.
        let w1 = w\<lparr>rounds := rounds w + 1\<rparr> in
        if cancelled env (rounds w) then Ret (w1, f, None, None)
        else
          obind (step (subcalls_of (run_loop n env) env) env w1 f) (\<lambda>r.
            case r of
              Next w2 f2 \<Rightarrow> run_loop n env w2 f2
            | Stop w2 f2 ret err \<Rightarrow> Ret (w2, f2, ret, err)))"

text \<open>The entry points, from an account: the fuel bounds the instructions of a call.\<close>

definition Call :: "nat \<Rightarrow> evm_env \<Rightarrow> evm \<Rightarrow> ContractRef \<Rightarrow> address \<Rightarrow> bytes \<Rightarrow> u64 \<Rightarrow> int \<Rightarrow>
    (evm \<times> bytes option \<times> u64 \<times> vm_error option) outcome" where
  "Call n env = evm_Call (run_loop n env) env"

definition CallCode :: "nat \<Rightarrow> evm_env \<Rightarrow> evm \<Rightarrow> ContractRef \<Rightarrow> address \<Rightarrow> bytes \<Rightarrow> u64 \<Rightarrow> int \<Rightarrow>
    (evm \<times> bytes option \<times> u64 \<times> vm_error option) outcome" where
  "CallCode n env = evm_CallCode (run_loop n env) env"

definition DelegateCall :: "nat \<Rightarrow> evm_env \<Rightarrow> evm \<Rightarrow> ContractRef \<Rightarrow> address \<Rightarrow> bytes \<Rightarrow> u64 \<Rightarrow>
    (evm \<times> bytes option \<times> u64 \<times> vm_error option) outcome" where
  "DelegateCall n env = evm_DelegateCall (run_loop n env) env"

definition Create :: "nat \<Rightarrow> evm_env \<Rightarrow> evm \<Rightarrow> ContractRef \<Rightarrow> bytes \<Rightarrow> u64 \<Rightarrow> int \<Rightarrow>
    (evm \<times> bytes option \<times> address \<times> u64 \<times> vm_error option) outcome" where
  "Create n env = evm_Create (run_loop n env) env"

end
