(* ===== verification/Evm_Words.thy ===== *)
theory Evm_Words
  imports Evm "HOL-Library.Signed_Division"
begin

unbundle bit_operations_syntax

text \<open>
  The arithmetic, comparison and bitwise instructions of the EVM on big integers compute the
  operations of 256-bit machine words.
\<close>

type_synonym w256 = "256 word"

lemma U256_of_word: "U256 x = uint (word_of_int x :: w256)"
  by (rule U256_word)

lemma S256_word: "S256 (uint (a :: w256)) = sint a"
  using uint_bounded [of a] by (subst S256_sint) simp_all

lemma big_Cmp_signs: "big_Cmp x y < 0 \<longleftrightarrow> x < y" "big_Cmp x y > 0 \<longleftrightarrow> y < x" "big_Cmp x y = 0 \<longleftrightarrow> x = y"
  "big_Sign x < 0 \<longleftrightarrow> x < 0" "big_Sign x > 0 \<longleftrightarrow> 0 < x" "big_Sign x = 0 \<longleftrightarrow> x = 0"
  by (auto simp: big_Cmp_def big_Sign_def sgn_0_0)

lemma S256_S256: "S256 (sint (b :: w256)) = sint b"
  using sint_lt [of b] by (simp add: S256_def big_Cmp_signs tt255_def)

lemma quotient_words: "(x :: int) \<noteq> 0 \<Longrightarrow> big_Div \<bar>y\<bar> \<bar>x\<bar> * (if y * x < 0 then - 1 else 1) = y sdiv x"
  by (auto simp: big_Div_def signed_divide_int_def sgn_if mult_less_0_iff zero_less_mult_iff)

lemma remainder_words: "(x :: int) \<noteq> 0 \<Longrightarrow> big_Mod \<bar>y\<bar> \<bar>x\<bar> * (if y < 0 then - 1 else 1) = y smod x"
  by (auto simp: big_Mod_def signed_modulo_int_def sgn_if)

lemma signextend_word:
  assumes "n < 256"
  shows "U256 (if bit (uint (b :: w256)) n then uint b OR NOT (2 ^ n - 1) else uint b AND (2 ^ n - 1)) =
    uint (signed_take_bit n b)"
proof -
  have m: "2 ^ n - 1 = (mask n :: int)" by (simp add: mask_eq_exp_minus_1)
  have "(if bit (uint b) n then uint b OR NOT (mask n) else uint b AND mask n) = signed_take_bit n (uint b)"
  proof (rule bit_eqI)
    fix k
    show "bit (if bit (uint b) n then uint b OR NOT (mask n) else uint b AND mask n) k = bit (signed_take_bit n (uint b)) k"
      by (cases "k < n") (auto simp: bit_simps min_def)
  qed
  moreover have "word_of_int (signed_take_bit n (uint b)) = signed_take_bit n b"
    by (rule bit_word_eqI) (use assms in \<open>auto simp: bit_simps min_def\<close>)
  ultimately show ?thesis unfolding m U256_of_word by (simp only:)
qed

lemma Byte_word:
  assumes "unat (a :: w256) < 32"
  shows "uint (Byte (uint b) 32 (nat (big_Int64 (uint a)))) = uint (drop_bit (8 * (31 - unat a)) (b :: w256) AND 0xff)"
proof -
  have u: "uint a = int (unat a)" "uint b = int (unat b)" by simp_all
  have "uint a < 32" using assms u(1) by linarith
  also have "\<dots> < 2 ^ 63" by simp
  finally have "big_Int64 (uint a) = uint a" by (intro big_Int64_small) simp_all
  then have n: "nat (big_Int64 (uint a)) = unat a" by (simp only: u nat_int)
  have "Byte (uint b) 32 (nat (big_Int64 (uint a))) = word_of_nat (unat b div 256 ^ (31 - unat a))"
  proof -
    have "nat \<bar>uint b\<bar> = unat b" by (simp only: u abs_of_nat nat_int)
    then show ?thesis unfolding n Byte_def bigEndianByteAt_eq using assms by simp
  qed
  also have "uint \<dots> = int (unat b div 256 ^ (31 - unat a) mod 256)" by simp
  also have "\<dots> = uint (drop_bit (8 * (31 - unat a)) b) mod 256"
  proof -
    have "(256 :: nat) ^ (31 - unat a) = 2 ^ (8 * (31 - unat a))" by (simp add: power_mult)
    then have "unat b div 256 ^ (31 - unat a) = unat (drop_bit (8 * (31 - unat a)) b)"
      by (simp only: unat_drop_bit_eq) (simp only: drop_bit_eq_div)
    then have "int (unat b div 256 ^ (31 - unat a)) = uint (drop_bit (8 * (31 - unat a)) b)" by simp
    then show ?thesis by (simp only: zmod_int of_nat_numeral)
  qed
  also have "\<dots> = uint (drop_bit (8 * (31 - unat a)) b AND 0xff)"
  proof -
    have "(0xff :: w256) = mask 8" by (simp add: mask_eq_exp_minus_1)
    then have "drop_bit (8 * (31 - unat a)) b AND 0xff = take_bit 8 (drop_bit (8 * (31 - unat a)) b)"
      by (simp only: take_bit_eq_mask)
    then show ?thesis by (simp add: unsigned_take_bit_eq) (simp add: take_bit_eq_mod)
  qed
  finally show ?thesis .
qed


lemma sint_zero: "sint (x :: w256) = 0 \<longleftrightarrow> x = 0"
proof
  assume "sint x = 0"
  then have "word_of_int (sint x) = (0 :: w256)" by simp
  then show "x = 0" by simp
qed simp

lemma U256_mod_word: "c \<noteq> 0 \<Longrightarrow> U256 (x mod uint (c :: w256)) = x mod uint c"
proof -
  assume "c \<noteq> 0"
  then have "0 < uint c" by (simp add: less_le uint_0_iff)
  then have "0 \<le> x mod uint c" "x mod uint c < uint c" by simp_all
  then show ?thesis using uint_bounded [of c] by (intro U256_id) simp_all
qed

lemma signextend_opcode:
  "opSignExtend sc env w (f\<lparr>stk := uint a # uint (b :: w256) # st\<rparr>) =
     finish w (f\<lparr>stk := uint (if a < (31 :: w256) then signed_take_bit (8 * unat a + 7) b else b) # st\<rparr>)"
proof (cases "a < 31")
  case True
  then have a: "unat a < 31" by (simp add: word_less_nat_alt)
  have "uint a = int (unat a)" by simp
  then have "uint a < 31" using a by linarith
  then have "unat (big_Uint64 (uint a)) = unat a" by (subst unat_big_Uint64) simp_all
  then have m: "unat (big_Uint64 (uint a) * 8) = unat a * 8" using a by (subst unat_times_no_overflow) simp_all
  then have "unat (big_Uint64 (uint a) * 8 + 7) = 8 * unat a + 7" using a by (subst unat_plus_no_overflow) simp_all
  then show ?thesis using signextend_word [of "8 * unat a + 7" b] a True \<open>uint a < 31\<close>
    by (cases "bit (uint b) (8 * unat a + 7)") (simp_all add: opSignExtend_def big_Cmp_signs Let_def)
next
  case False
  then have "\<not> big_Cmp (uint a) 31 < 0" by (simp add: big_Cmp_signs word_less_def)
  then show ?thesis using False by (simp add: opSignExtend_def)
qed

lemma Exp_pow_word: "fst (Exp (uint (a :: w256)) (uint (b :: w256))) = uint (a ^ unat b)"
proof -
  have "fst (Exp (uint a) (uint b)) = U256 (uint a ^ nat (uint b))" by (simp only: Exp_mod uint_ge_0 U256_mod)
  also have "\<dots> = uint (a ^ unat b)" by (simp only: U256_of_word of_int_power of_int_uint unat_eq_nat_uint ucast_id)
  finally show ?thesis .
qed

lemma pure2_run: "pure2 h w (f\<lparr>stk := x # y # st\<rparr>) = finish w (f\<lparr>stk := h x y # st\<rparr>)"
  by (simp add: pure2_def)

lemma sdiv_word:
  "(let x = S256 (uint (a :: w256)); y = S256 (uint (b :: w256)) in
    if big_Sign y = 0 then 0
    else let n = (if big_Sign (x * y) < 0 then -1 else 1); res = big_Div \<bar>x\<bar> \<bar>y\<bar> in U256 (res * n)) =
   uint (word_of_int (sint a sdiv sint b) :: w256)"
proof (cases "sint b = 0")
  case True
  then show ?thesis by (simp add: S256_word big_Cmp_signs signed_divide_int_def Let_def)
next
  case False
  then show ?thesis using quotient_words [OF False, of "sint a"]
    by (simp only: S256_word big_Cmp_signs Let_def U256_of_word if_False)
qed

lemma smod_word:
  "(let x = S256 (uint (a :: w256)); y = S256 (uint (b :: w256)) in
    if big_Sign y = 0 then 0
    else let n = (if big_Sign x < 0 then -1 else 1); res = big_Mod \<bar>x\<bar> \<bar>y\<bar> in U256 (res * n)) =
   uint (if b = 0 then 0 else word_of_int (sint a smod sint b) :: w256)"
proof (cases "sint b = 0")
  case True
  moreover from True have "b = 0" by (simp only: sint_zero)
  moreover have "S256 0 = 0" by (simp add: S256_def big_Cmp_signs tt255_def)
  ultimately show ?thesis by (simp add: big_Cmp_signs)
next
  case False
  moreover from False have "b \<noteq> 0" by (simp only: sint_zero) simp
  ultimately show ?thesis using remainder_words [OF False, of "sint a"]
    by (simp only: S256_word big_Cmp_signs Let_def U256_of_word if_False)
qed

section \<open>Instructions as word operations\<close>

definition word_op1 :: "executionFunc \<Rightarrow> (w256 \<Rightarrow> w256) \<Rightarrow> bool" where
  "word_op1 ex h \<longleftrightarrow> (\<forall>sc env w f st a.
     ex sc env w (f\<lparr>stk := uint a # st\<rparr>) = finish w (f\<lparr>stk := uint (h a) # st\<rparr>))"

definition word_op2 :: "executionFunc \<Rightarrow> (w256 \<Rightarrow> w256 \<Rightarrow> w256) \<Rightarrow> bool" where
  "word_op2 ex h \<longleftrightarrow> (\<forall>sc env w f st a b.
     ex sc env w (f\<lparr>stk := uint a # uint b # st\<rparr>) = finish w (f\<lparr>stk := uint (h a b) # st\<rparr>))"

definition word_op3 :: "executionFunc \<Rightarrow> (w256 \<Rightarrow> w256 \<Rightarrow> w256 \<Rightarrow> w256) \<Rightarrow> bool" where
  "word_op3 ex h \<longleftrightarrow> (\<forall>sc env w f st a b c.
     ex sc env w (f\<lparr>stk := uint a # uint b # uint c # st\<rparr>) = finish w (f\<lparr>stk := uint (h a b c) # st\<rparr>))"

lemma pure1_run: "pure1 h w (f\<lparr>stk := x # st\<rparr>) = finish w (f\<lparr>stk := h x # st\<rparr>)"
  by (simp add: pure1_def)

lemma pure3_run: "pure3 h w (f\<lparr>stk := x # y # z # st\<rparr>) = finish w (f\<lparr>stk := h x y z # st\<rparr>)"
  by (simp add: pure3_def)

lemma pure_word_op:
  "(\<And>a. h (uint a) = uint (k1 a)) \<Longrightarrow> word_op1 (\<lambda>sc env. pure1 h) k1"
  "(\<And>a b. g (uint a) (uint b) = uint (k2 a b)) \<Longrightarrow> word_op2 (\<lambda>sc env. pure2 g) k2"
  "(\<And>a b c. j (uint a) (uint b) (uint c) = uint (k3 a b c)) \<Longrightarrow> word_op3 (\<lambda>sc env. pure3 j) k3"
  by (simp_all add: word_op1_def word_op2_def word_op3_def pure1_run pure2_run pure3_run)

lemma uint_positive: "0 < uint (a :: w256) \<longleftrightarrow> a \<noteq> 0"
  by (simp add: less_le uint_0_iff)

lemma arithmetic_words:
  "word_op2 opAdd (+)" "word_op2 opSub (-)" "word_op2 opMul (*)" "word_op2 opDiv (div)"
  "word_op2 opMod (\<lambda>a b. if b = 0 then 0 else a mod b)"
  "word_op2 opSdiv (\<lambda>a b. word_of_int (sint a sdiv sint b))"
  "word_op2 opSmod (\<lambda>a b. if b = 0 then 0 else word_of_int (sint a smod sint b))"
  "word_op2 opExp (\<lambda>a b. a ^ unat b)"
  "word_op3 opAddmod (\<lambda>a b c. if c = 0 then 0 else word_of_int ((uint a + uint b) mod uint c))"
  "word_op3 opMulmod (\<lambda>a b c. if c = 0 then 0 else word_of_int ((uint a * uint b) mod uint c))"
proof -
  note w = U256_of_word big_Cmp_signs uint_0_iff
  show "word_op2 opAdd (+)" "word_op2 opSub (-)" "word_op2 opMul (*)" "word_op2 opDiv (div)"
    "word_op2 opMod (\<lambda>a b. if b = 0 then 0 else a mod b)"
    unfolding opAdd_def opSub_def opMul_def opDiv_def opMod_def
    by (rule pure_word_op, auto simp: w big_Div_def big_Mod_def word_div_def word_mod_def uint_positive)+
  show "word_op2 opSdiv (\<lambda>a b. word_of_int (sint a sdiv sint b))"
    "word_op2 opSmod (\<lambda>a b. if b = 0 then 0 else word_of_int (sint a smod sint b))"
    "word_op2 opExp (\<lambda>a b. a ^ unat b)"
    unfolding opSdiv_def opSmod_def opExp_def by (rule pure_word_op, rule sdiv_word smod_word Exp_pow_word)+
  show "word_op3 opAddmod (\<lambda>a b c. if c = 0 then 0 else word_of_int ((uint a + uint b) mod uint c))"
    "word_op3 opMulmod (\<lambda>a b c. if c = 0 then 0 else word_of_int ((uint a * uint b) mod uint c))"
    unfolding opAddmod_def opMulmod_def by (rule pure_word_op, simp add: w big_Mod_def uint_positive)+
qed

lemma comparison_words:
  "word_op2 opLt (\<lambda>a b. of_bool (a < b))" "word_op2 opGt (\<lambda>a b. of_bool (b < a))"
  "word_op2 opSlt (\<lambda>a b. of_bool (a <s b))" "word_op2 opSgt (\<lambda>a b. of_bool (b <s a))"
  "word_op2 opEq (\<lambda>a b. of_bool (a = b))" "word_op1 opIszero (\<lambda>a. of_bool (a = 0))"
proof -
  show "word_op2 opLt (\<lambda>a b. of_bool (a < b))" "word_op2 opGt (\<lambda>a b. of_bool (b < a))"
    "word_op2 opSlt (\<lambda>a b. of_bool (a <s b))" "word_op2 opSgt (\<lambda>a b. of_bool (b <s a))"
    "word_op2 opEq (\<lambda>a b. of_bool (a = b))"
    unfolding opLt_def opGt_def opSlt_def opSgt_def opEq_def
    by (rule pure_word_op, simp add: S256_word S256_S256 big_Cmp_signs word_less_def word_sless_alt
      word_uint_eq_iff Let_def)+
  show "word_op1 opIszero (\<lambda>a. of_bool (a = 0))"
    unfolding opIszero_def by (rule pure_word_op) (simp add: big_Cmp_signs uint_positive)
qed

lemma bit_words:
  "word_op2 opAnd (AND)" "word_op2 opOr (OR)" "word_op2 opXor (XOR)" "word_op1 opNot NOT"
  "word_op2 opSignExtend (\<lambda>a b. if a < 31 then signed_take_bit (8 * unat a + 7) b else b)"
  "word_op2 opByte (\<lambda>a b. if a < 32 then drop_bit (8 * (31 - unat a)) b AND 0xff else 0)"
proof -
  show "word_op2 opAnd (AND)" "word_op2 opOr (OR)" "word_op2 opXor (XOR)" "word_op1 opNot NOT"
    unfolding opAnd_def opOr_def opXor_def opNot_def
    by (rule pure_word_op, simp add: U256_of_word uint_and uint_or uint_xor of_int_not_eq)+
  show "word_op2 opSignExtend (\<lambda>a b. if a < 31 then signed_take_bit (8 * unat a + 7) b else b)"
    by (simp add: word_op2_def signextend_opcode del: if_split)
  have "uint a < 32 \<longleftrightarrow> a < 32" "unat a < 32 \<longleftrightarrow> a < 32" for a :: w256
    by (simp add: word_less_def, simp add: word_less_nat_alt)
  then show "word_op2 opByte (\<lambda>a b. if a < 32 then drop_bit (8 * (31 - unat a)) b AND 0xff else 0)"
    unfolding opByte_def by (intro pure_word_op) (simp add: Byte_word big_Cmp_signs)
qed

text \<open>C26. The arithmetic, comparison and bitwise instructions are the operations on 256-bit words:
  modular arithmetic, division with zero for a zero divisor, truncating signed division,
  exponentiation, unsigned and signed comparison, bitwise logic, sign extension and byte
  selection.\<close>

theorem instructions_are_word_operations:
  "word_op2 opAdd (+) \<and> word_op2 opSub (-) \<and> word_op2 opMul (*) \<and> word_op2 opDiv (div) \<and>
   word_op2 opMod (\<lambda>a b. if b = 0 then 0 else a mod b) \<and>
   word_op2 opSdiv (\<lambda>a b. word_of_int (sint a sdiv sint b)) \<and>
   word_op2 opSmod (\<lambda>a b. if b = 0 then 0 else word_of_int (sint a smod sint b)) \<and>
   word_op2 opExp (\<lambda>a b. a ^ unat b) \<and>
   word_op3 opAddmod (\<lambda>a b c. if c = 0 then 0 else word_of_int ((uint a + uint b) mod uint c)) \<and>
   word_op3 opMulmod (\<lambda>a b c. if c = 0 then 0 else word_of_int ((uint a * uint b) mod uint c)) \<and>
   word_op2 opLt (\<lambda>a b. of_bool (a < b)) \<and> word_op2 opGt (\<lambda>a b. of_bool (b < a)) \<and>
   word_op2 opSlt (\<lambda>a b. of_bool (a <s b)) \<and> word_op2 opSgt (\<lambda>a b. of_bool (b <s a)) \<and>
   word_op2 opEq (\<lambda>a b. of_bool (a = b)) \<and> word_op1 opIszero (\<lambda>a. of_bool (a = 0)) \<and>
   word_op2 opAnd (AND) \<and> word_op2 opOr (OR) \<and> word_op2 opXor (XOR) \<and> word_op1 opNot NOT \<and>
   word_op2 opSignExtend (\<lambda>a b. if a < 31 then signed_take_bit (8 * unat a + 7) b else b) \<and>
   word_op2 opByte (\<lambda>a b. if a < 32 then drop_bit (8 * (31 - unat a)) b AND 0xff else 0)"
  by (intro conjI arithmetic_words comparison_words bit_words)

end
