(* ===== verification/Evm_Analysis.thy ===== *)
theory Evm_Analysis
  imports Evm
begin

unbundle bit_operations_syntax

text \<open>
  Jump destination analysis and memory fees: the bit vector of \<open>jumpdests\<close> marks exactly the
  \<open>JUMPDEST\<close> bytes that start an instruction, so that jumps into the data of a \<open>PUSH\<close> are refused; and
  the fee of a memory expansion is the difference of the quadratic memory fee, as long as
  the memory has less than \<open>2^32\<close> words.
\<close>

section \<open>Instruction boundaries\<close>

definition width :: "byte \<Rightarrow> nat" where
  "width op = (if PUSH1 \<le> op \<and> op \<le> PUSH32 then unat op - unat PUSH1 + 2 else 1)"

text \<open>The positions reached from \<open>p\<close> by stepping over whole instructions.\<close>

inductive boundary :: "bytes \<Rightarrow> nat \<Rightarrow> nat \<Rightarrow> bool" for bs where
  here: "boundary bs p p"
| skip: "p < length bs \<Longrightarrow> boundary bs (p + width (bs ! p)) q \<Longrightarrow> boundary bs p q"

inductive_cases boundaryE: "boundary bs p q"

lemma boundary_le: "boundary bs p q \<Longrightarrow> p \<le> q"
  by (induction rule: boundary.induct) auto

lemma boundary_unfold: "boundary bs p q \<longleftrightarrow> q = p \<or> p < length bs \<and> boundary bs (p + width (bs ! p)) q"
  by (auto elim: boundaryE intro: boundary.intros)

definition valid_dest :: "bytes \<Rightarrow> nat \<Rightarrow> nat \<Rightarrow> bool" where
  "valid_dest bs p q \<longleftrightarrow> boundary bs p q \<and> q < length bs \<and> bs ! q = JUMPDEST"

lemma valid_dest_unfold:
  "valid_dest bs p q \<longleftrightarrow> p < length bs \<and> (q = p \<and> bs ! p = JUMPDEST \<or> valid_dest bs (p + width (bs ! p)) q)"
  using boundary_unfold [of bs p q] by (auto simp: valid_dest_def)

definition marked :: "bytes \<Rightarrow> nat \<Rightarrow> bool" where
  "marked m i \<longleftrightarrow> bit (m ! (i div 8)) (i mod 8)"

lemma marked_set:
  assumes "k div 8 < length m"
  shows "marked (m[k div 8 := (m ! (k div 8)) OR push_bit (k mod 8) 1]) i \<longleftrightarrow> marked m i \<or> i = k"
proof (cases "i div 8 = k div 8")
  case True
  have "i mod 8 = k mod 8 \<longleftrightarrow> i = k" using True by (metis div_mult_mod_eq)
  then show ?thesis using assms True
    by (auto simp: marked_def bit_or_iff bit_exp_iff)
next
  case False
  then show ?thesis using assms by (auto simp: marked_def)
qed

lemma jumpdests_loop_marks:
  assumes "length m = length bs div 8 + 1"
  shows "length (jumpdests_loop bs m k) = length m \<and>
    (marked (jumpdests_loop bs m k) i \<longleftrightarrow> marked m i \<or> valid_dest bs k i)"
  using assms
proof (induction bs m k rule: jumpdests_loop.induct)
  case (1 bs m k)
  show ?case
  proof (cases "k < length bs")
    case False
    then show ?thesis by (simp add: jumpdests_loop.simps [of bs m k] valid_dest_unfold [of bs k])
  next
    case True
    have p: "k div 8 < length m" using True 1(4) div_le_mono [of k "length bs" 8] by simp
    consider "bs ! k = JUMPDEST" | "bs ! k \<noteq> JUMPDEST" "PUSH1 \<le> bs ! k \<and> bs ! k \<le> PUSH32"
      | "bs ! k \<noteq> JUMPDEST" "\<not> (PUSH1 \<le> bs ! k \<and> bs ! k \<le> PUSH32)" by blast
    then show ?thesis
    proof cases
      case 1
      have w: "width (bs ! k) = 1" unfolding 1 by (simp add: width_def JUMPDEST_def PUSH1_def)
      show ?thesis
        using "1.IH"(1) [OF True refl 1] 1 True w marked_set [OF p] "1.prems"
        by (auto simp: jumpdests_loop.simps [of bs m k] valid_dest_unfold [of bs k])
    next
      case 2
      have e: "jumpdests_loop bs m k = jumpdests_loop bs m (Suc (k + (unat (bs ! k) - unat PUSH1 + 1)))"
        using 2 True by (subst jumpdests_loop.simps) (simp add: Let_def)
      show ?thesis using "1.IH"(2) [OF True refl 2] 2 True "1.prems"
        unfolding e by (simp add: valid_dest_unfold [of bs k] width_def)
    next
      case 3
      have e: "jumpdests_loop bs m k = jumpdests_loop bs m (Suc k)"
        using 3 True by (subst jumpdests_loop.simps) (auto simp: Let_def)
      have "width (bs ! k) = 1" using 3(2) by (simp only: width_def if_False)
      then show ?thesis using "1.IH"(3) [OF True refl 3] 3(1) True "1.prems"
        unfolding e by (simp add: valid_dest_unfold [of bs k])
    qed
  qed
qed

lemma jumpdests_marks: "marked (jumpdests bs) i \<longleftrightarrow> valid_dest bs 0 i" if "i < 8 * (length bs div 8 + 1)"
proof -
  have "\<not> marked (replicate (length bs div 8 + 1) 0) i"
  proof -
    have "i div 8 < length bs div 8 + 1" using that by (simp add: less_mult_imp_div_less mult.commute)
    then show ?thesis unfolding marked_def by (subst nth_replicate) simp_all
  qed
  then show ?thesis using jumpdests_loop_marks [of "replicate (length bs div 8 + 1) 0" bs 0 i]
    by (simp add: jumpdests_def)
qed

lemma length_jumpdests: "length (jumpdests bs) = length bs div 8 + 1"
  using jumpdests_loop_marks [of "replicate (length bs div 8 + 1) 0" bs 0] by (simp add: jumpdests_def)

lemma and_push_bit_1: "(x :: byte) AND push_bit n 1 \<noteq> 0 \<longleftrightarrow> n < 8 \<and> bit x n"
proof -
  have "x AND push_bit n 1 \<noteq> 0 \<longleftrightarrow> (\<exists>j. bit (x AND push_bit n 1) j)" by (metis bit_0_eq bit_eqI bot_apply bot_bool_def)
  also have "\<dots> \<longleftrightarrow> n < 8 \<and> bit x n" by (auto simp: bit_simps)
  finally show ?thesis .
qed

text \<open>C27. The jump check is exact: with a cache that has no entry for the code's hash or the
  analysis of this code, it never panics, accepts a destination exactly if it is a
  \<open>JUMPDEST\<close> byte that starts an instruction, and leaves the cache with the analysis of the code
  or unchanged. (Code longer than \<open>2^62\<close> bytes does not fit in memory.)\<close>

theorem destinations_has_exact:
  assumes "0 \<le> dest" and "length bs \<le> 2 ^ 62" and "\<forall>m. d h = Some m \<longrightarrow> m = jumpdests bs"
  shows "\<exists>d'. destinations_has h bs dest d =
      Ret (boundary bs 0 (nat dest) \<and> nat dest < length bs \<and> bs ! nat dest = JUMPDEST, d') \<and>
    (d' = d \<or> d' = d(h \<mapsto> jumpdests bs))"
proof (cases "dest < int (length bs)")
  case False
  then have "63 \<le> BitLen dest \<or> length bs \<le> unat (big_Uint64 dest)"
    using unat_big_Uint64 [of dest] assms(1) BitLen_gt [of 62 dest] by (cases "dest < 2 ^ 62") auto
  then show ?thesis using False assms(1) by (auto simp: destinations_has_def)
next
  case True
  then have d: "dest < 2 ^ 62" using assms(2) by (simp add: less_le_trans)
  then have u: "unat (big_Uint64 dest) = nat dest" using assms(1) by (intro unat_big_Uint64) simp_all
  have b: "\<not> 63 \<le> BitLen dest" using d assms(1) BitLen_gt [of 62 dest] by auto
  have n: "nat dest < length bs" using True assms(1) by linarith
  then have n2: "nat dest < 8 * (length bs div 8 + 1)"
    using dividend_less_times_div [of 8 "length bs"] by simp
  have m: "(jumpdests bs ! (nat dest div 8)) AND push_bit (nat dest mod 8) 1 \<noteq> 0 \<longleftrightarrow> valid_dest bs 0 (nat dest)"
    using jumpdests_marks [OF n2] by (simp only: and_push_bit_1 marked_def) simp
  have l: "nat dest div 8 < length (jumpdests bs)" using n by (simp add: length_jumpdests div_le_mono less_Suc_eq_le)
  have "\<exists>d'. destinations_has h bs dest d = Ret (valid_dest bs 0 (nat dest), d') \<and>
      (d' = d \<or> d' = d(h \<mapsto> jumpdests bs))"
  proof (cases "d h")
    case None
    then show ?thesis using u b n m l by (simp add: destinations_has_def Let_def)
  next
    case (Some x)
    then have "x = jumpdests bs" using assms(3) by simp
    then show ?thesis using Some u b n m l by (simp add: destinations_has_def Let_def)
  qed
  then show ?thesis by (simp add: valid_dest_def)
qed


theorem destinations_has_exact_witness:
  "\<exists>d'. destinations_has 7 [PUSH1, JUMPDEST, JUMPDEST] 2 Map.empty =
      Ret (boundary [PUSH1, JUMPDEST, JUMPDEST] 0 (nat 2) \<and> nat 2 < length [PUSH1, JUMPDEST, JUMPDEST] \<and>
        [PUSH1, JUMPDEST, JUMPDEST] ! nat 2 = JUMPDEST, d') \<and>
    (d' = Map.empty \<or> d' = [7 \<mapsto> jumpdests [PUSH1, JUMPDEST, JUMPDEST]])"
  by (rule destinations_has_exact) simp_all

section \<open>The memory fee\<close>

text \<open>The fee of a memory of \<open>n\<close> words: linear plus quadratic.\<close>

definition memory_fee :: "nat \<Rightarrow> nat" where
  "memory_fee n = 3 * n + n * n div 512"

lemma memory_fee_mono: "a \<le> b \<Longrightarrow> memory_fee a \<le> memory_fee b"
  unfolding memory_fee_def by (intro add_mono mult_le_mono div_le_mono) simp_all

lemma memory_fee_bound: "n < 2 ^ 32 \<Longrightarrow> memory_fee n < 2 ^ 56"
proof -
  assume n: "n < 2 ^ 32"
  then have "n * n < 2 ^ 32 * 2 ^ 32" by (intro mult_strict_mono) simp_all
  then have "n * n div 512 < 2 ^ 55" by (intro less_mult_imp_div_less) simp
  then show ?thesis using n by (simp add: memory_fee_def)
qed

lemma unat_toWordSize: "unat n \<le> 2 ^ 64 - 32 \<Longrightarrow> unat (toWordSize n) = (unat n + 31) div 32"
proof -
  assume n: "unat n \<le> 2 ^ 64 - 32"
  have "unat (-1 - 31 :: u64) = 2 ^ 64 - 32" by simp
  then have "\<not> n > -1 - 31" using n by (simp add: word_less_nat_alt)
  moreover have "unat (n + 31) = unat n + 31" using n by (subst unat_plus_no_overflow) simp_all
  ultimately show ?thesis by (simp add: toWordSize_def unat_div)
qed

text \<open>A memory is well charged if its size is in words and the fee paid is the fee of its size.\<close>

definition mem_ok :: "Memory \<Rightarrow> bool" where
  "mem_ok m \<longleftrightarrow> 32 dvd length (store m) \<and> length (store m) < 2 ^ 37 \<and>
     unat (lastGasCost m) = memory_fee (length (store m) div 32)"

definition words :: "nat \<Rightarrow> nat" where
  "words n = (n + 31) div 32"

text \<open>C28. The memory fee is exact below 128 GiB: expanding a well charged memory to a size of less
  than \<open>2^32\<close> words costs the difference of the quadratic fees (nothing if the memory is
  large enough), no intermediate product wraps around, and the memory is well charged
  again once it has been resized.\<close>

theorem memoryGasCost_exact:
  assumes "mem_ok m" and "unat n + 31 < 2 ^ 37"
  shows "\<exists>g m'. memoryGasCost m n = (Inr g, m') \<and>
    unat g = memory_fee (words (unat n)) - memory_fee (length (store m) div 32) \<and>
    mem_ok (mem_Resize (toWordSize n * 32) m')"
proof -
  let ?w = "toWordSize n" and ?old = "length (store m) div 32"
  have n: "unat n \<le> 2 ^ 64 - 32" using assms(2) by simp
  have w: "unat ?w = words (unat n)" using unat_toWordSize [OF n] by (simp add: words_def)
  have w32: "words (unat n) < 2 ^ 32" using assms(2) by (simp add: words_def div_less_iff_less_mult)
  have s: "unat (?w * 32) = words (unat n) * 32" using w w32 by (subst unat_times_no_overflow) simp_all
  have len: "length (store m) = ?old * 32" using assms(1) by (simp add: mem_ok_def)
  have ng: "\<not> n > -1 - 32"
  proof -
    have "unat (-1 - 32 :: u64) = 2 ^ 64 - 33" by simp
    then show ?thesis using assms(2) by (simp add: word_less_nat_alt)
  qed
  show ?thesis
  proof (cases "words (unat n) \<le> ?old")
    case True
    then have "memoryGasCost m n = (Inr 0, m)"
      using ng s len by (auto simp: memoryGasCost_def Let_def mem_Len_def)
    moreover have "mem_Resize (?w * 32) m = m" using True s len by (simp add: mem_Resize_def)
    ultimately show ?thesis using assms(1) memory_fee_mono [OF True] by simp
  next
    case False
    let ?fee = "?w * MemoryGas + ?w * ?w div QuadCoeffDiv"
    have sq: "unat (?w * ?w) = words (unat n) * words (unat n)"
    proof -
      have "words (unat n) * words (unat n) < 2 ^ 32 * 2 ^ 32" using w32 by (intro mult_strict_mono) simp_all
      then show ?thesis using w by (subst unat_times_no_overflow) simp_all
    qed
    have fee: "unat ?fee = memory_fee (words (unat n))"
    proof -
      have l: "unat (?w * MemoryGas) = 3 * words (unat n)"
        using w w32 by (subst unat_times_no_overflow) (simp_all add: params)
      have q: "unat (?w * ?w div QuadCoeffDiv) = words (unat n) * words (unat n) div 512"
        by (simp add: unat_div sq params)
      show ?thesis using l q memory_fee_bound [OF w32]
        by (subst unat_plus_no_overflow) (simp_all add: memory_fee_def)
    qed
    have old: "unat (lastGasCost m) = memory_fee ?old" using assms(1) by (simp add: mem_ok_def)
    have n0: "n \<noteq> 0" using False by (auto simp: words_def)
    have c: "memoryGasCost m n = (Inr (?fee - lastGasCost m), m\<lparr>lastGasCost := ?fee\<rparr>)"
      using ng n0 False s len by (simp add: memoryGasCost_def Let_def mem_Len_def)
    have "unat (?fee - lastGasCost m) = memory_fee (words (unat n)) - memory_fee ?old"
      using memory_fee_mono [of ?old "words (unat n)"] False fee old
      by (subst unat_sub) (simp_all add: word_le_nat_alt)
    moreover have "mem_ok (mem_Resize (?w * 32) (m\<lparr>lastGasCost := ?fee\<rparr>))"
      using False s len fee w32 by (simp add: mem_Resize_def mem_ok_def)
    ultimately show ?thesis using c by blast
  qed
qed

theorem memoryGasCost_exact_witness:
  "\<exists>g m'. memoryGasCost NewMemory 1000 = (Inr g, m') \<and>
    unat g = memory_fee (words (unat (1000 :: u64))) - memory_fee (length (store NewMemory) div 32) \<and>
    mem_ok (mem_Resize (toWordSize 1000 * 32) m')"
  by (rule memoryGasCost_exact) (simp_all add: NewMemory_def mem_ok_def memory_fee_def)


end
