(* ===== verification/Evm_Progress.thy ===== *)
theory Evm_Progress
  imports Evm
begin

text \<open>
  Gas and fuel of the interpreter. Every instruction either stops the loop or costs gas; the ones
  that call hand on less gas than the frame had. Hence one unit of fuel more than the gas is enough
  for a call, more fuel gives the same result, and no call returns more gas than it got.
\<close>

section \<open>Instructions without calls\<close>

definition gas_of :: "frame \<Rightarrow> nat" where
  "gas_of f = unat (Gas (contract f))"

text \<open>An instruction is quiet if it returns without using the fuel of a call and leaves the gas alone.\<close>

definition quiet :: "executionFunc \<Rightarrow> bool" where
  "quiet ex \<longleftrightarrow> (\<forall>sc env w f. ex sc env w f \<noteq> NoFuel \<and> (\<forall>sc'. ex sc' env w f = ex sc env w f) \<and>
     (\<forall>w' f' r e. ex sc env w f = Ret (w', f', r, e) \<longrightarrow> Gas (contract f') = Gas (contract f)))"

lemma obind_eq: "obind x f = Ret r \<longleftrightarrow> (\<exists>y. x = Ret y \<and> f y = Ret r)"
  "obind x f = NoFuel \<longleftrightarrow> x = NoFuel \<or> (\<exists>y. x = Ret y \<and> f y = NoFuel)"
  by (cases x; simp)+

lemma mem_no_fuel [simp]: "mem_Get a b m \<noteq> NoFuel" "mem_GetPtr a b m \<noteq> NoFuel" "mem_Set x y v m \<noteq> NoFuel"
  by (simp_all add: mem_Get_def mem_GetPtr_def mem_Set_def)

lemma has_no_fuel [simp]: "destinations_has h bs d c \<noteq> NoFuel"
  by (auto simp: destinations_has_def Let_def split: option.split)

lemma stack_no_fuel [simp]: "stack_dup n st \<noteq> NoFuel" "stack_swap n st \<noteq> NoFuel"
  by (simp_all add: stack_dup_def stack_swap_def)

lemma quiet_pure: "quiet (\<lambda>sc env. pure1 (h env))" "quiet (\<lambda>sc env. pure2 (h2 env))" "quiet (\<lambda>sc env. pure3 (h3 env))"
  "quiet (\<lambda>sc env w f. push (h4 env f) w f)" "quiet (\<lambda>sc env w f. pure1 (h5 env f) w f)"
  by (auto simp: quiet_def pure1_def pure2_def pure3_def push_def finish_def split: list.splits)

lemmas quiet_unfold = quiet_def finish_def copy_to_memory_def jump_to_def obind_eq

lemma quiet_arith:
  "quiet opAdd" "quiet opSub" "quiet opMul" "quiet opDiv" "quiet opSdiv" "quiet opMod" "quiet opSmod" "quiet opExp"
  "quiet opNot" "quiet opLt" "quiet opGt" "quiet opSlt" "quiet opSgt" "quiet opEq" "quiet opIszero" "quiet opAnd"
  "quiet opOr" "quiet opXor" "quiet opByte" "quiet opAddmod" "quiet opMulmod"
  unfolding opAdd_def opSub_def opMul_def opDiv_def opSdiv_def opMod_def opSmod_def opExp_def opNot_def opLt_def
    opGt_def opSlt_def opSgt_def opEq_def opIszero_def opAnd_def opOr_def opXor_def opByte_def opAddmod_def opMulmod_def
  by (rule quiet_pure)+

lemma quiet_env:
  "quiet opAddress" "quiet opOrigin" "quiet opCaller" "quiet opCalldataLoad" "quiet opCalldataSize" "quiet opCodeSize"
  "quiet opGasprice" "quiet opBlockhash" "quiet opCoinbase" "quiet opTimestamp" "quiet opNumber" "quiet opDifficulty"
  "quiet opGasLimit" "quiet opPc" "quiet opMsize" "quiet opGas"
  unfolding opAddress_def opOrigin_def opCaller_def opCalldataLoad_def opCalldataSize_def opCodeSize_def
    opGasprice_def opBlockhash_def opCoinbase_def opTimestamp_def opNumber_def opDifficulty_def
    opGasLimit_def opPc_def opMsize_def opGas_def
  by (rule quiet_pure)+

lemma quiet_SignExtend: "quiet opSignExtend"
  by (simp add: quiet_unfold opSignExtend_def Let_def split: list.split)

lemma quiet_state:
  "quiet opSha3" "quiet opBalance" "quiet opCallValue" "quiet opCalldataCopy" "quiet opExtCodeSize" "quiet opCodeCopy"
  "quiet opExtCodeCopy" "quiet opPop" "quiet opMload" "quiet opMstore" "quiet opMstore8" "quiet opSload" "quiet opSstore"
  "quiet opJump" "quiet opJumpi" "quiet opJumpdest" "quiet opReturn" "quiet opStop" "quiet opSuicide"
  by (auto simp: quiet_unfold opSha3_def opBalance_def opCallValue_def opCalldataCopy_def opExtCodeSize_def opCodeCopy_def
      opExtCodeCopy_def opPop_def opMload_def opMstore_def opMstore8_def opSload_def opSstore_def
      opJump_def opJumpi_def opJumpdest_def opReturn_def opStop_def opSuicide_def push_def Let_def split_beta
      split: list.split option.split)

lemma quiet_families: "quiet (makeLog n)" "quiet (makePush k n)" "quiet (makeDup n)" "quiet (makeSwap n)"
  by (auto simp: quiet_unfold makeLog_def makePush_def makeDup_def makeSwap_def Let_def split: list.split)

lemmas quiet_ops = quiet_arith quiet_env quiet_SignExtend quiet_state quiet_families

section \<open>Gas functions\<close>

text \<open>A gas function returns and does not touch the contract; a costly one never returns a zero cost
  under a gas table of the protocol.\<close>

definition fair :: "gasFunc \<Rightarrow> bool" where
  "fair g \<longleftrightarrow> (\<forall>env gt w f ms. g env gt w f ms \<noteq> NoFuel \<and>
     (\<forall>w' f' r. g env gt w f ms = Ret (w', f', r) \<longrightarrow> contract f' = contract f))"

definition priced :: "GasTable \<Rightarrow> bool" where
  "priced gt \<longleftrightarrow> 0 < ExtcodeSize gt \<and> 0 < ExtcodeCopy gt \<and> 0 < gt_Balance gt \<and> 0 < SLoad gt \<and>
     40 \<le> unat (Calls gt) \<and> unat (Calls gt) \<le> 700"

definition costly :: "gasFunc \<Rightarrow> bool" where
  "costly g \<longleftrightarrow> (\<forall>env gt w f ms w' f' c. priced gt \<longrightarrow> g env gt w f ms = Ret (w', f', Inr c) \<longrightarrow> 0 < c)"

lemma priced_tables: "priced (cfg_GasTable c num)"
  by (simp add: priced_def cfg_GasTable_def GasTableHomestead_def GasTableHomesteadGasRepriceFork_def GasTableEIP158_def)

lemma gas_plus_Inr:
  assumes "gas_plus g h = Inr c"
  shows "\<exists>a b. g = Inr a \<and> h = Inr b \<and> unat c = unat a + unat b"
proof -
  obtain a b where ab: "g = Inr a" "h = Inr b" using assms by (auto simp: gas_plus_def split: sum.splits)
  then have "c = a + b" "\<not> snd (SafeAdd a b)"
    using assms by (auto simp: gas_plus_def SafeAdd_def split: if_splits)
  then show ?thesis using ab SafeAdd_correct [of a b] by (auto simp: unat_plus_no_overflow)
qed

lemma gas_plus_pos: "gas_plus g (Inr k) = Inr c \<Longrightarrow> 0 < k \<Longrightarrow> 0 < c"
  by (drule gas_plus_Inr) (auto simp: word_less_nat_alt)

lemma gas_plus_pos2: "gas_plus (gas_plus g (Inr k)) h = Inr c \<Longrightarrow> 0 < k \<Longrightarrow> 0 < c"
  by (drule gas_plus_Inr, elim exE conjE, drule gas_plus_Inr) (auto simp: word_less_nat_alt)

lemma gas_plus_pos3: "gas_plus (gas_plus (gas_plus g (Inr k)) h) i = Inr c \<Longrightarrow> 0 < k \<Longrightarrow> 0 < c"
  by (drule gas_plus_Inr, elim exE conjE, drule gas_plus_Inr, elim exE conjE, drule gas_plus_Inr)
    (auto simp: word_less_nat_alt)

lemma mem_gas_eq: "mem_gas f ms add w = Ret (w, f\<lparr>mem := snd (memoryGasCost (mem f) ms)\<rparr>, add (fst (memoryGasCost (mem f) ms)))"
  by (simp add: mem_gas_def split_beta)

lemma call_gas_contract: "call_gas gt b f = (f1, r) \<Longrightarrow> contract f1 = contract f"
  by (auto simp: call_gas_def split: sum.splits)

lemma fair_gas:
  "fair (constGasFunc g)" "fair gasCalldataCopy" "fair gasSStore" "fair (makeGasLog n)" "fair gasSha3" "fair gasCodeCopy"
  "fair gasExtCodeCopy" "fair gasMLoad" "fair gasMStore8" "fair gasMStore" "fair gasCreate" "fair gasBalance"
  "fair gasExtCodeSize" "fair gasSLoad" "fair gasExp" "fair gasReturn" "fair gasSuicide" "fair gasPush" "fair gasSwap"
  "fair gasDup"
  by (auto simp: fair_def constGasFunc_def gasCalldataCopy_def gasSStore_def makeGasLog_def gasSha3_def gasCodeCopy_def
      gasExtCodeCopy_def gasMLoad_def gasMStore8_def gasMStore_def gasCreate_def gasBalance_def
      gasExtCodeSize_def gasSLoad_def gasExp_def gasReturn_def gasSuicide_def gasPush_def gasSwap_def
      gasDup_def mem_gas_eq Let_def split_beta split: option.split list.split)

lemma costly_gas:
  "0 < g \<Longrightarrow> costly (constGasFunc g)" "costly gasCalldataCopy" "costly gasSStore" "costly (makeGasLog n)" "costly gasSha3"
  "costly gasCodeCopy" "costly gasExtCodeCopy" "costly gasMLoad" "costly gasMStore8" "costly gasMStore" "costly gasCreate"
  "costly gasBalance" "costly gasExtCodeSize" "costly gasSLoad" "costly gasExp" "costly gasPush" "costly gasSwap"
  "costly gasDup"
  by (auto simp: costly_def priced_def constGasFunc_def gasCalldataCopy_def gasSStore_def makeGasLog_def gasSha3_def gasCodeCopy_def
      gasExtCodeCopy_def gasMLoad_def gasMStore8_def gasMStore_def gasCreate_def gasBalance_def
      gasExtCodeSize_def gasSLoad_def gasExp_def gasPush_def gasSwap_def gasDup_def mem_gas_eq Let_def split_beta params
      dest: gas_plus_pos gas_plus_pos2 gas_plus_pos3 split: option.splits list.splits if_splits)

text \<open>The cost of a call includes the gas for the callee, which is on the stack, and a base cost; the
  base cost is above the stipend when value is transferred.\<close>

lemma call_gas_Inr:
  assumes "call_gas gt (Inr b) f = (f1, Inr c)"
  shows "\<exists>(cg :: u64). stk f1 = uint cg # tl (stk f) \<and> unat c = unat b + unat cg \<and> mem f1 = mem f \<and> contract f1 = contract f \<and> pc f1 = pc f"
proof -
  obtain cg where cg: "f1 = f\<lparr>stk := uint cg # tl (stk f)\<rparr>" "gas_plus (Inr b) (Inr cg) = Inr c"
    using assms by (auto simp: call_gas_def split: sum.splits)
  from gas_plus_Inr [OF cg(2)] have "unat c = unat b + unat cg" by auto
  then show ?thesis using cg(1) by (intro exI [of _ cg]) simp
qed

lemma call_gas_Inl: "call_gas gt b f = (f1, Inr c) \<Longrightarrow> \<exists>x. b = Inr x"
  by (cases b) (auto simp: call_gas_def)


definition call_priced :: "(stack \<Rightarrow> nat) \<Rightarrow> gasFunc \<Rightarrow> bool" where
  "call_priced stipend g \<longleftrightarrow> (\<forall>env gt w f ms w' f' c. priced gt \<longrightarrow> g env gt w f ms = Ret (w', f', Inr c) \<longrightarrow>
     (\<exists>(cg :: u64) b. stk f' = uint cg # tl (stk f) \<and> stk f \<noteq> [] \<and> unat c = b + unat cg \<and> stipend (stk f) < b \<and>
        contract f' = contract f))"

text \<open>The stipend that \<open>CALL\<close> and \<open>CALLCODE\<close> add for a value on the stack, and none for \<open>DELEGATECALL\<close>.\<close>

definition value_stipend :: "stack \<Rightarrow> nat" where
  "value_stipend st = (if 2 < length st \<and> U256 (st ! 2) \<noteq> 0 then 2300 else 0)"

lemma U256_0 [simp]: "U256 0 = 0"
  by (simp add: U256_def)

lemma call_base:
  assumes "priced gt"
  shows "unat (Calls gt + CallNewAccountGas) = unat (Calls gt) + 25000"
    "unat (Calls gt + CallValueTransferGas) = unat (Calls gt) + 9000"
    "unat (Calls gt + CallNewAccountGas + CallValueTransferGas) = unat (Calls gt) + 34000"
proof -
  have c: "unat (Calls gt) \<le> 700" using assms by (simp add: priced_def)
  show n: "unat (Calls gt + CallNewAccountGas) = unat (Calls gt) + 25000"
    using c by (subst unat_plus_no_overflow) (simp_all add: params)
  show "unat (Calls gt + CallValueTransferGas) = unat (Calls gt) + 9000"
    using c by (subst unat_plus_no_overflow) (simp_all add: params)
  show "unat (Calls gt + CallNewAccountGas + CallValueTransferGas) = unat (Calls gt) + 34000"
    using c n by (subst unat_plus_no_overflow) (simp_all add: params)
qed

lemma call_gas_step:
  assumes "call_gas gt r f0 = (f1, Inr c)" and "\<And>b. r = Inr b \<Longrightarrow> k < unat b"
  shows "\<exists>(cg :: u64) b. stk f1 = uint cg # tl (stk f0) \<and> unat c = b + unat cg \<and> k < b \<and> contract f1 = contract f0"
proof -
  obtain b where b: "r = Inr b" using call_gas_Inl [OF assms(1)] by blast
  then show ?thesis using call_gas_Inr [of gt b f0 f1 c] assms by blast
qed

lemma call_priced_gas: "call_priced value_stipend gasCall" "call_priced value_stipend gasCallCode"
  "call_priced (\<lambda>st. 0) gasDelegateCall"
proof -
  have base: "k < unat b" if "gas_plus (Inr g) h = Inr b" "k < unat g" for g h b k
    using gas_plus_Inr [OF that(1)] that(2) by auto
  show "call_priced value_stipend gasCall"
    unfolding call_priced_def
  proof (intro allI impI)
    fix env gt w f ms w' f' c
    assume p: "priced gt" and g: "gasCall env gt w f ms = Ret (w', f', Inr c)"
    obtain x a v st where st: "stk f = x # a # v # st"
      using g by (auto simp: gasCall_def split: list.splits)
    obtain gas h m where gas: "call_gas gt (gas_plus (Inr gas) h) (f\<lparr>mem := m\<rparr>) = (f', Inr c)"
      "gas \<in> {Calls gt, Calls gt + CallNewAccountGas} \<and> v = 0 \<or>
       gas \<in> {Calls gt + CallValueTransferGas, Calls gt + CallNewAccountGas + CallValueTransferGas} \<and> v \<noteq> 0"
      using g st by (simp add: gasCall_def Let_def split_beta big_Sign_def sgn_0_0 split: if_splits)
        (metis surjective_pairing)+
    have "value_stipend (stk f) < unat gas"
      using gas(2) p call_base [OF p] st by (auto simp: value_stipend_def priced_def)
    from call_gas_step [OF gas(1) base [OF _ this]]
    show "\<exists>(cg :: u64) b. stk f' = uint cg # tl (stk f) \<and> stk f \<noteq> [] \<and> unat c = b + unat cg \<and>
        value_stipend (stk f) < b \<and> contract f' = contract f"
      using st by simp
  qed
  show "call_priced value_stipend gasCallCode"
    unfolding call_priced_def
  proof (intro allI impI)
    fix env gt w f ms w' f' c
    assume p: "priced gt" and g: "gasCallCode env gt w f ms = Ret (w', f', Inr c)"
    obtain x a v st where st: "stk f = x # a # v # st"
      using g by (auto simp: gasCallCode_def split: list.splits)
    obtain gas h m where gas: "call_gas gt (gas_plus (Inr gas) h) (f\<lparr>mem := m\<rparr>) = (f', Inr c)"
      "gas = (if v \<noteq> 0 then Calls gt + CallValueTransferGas else Calls gt)"
      using g st by (simp add: gasCallCode_def Let_def split_beta big_Sign_def sgn_0_0) (metis surjective_pairing)
    have "value_stipend (stk f) < unat gas"
      using gas(2) p call_base [OF p] st by (auto simp: value_stipend_def priced_def)
    from call_gas_step [OF gas(1) base [OF _ this]]
    show "\<exists>(cg :: u64) b. stk f' = uint cg # tl (stk f) \<and> stk f \<noteq> [] \<and> unat c = b + unat cg \<and>
        value_stipend (stk f) < b \<and> contract f' = contract f"
      using st by simp
  qed
  show "call_priced (\<lambda>st. 0) gasDelegateCall"
    unfolding call_priced_def
  proof (intro allI impI)
    fix env gt w f ms w' f' c
    assume p: "priced gt" and g: "gasDelegateCall env gt w f ms = Ret (w', f', Inr c)"
    obtain x st where st: "stk f = x # st" using g by (auto simp: gasDelegateCall_def split: list.splits)
    obtain h m where gas: "call_gas gt (gas_plus h (Inr (Calls gt))) (f\<lparr>mem := m\<rparr>) = (f', Inr c)"
      using g st by (simp add: gasDelegateCall_def Let_def split_beta) (metis surjective_pairing)
    have "0 < unat b" if "gas_plus h (Inr (Calls gt)) = Inr b" for b
      using gas_plus_Inr [OF that] p by (auto simp: priced_def)
    from call_gas_step [OF gas this]
    show "\<exists>(cg :: u64) b. stk f' = uint cg # tl (stk f) \<and> stk f \<noteq> [] \<and> unat c = b + unat cg \<and>
        0 < b \<and> contract f' = contract f"
      using st by simp
  qed
qed

lemma contract_call_gas [simp]: "contract (fst (call_gas gt b f)) = contract f"
  using call_gas_contract [of gt b f] by (cases "call_gas gt b f") simp

lemma fair_calls: "fair gasCall" "fair gasCallCode" "fair gasDelegateCall"
  by (auto simp: fair_def gasCall_def gasCallCode_def gasDelegateCall_def Let_def split_beta
      dest!: call_gas_contract split: list.splits)

lemmas fair_all = fair_gas fair_calls

section \<open>The instruction set\<close>

definition plain_op :: "operation \<Rightarrow> bool" where
  "plain_op x \<longleftrightarrow> quiet (execute x) \<and> fair (gasCost x) \<and> (halts x \<or> costly (gasCost x))"

definition call_op :: "operation \<Rightarrow> bool" where
  "call_op x \<longleftrightarrow> \<not> halts x \<and>
     (execute x = opCall \<and> gasCost x = gasCall \<or> execute x = opCallCode \<and> gasCost x = gasCallCode \<or>
      execute x = opDelegateCall \<and> gasCost x = gasDelegateCall \<or> execute x = opCreate \<and> gasCost x = gasCreate)"

lemma plain_opI: "quiet ex \<Longrightarrow> fair g \<Longrightarrow> costly g \<Longrightarrow> plain_op (plain ex g vs)"
  by (simp add: plain_op_def plain_def)

lemmas op_rules = quiet_ops fair_all costly_gas

lemma plain_sel [simp]:
  "execute (plain ex g vs) = ex" "gasCost (plain ex g vs) = g" "halts (plain ex g vs) = False"
  "validateStack (plain ex g vs) = vs" "memorySize (plain ex g vs) = None" "jumps (plain ex g vs) = False"
  "valid (plain ex g vs) = True"
  by (simp_all add: plain_def)

lemma ops_classified: "list_all (\<lambda>(op, x). plain_op x \<or> call_op x) frontier_ops"
  unfolding frontier_ops_def list_all_append
proof (intro conjI)
  have p: "0 < GasQuickStep" "0 < GasFastestStep" "0 < GasFastStep" "0 < GasMidStep" "0 < GasSlowStep" "0 < GasExtStep"
    "0 < JumpdestGas" by (simp_all add: params)
  note r = plain_op_def op_rules p
  show "list_all (\<lambda>(op, x). plain_op x \<or> call_op x) arithmetic_ops" by (simp add: arithmetic_ops_def r)
  show "list_all (\<lambda>(op, x). plain_op x \<or> call_op x) compare_ops" by (simp add: compare_ops_def r)
  show "list_all (\<lambda>(op, x). plain_op x \<or> call_op x) environment_ops" by (simp add: environment_ops_def r)
  show "list_all (\<lambda>(op, x). plain_op x \<or> call_op x) block_ops" by (simp add: block_ops_def r)
  show "list_all (\<lambda>(op, x). plain_op x \<or> call_op x) storage_ops" by (simp add: storage_ops_def r)
  show "list_all (\<lambda>(op, x). plain_op x \<or> call_op x) push_ops" by (simp add: push_ops_def r list_all_iff)
  show "list_all (\<lambda>(op, x). plain_op x \<or> call_op x) dup_ops" by (simp add: dup_ops_def r list_all_iff)
  show "list_all (\<lambda>(op, x). plain_op x \<or> call_op x) swap_ops" by (simp add: swap_ops_def r list_all_iff)
  show "list_all (\<lambda>(op, x). plain_op x \<or> call_op x) log_ops" by (simp add: log_ops_def r)
  show "list_all (\<lambda>(op, x). plain_op x \<or> call_op x) closure_ops" by (simp add: closure_ops_def r call_op_def)
qed

lemma instruction_set_cases:
  assumes "valid (instruction_set env op)"
  shows "plain_op (instruction_set env op) \<or> call_op (instruction_set env op)"
proof -
  have f: "plain_op (NewFrontierInstructionSet op) \<or> call_op (NewFrontierInstructionSet op)"
    if v: "valid (NewFrontierInstructionSet op)"
  proof (cases "map_of frontier_ops op")
    case None
    then show ?thesis using v by (simp add: NewFrontierInstructionSet_def no_operation_def)
  next
    case (Some x)
    then show ?thesis using ops_classified map_of_SomeD [OF Some]
      by (auto simp: NewFrontierInstructionSet_def list_all_iff)
  qed
  have d: "call_op delegate_op" by (simp add: delegate_op_def call_op_def)
  show ?thesis using assms f d
    by (auto simp: instruction_set_def NewHomesteadInstructionSet_def split: if_splits)
qed

section \<open>Gas of calls\<close>

text \<open>What the interpreter needs of the calls: leftover gas is at most the gas supplied, and a call
  with less than \<open>G\<close> gas does not run out of fuel.\<close>

definition sc_returns :: "subcalls \<Rightarrow> bool" where
  "sc_returns sc \<longleftrightarrow>
     (\<forall>w cl a i g v w' r g' e. sc_Call sc w cl a i g v = Ret (w', r, g', e) \<longrightarrow> g' \<le> g) \<and>
     (\<forall>w cl a i g v w' r g' e. sc_CallCode sc w cl a i g v = Ret (w', r, g', e) \<longrightarrow> g' \<le> g) \<and>
     (\<forall>w cl a i g w' r g' e. sc_DelegateCall sc w cl a i g = Ret (w', r, g', e) \<longrightarrow> g' \<le> g) \<and>
     (\<forall>w cl i g v w' r a g' e. sc_Create sc w cl i g v = Ret (w', r, a, g', e) \<longrightarrow> g' \<le> g)"

definition sc_fuel :: "nat \<Rightarrow> subcalls \<Rightarrow> bool" where
  "sc_fuel G sc \<longleftrightarrow>
     (\<forall>w cl a i g v. unat g < G \<longrightarrow> sc_Call sc w cl a i g v \<noteq> NoFuel \<and> sc_CallCode sc w cl a i g v \<noteq> NoFuel \<and>
        sc_DelegateCall sc w cl a i g \<noteq> NoFuel \<and> sc_Create sc w cl i g v \<noteq> NoFuel)"

lemma UseGas_cases:
  "UseGas g c = (ok, c1) \<Longrightarrow> (ok \<longrightarrow> g \<le> Gas c \<and> c1 = c\<lparr>Gas := Gas c - g\<rparr>) \<and> (\<not> ok \<longrightarrow> c1 = c)"
  by (auto simp: UseGas_def split: if_splits)

lemma charge_eq:
  "\<not> DisableGasMetering (vmConfig env) \<Longrightarrow>
   gasCost x env (cfg_GasTable (chainConfig env) (block env)) w f ms = Ret (w1, f0, r) \<Longrightarrow>
   charge env x ms w f = Ret (w1, case r of Inl _ \<Rightarrow> (f0, False)
      | Inr c \<Rightarrow> (f0\<lparr>contract := snd (UseGas c (contract f0))\<rparr>, fst (UseGas c (contract f0))))"
  by (simp add: charge_def split_beta split: sum.split)

lemma fairD:
  assumes "fair g" "g env gt w f ms = Ret (w', f', r)"
  shows "contract f' = contract f"
proof -
  have "\<forall>w' f' r. g env gt w f ms = Ret (w', f', r) \<longrightarrow> contract f' = contract f"
    using assms(1) by (simp add: fair_def)
  then show ?thesis using assms(2) by simp
qed

lemma charge_cases:
  assumes "fair (gasCost x)" and m: "\<not> DisableGasMetering (vmConfig env)"
  obtains "charge env x ms w f = Panic"
  | w1 f1 where "charge env x ms w f = Ret (w1, f1, False)" "gas_of f1 = gas_of f"
  | w1 f0 c f1 where "charge env x ms w f = Ret (w1, f1, True)"
      "gasCost x env (cfg_GasTable (chainConfig env) (block env)) w f ms = Ret (w1, f0, Inr c)"
      "unat c \<le> gas_of f" "f1 = f0\<lparr>contract := (contract f)\<lparr>Gas := Gas (contract f) - c\<rparr>\<rparr>"
      "gas_of f1 = gas_of f - unat c"
proof (cases "gasCost x env (cfg_GasTable (chainConfig env) (block env)) w f ms")
  case Panic
  then show thesis using that(1) m by (simp add: charge_def)
next
  case NoFuel
  then show thesis using assms(1) by (simp add: fair_def)
next
  case (Ret p)
  obtain w1 f0 r where p: "p = (w1, f0, r)" by (cases p)
  have c: "contract f0 = contract f" using fairD [OF assms(1) Ret [unfolded p]] .
  note ch = charge_eq [OF m Ret [unfolded p]]
  show thesis
  proof (cases r)
    case (Inl e)
    then show thesis using that(2) [of w1 f0] ch c by (simp add: gas_of_def)
  next
    case (Inr g)
    show thesis
    proof (cases "Gas (contract f) < g")
      case True
      then show thesis using that(2) [of w1 "f0\<lparr>contract := contract f\<rparr>"] ch c Inr by (simp add: gas_of_def UseGas_def)
    next
      case False
      then have "unat g \<le> gas_of f" by (simp add: gas_of_def word_less_nat_alt)
      then show thesis using that(3) [of w1 _ f0 g] False Ret p ch c Inr
        by (simp add: gas_of_def UseGas_def unat_sub word_le_nat_alt)
    qed
  qed
qed

text \<open>Charging and executing one operation.\<close>

definition charged :: "subcalls \<Rightarrow> evm_env \<Rightarrow> operation \<Rightarrow> u64 \<Rightarrow> evm \<Rightarrow> frame \<Rightarrow> round outcome" where
  "charged sc env x ms w f =
     obind (charge env x ms w f) (\<lambda>(w1, f1, ok).
       if \<not> ok then Ret (Stop w1 f1 None (Some ErrOutOfGas)) else execute_op sc env x ms w1 f1)"

definition decreasing :: "evm_env \<Rightarrow> operation \<Rightarrow> bool" where
  "decreasing env x \<longleftrightarrow> (\<forall>sc ms w f. sc_returns sc \<longrightarrow>
     (\<forall>w' f'. charged sc env x ms w f = Ret (Next w' f') \<longrightarrow> gas_of f' < gas_of f) \<and>
     (\<forall>w' f' r e. charged sc env x ms w f = Ret (Stop w' f' r e) \<longrightarrow> gas_of f' \<le> gas_of f) \<and>
     (\<forall>G. sc_fuel G sc \<longrightarrow> gas_of f \<le> G \<longrightarrow> charged sc env x ms w f \<noteq> NoFuel))"

text \<open>It is enough to look at a successful charge and the execution after it.\<close>

lemma decreasingI:
  assumes "\<not> DisableGasMetering (vmConfig env)" and "fair (gasCost x)"
    and "\<And>sc ms w f w1 f0 c f1 f2. sc_returns sc \<Longrightarrow>
      gasCost x env (cfg_GasTable (chainConfig env) (block env)) w f ms = Ret (w1, f0, Inr c) \<Longrightarrow>
      unat c \<le> gas_of f \<Longrightarrow> f1 = f0\<lparr>contract := (contract f)\<lparr>Gas := Gas (contract f) - c\<rparr>\<rparr> \<Longrightarrow>
      gas_of f1 = gas_of f - unat c \<Longrightarrow> stk f2 = stk f0 \<Longrightarrow> contract f2 = contract f1 \<Longrightarrow>
      (\<forall>w' f' r e. execute x sc env w1 f2 = Ret (w', f', r, e) \<longrightarrow>
         gas_of f' \<le> gas_of f \<and> (\<not> halts x \<longrightarrow> gas_of f' < gas_of f)) \<and>
      (\<forall>G. sc_fuel G sc \<longrightarrow> gas_of f \<le> G \<longrightarrow> execute x sc env w1 f2 \<noteq> NoFuel)"
  shows "decreasing env x"
  unfolding decreasing_def
proof (intro allI impI)
  fix sc ms w f assume sc: "sc_returns sc"
  show "(\<forall>w' f'. charged sc env x ms w f = Ret (Next w' f') \<longrightarrow> gas_of f' < gas_of f) \<and>
     (\<forall>w' f' r e. charged sc env x ms w f = Ret (Stop w' f' r e) \<longrightarrow> gas_of f' \<le> gas_of f) \<and>
     (\<forall>G. sc_fuel G sc \<longrightarrow> gas_of f \<le> G \<longrightarrow> charged sc env x ms w f \<noteq> NoFuel)"
  proof (cases rule: charge_cases [OF assms(2,1), where ms = ms and w = w and f = f])
    case (3 w1 f0 c f1)
    define f2 where "f2 = (if ms > 0 then f1\<lparr>mem := mem_Resize ms (mem f1)\<rparr> else f1)"
    have f2: "stk f2 = stk f0" "contract f2 = contract f1" by (auto simp: f2_def 3(4))
    have e: "charged sc env x ms w f = obind (execute x sc env w1 f2) (\<lambda>(w1, f2, res, err).
        if err \<noteq> None then Ret (Stop w1 f2 None err)
        else if halts x then Ret (Stop w1 f2 res None)
        else
          let f3 = (if \<not> jumps x then f2\<lparr>pc := pc f2 + 1\<rparr> else f2);
              f4 = (if res \<noteq> None then f3\<lparr>mem := (mem f3)\<lparr>lastReturn := None\<rparr>\<rparr> else f3)
          in Ret (Next w1 f4))"
      by (simp add: charged_def 3(1) execute_op_def f2_def)
    from assms(3) [OF sc 3(2-5) f2] show ?thesis unfolding e
      by (auto simp: obind_eq Let_def gas_of_def split: if_splits)
  qed (simp_all add: charged_def)
qed

lemma plain_decreasing:
  assumes "\<not> DisableGasMetering (vmConfig env)" and "plain_op x"
  shows "decreasing env x"
proof (rule decreasingI [OF assms(1)])
  show "fair (gasCost x)" using assms(2) by (simp add: plain_op_def)
  fix sc ms w w1 c and f f0 f1 f2 :: frame
  assume g: "gasCost x env (cfg_GasTable (chainConfig env) (block env)) w f ms = Ret (w1, f0, Inr c)"
    and c: "unat c \<le> gas_of f" "gas_of f1 = gas_of f - unat c" "contract f2 = contract f1"
  have q: "quiet (execute x)" using assms(2) by (simp add: plain_op_def)
  have "0 < unat c" if "\<not> halts x"
    using that assms(2) g priced_tables by (fastforce simp: plain_op_def costly_def word_neq_0_conv unat_gt_0)
  then show "(\<forall>w' f' r e. execute x sc env w1 f2 = Ret (w', f', r, e) \<longrightarrow>
         gas_of f' \<le> gas_of f \<and> (\<not> halts x \<longrightarrow> gas_of f' < gas_of f)) \<and>
      (\<forall>G. sc_fuel G sc \<longrightarrow> gas_of f \<le> G \<longrightarrow> execute x sc env w1 f2 \<noteq> NoFuel)"
    using q c by (fastforce simp: quiet_def gas_of_def)
qed

text \<open>Adding back the gas that a call returns.\<close>

lemma returned_gas:
  fixes g ret :: u64
  assumes "unat g = n - c" "c \<le> n" "n < 2 ^ 64" "unat ret \<le> m" "m < c"
  shows "unat (g + ret) < n"
proof -
  have "unat g + unat ret < n" using assms by linarith
  then show ?thesis using assms(3) by (subst unat_plus_no_overflow) simp_all
qed

lemma gas_of_bound: "gas_of f < 2 ^ 64"
  using unsigned_less [of "Gas (contract f)"] by (simp add: gas_of_def)

lemma big_Uint64_uint [simp]: "big_Uint64 (uint (cg :: u64)) = cg"
  by (simp add: big_Uint64_def)

text \<open>A call instruction: priced above the gas it hands on, and ending with \<open>after_call\<close>.\<close>

lemma call_decreasing:
  assumes m: "\<not> DisableGasMetering (vmConfig env)" and p: "call_priced stipend (gasCost x)" and "fair (gasCost x)"
    and ex: "\<And>sc w f (cg :: u64) st. stk f = uint cg # st \<Longrightarrow>
      execute x sc env w f = Panic \<or>
      (\<exists>sub (gas :: u64) ro rs st'. execute x sc env w f = obind sub (after_call ro rs st' f) \<and>
         unat gas \<le> unat cg + stipend (stk f) \<and>
         (sc_returns sc \<longrightarrow> (\<forall>w' r g' e. sub = Ret (w', r, g', e) \<longrightarrow> g' \<le> gas)) \<and>
         (\<forall>G. sc_fuel G sc \<longrightarrow> unat gas < G \<longrightarrow> sub \<noteq> NoFuel))"
    and cong: "\<And>a b st. stipend (a # st) = stipend (b # st)"
  shows "decreasing env x"
proof (rule decreasingI [OF m assms(3)])
  fix sc ms w w1 c and f f0 f1 f2 :: frame
  assume sc: "sc_returns sc"
    and g: "gasCost x env (cfg_GasTable (chainConfig env) (block env)) w f ms = Ret (w1, f0, Inr c)"
    and c: "unat c \<le> gas_of f" "gas_of f1 = gas_of f - unat c" "contract f2 = contract f1" "stk f2 = stk f0"
  obtain cg :: u64 and b where cg: "stk f0 = uint cg # tl (stk f)" "stk f \<noteq> []" "unat c = b + unat cg" "stipend (stk f) < b"
    using p g priced_tables unfolding call_priced_def by metis
  have st: "stipend (stk f2) = stipend (stk f)"
    using cong [of "uint cg" "tl (stk f)" "hd (stk f)"] cg(1,2) c(4) by simp
  from ex [of f2 cg "tl (stk f)" sc w1] cg(1) c(4)
  consider "execute x sc env w1 f2 = Panic"
    | sub and gas :: u64 and ro rs st' where "execute x sc env w1 f2 = obind sub (after_call ro rs st' f2)"
        "unat gas \<le> unat cg + stipend (stk f)" "\<And>w' r g' e. sub = Ret (w', r, g', e) \<Longrightarrow> g' \<le> gas"
        "\<And>G. sc_fuel G sc \<Longrightarrow> unat gas < G \<Longrightarrow> sub \<noteq> NoFuel"
    using st sc by auto
  then show "(\<forall>w' f' r e. execute x sc env w1 f2 = Ret (w', f', r, e) \<longrightarrow>
         gas_of f' \<le> gas_of f \<and> (\<not> halts x \<longrightarrow> gas_of f' < gas_of f)) \<and>
      (\<forall>G. sc_fuel G sc \<longrightarrow> gas_of f \<le> G \<longrightarrow> execute x sc env w1 f2 \<noteq> NoFuel)"
  proof cases
    case 2
    have less: "unat gas < unat c" using 2(2) cg(3,4) by simp
    have "gas_of f' < gas_of f" if e: "execute x sc env w1 f2 = Ret (w', f', r, e)" for w' f' r e
    proof -
      obtain w3 r3 g3 e3 where s: "sub = Ret (w3, r3, g3, e3)" and a: "after_call ro rs st' f2 (w3, r3, g3, e3) = Ret (w', f', r, e)"
        using e 2(1) by (auto simp: obind_eq)
      have "Gas (contract f') = Gas (contract f2) + g3"
        using a by (auto simp: after_call_def Let_def obind_eq split: if_splits)
      moreover have "unat g3 \<le> unat gas" using 2(3) [OF s] by (simp add: word_le_nat_alt)
      ultimately show ?thesis
        using returned_gas [OF _ c(1) gas_of_bound _ less, where g = "Gas (contract f2)" and ret = g3] c(2,3)
        by (simp add: gas_of_def)
    qed
    moreover have "execute x sc env w1 f2 \<noteq> NoFuel" if "sc_fuel G sc" "gas_of f \<le> G" for G
      using 2(1) 2(4) [OF that(1)] less c(1) that(2)
      by (auto simp: obind_eq after_call_def Let_def split: if_splits)
    ultimately show ?thesis using less_imp_le by blast
  qed simp
qed

lemma unat_plus_le: "unat (a + b) \<le> unat a + unat b" for a b :: u64
  by (simp add: unat_word_ariths)

lemma stipend_gas:
  "unat (if big_Sign (U256 v) \<noteq> 0 then big_Uint64 (uint (cg :: u64)) + CallStipend else big_Uint64 (uint cg))
     \<le> unat cg + value_stipend (x # a # v # st)"
  using unat_plus_le [of cg CallStipend] by (simp add: value_stipend_def big_Sign_def sgn_0_0 CallStipend_def)

lemma value_stipend_cong: "value_stipend (a # st) = value_stipend (b # st)"
  by (simp add: value_stipend_def)

lemma obind_cases: "(x = Panic \<Longrightarrow> P Panic) \<Longrightarrow> (x = NoFuel \<Longrightarrow> P NoFuel) \<Longrightarrow> (\<And>y. x = Ret y \<Longrightarrow> P (h y)) \<Longrightarrow> P (obind x h)"
  by (cases x) auto

lemma mem_Get_cases: "mem_Get a b m = Panic \<or> (\<exists>r. mem_Get a b m = Ret r)"
  by (cases "mem_Get a b m") simp_all

definition call_gas_of :: "int \<Rightarrow> int \<Rightarrow> u64" where
  "call_gas_of g v = (if big_Sign (U256 v) \<noteq> 0 then big_Uint64 g + CallStipend else big_Uint64 g)"

lemma long_stack6: "6 \<le> length xs \<Longrightarrow> \<exists>a b c d e g ys. xs = a # b # c # d # e # g # ys"
  by (auto simp: Suc_le_length_iff numeral_eq_Suc)

lemma long_stack7: "7 \<le> length xs \<Longrightarrow> \<exists>a b c d e g h ys. xs = a # b # c # d # e # g # h # ys"
  by (auto simp: Suc_le_length_iff numeral_eq_Suc)

lemma opCall_shape:
  "opCall sc env w f = Panic \<or>
   (\<exists>g addr v st args ro rs st'. stk f = g # addr # v # st \<and>
      opCall sc env w f = obind (sc_Call sc w (contract_ref (contract f)) (BigToAddress addr) args (call_gas_of g v) (U256 v))
        (after_call ro rs st' f))"
proof (cases "opCall sc env w f = Panic")
  case False
  then have "7 \<le> length (stk f)"
    by (rule contrapos_np) (auto simp: opCall_def split: list.split)
  then obtain g addr v io sz ro rs st where st: "stk f = g # addr # v # io # sz # ro # rs # st" using long_stack7 by blast
  then have "mem_Get (big_Int64 io) (big_Int64 sz) (mem f) \<noteq> Panic" using False by (auto simp: opCall_def)
  then obtain args where "mem_Get (big_Int64 io) (big_Int64 sz) (mem f) = Ret args" using mem_Get_cases by blast
  then have "opCall sc env w f = obind (sc_Call sc w (contract_ref (contract f)) (BigToAddress addr) (bytes_of args) (call_gas_of g v) (U256 v)) (after_call ro rs st f)"
    using st by (simp add: opCall_def Let_def call_gas_of_def)
  then show ?thesis using st by blast
qed simp

lemma opCallCode_shape:
  "opCallCode sc env w f = Panic \<or>
   (\<exists>g addr v st args ro rs st'. stk f = g # addr # v # st \<and>
      opCallCode sc env w f = obind (sc_CallCode sc w (contract_ref (contract f)) (BigToAddress addr) args (call_gas_of g v) (U256 v))
        (after_call ro rs st' f))"
proof (cases "opCallCode sc env w f = Panic")
  case False
  then have "7 \<le> length (stk f)"
    by (rule contrapos_np) (auto simp: opCallCode_def split: list.split)
  then obtain g addr v io sz ro rs st where st: "stk f = g # addr # v # io # sz # ro # rs # st" using long_stack7 by blast
  then have "mem_Get (big_Int64 io) (big_Int64 sz) (mem f) \<noteq> Panic" using False by (auto simp: opCallCode_def)
  then obtain args where "mem_Get (big_Int64 io) (big_Int64 sz) (mem f) = Ret args" using mem_Get_cases by blast
  then have "opCallCode sc env w f = obind (sc_CallCode sc w (contract_ref (contract f)) (BigToAddress addr) (bytes_of args) (call_gas_of g v) (U256 v)) (after_call ro rs st f)"
    using st by (simp add: opCallCode_def Let_def call_gas_of_def)
  then show ?thesis using st by blast
qed simp

lemma opDelegateCall_shape:
  "opDelegateCall sc env w f = Panic \<or>
   (\<exists>g addr st args ro rs st'. stk f = g # addr # st \<and>
      opDelegateCall sc env w f = obind (sc_DelegateCall sc w (contract_ref (contract f)) (BigToAddress addr) args (big_Uint64 g))
        (after_call ro rs st' f))"
proof (cases "opDelegateCall sc env w f = Panic")
  case False
  then have "6 \<le> length (stk f)"
    by (rule contrapos_np) (auto simp: opDelegateCall_def split: list.split)
  then obtain g addr io sz ro rs st where st: "stk f = g # addr # io # sz # ro # rs # st" using long_stack6 by blast
  then have "mem_Get (big_Int64 io) (big_Int64 sz) (mem f) \<noteq> Panic" using False by (auto simp: opDelegateCall_def)
  then obtain args where "mem_Get (big_Int64 io) (big_Int64 sz) (mem f) = Ret args" using mem_Get_cases by blast
  then have "opDelegateCall sc env w f = obind (sc_DelegateCall sc w (contract_ref (contract f)) (BigToAddress addr) (bytes_of args) (big_Uint64 g)) (after_call ro rs st f)"
    using st by (simp add: opDelegateCall_def Let_def call_gas_of_def)
  then show ?thesis using st by blast
qed simp

lemma opCall_decreasing:
  assumes m: "\<not> DisableGasMetering (vmConfig env)" and x: "execute x = opCall" "gasCost x = gasCall"
  shows "decreasing env x"
proof (rule call_decreasing [OF m, where stipend = "value_stipend"])
  fix sc w and f :: frame and cg :: u64 and st assume st: "stk f = uint cg # st"
  show "execute x sc env w f = Panic \<or>
      (\<exists>sub (gas :: u64) ro rs st'. execute x sc env w f = obind sub (after_call ro rs st' f) \<and>
         unat gas \<le> unat cg + value_stipend (stk f) \<and>
         (sc_returns sc \<longrightarrow> (\<forall>w' r g' e. sub = Ret (w', r, g', e) \<longrightarrow> g' \<le> gas)) \<and>
         (\<forall>G. sc_fuel G sc \<longrightarrow> unat gas < G \<longrightarrow> sub \<noteq> NoFuel))"
  proof (cases "opCall sc env w f = Panic")
    case False
    then obtain g addr v st2 args ro rs st3 where s: "stk f = g # addr # v # st2"
      "opCall sc env w f = obind (sc_Call sc w (contract_ref (contract f)) (BigToAddress addr) args (call_gas_of g v) (U256 v))
        (after_call ro rs st3 f)"
      using opCall_shape [of sc env w f] by blast
    have g: "unat (call_gas_of g v) \<le> unat cg + value_stipend (stk f)"
      using stipend_gas [of v cg "uint cg" addr st2] st s(1) by (simp add: call_gas_of_def)
    show ?thesis unfolding x s(2)
      by (intro disjI2 exI [of _ "call_gas_of g v"] exI conjI, rule refl, rule g) (auto simp: sc_returns_def sc_fuel_def)
  qed (simp add: x)
qed (simp_all add: x call_priced_gas fair_all value_stipend_cong)

lemma opCallCode_decreasing:
  assumes m: "\<not> DisableGasMetering (vmConfig env)" and x: "execute x = opCallCode" "gasCost x = gasCallCode"
  shows "decreasing env x"
proof (rule call_decreasing [OF m, where stipend = "value_stipend"])
  fix sc w and f :: frame and cg :: u64 and st assume st: "stk f = uint cg # st"
  show "execute x sc env w f = Panic \<or>
      (\<exists>sub (gas :: u64) ro rs st'. execute x sc env w f = obind sub (after_call ro rs st' f) \<and>
         unat gas \<le> unat cg + value_stipend (stk f) \<and>
         (sc_returns sc \<longrightarrow> (\<forall>w' r g' e. sub = Ret (w', r, g', e) \<longrightarrow> g' \<le> gas)) \<and>
         (\<forall>G. sc_fuel G sc \<longrightarrow> unat gas < G \<longrightarrow> sub \<noteq> NoFuel))"
  proof (cases "opCallCode sc env w f = Panic")
    case False
    then obtain g addr v st2 args ro rs st3 where s: "stk f = g # addr # v # st2"
      "opCallCode sc env w f = obind (sc_CallCode sc w (contract_ref (contract f)) (BigToAddress addr) args (call_gas_of g v) (U256 v))
        (after_call ro rs st3 f)"
      using opCallCode_shape [of sc env w f] by blast
    have g: "unat (call_gas_of g v) \<le> unat cg + value_stipend (stk f)"
      using stipend_gas [of v cg "uint cg" addr st2] st s(1) by (simp add: call_gas_of_def)
    show ?thesis unfolding x s(2)
      by (intro disjI2 exI [of _ "call_gas_of g v"] exI conjI, rule refl, rule g) (auto simp: sc_returns_def sc_fuel_def)
  qed (simp add: x)
qed (simp_all add: x call_priced_gas fair_all value_stipend_cong)

lemma opDelegateCall_decreasing:
  assumes m: "\<not> DisableGasMetering (vmConfig env)" and x: "execute x = opDelegateCall" "gasCost x = gasDelegateCall"
  shows "decreasing env x"
proof (rule call_decreasing [OF m, where stipend = "(\<lambda>st. 0)"])
  fix sc w and f :: frame and cg :: u64 and st assume st: "stk f = uint cg # st"
  show "execute x sc env w f = Panic \<or>
      (\<exists>sub (gas :: u64) ro rs st'. execute x sc env w f = obind sub (after_call ro rs st' f) \<and>
         unat gas \<le> unat cg + (\<lambda>st. 0) (stk f) \<and>
         (sc_returns sc \<longrightarrow> (\<forall>w' r g' e. sub = Ret (w', r, g', e) \<longrightarrow> g' \<le> gas)) \<and>
         (\<forall>G. sc_fuel G sc \<longrightarrow> unat gas < G \<longrightarrow> sub \<noteq> NoFuel))"
  proof (cases "opDelegateCall sc env w f = Panic")
    case False
    then obtain g addr st2 args ro rs st3 where s: "stk f = g # addr # st2"
      "opDelegateCall sc env w f = obind (sc_DelegateCall sc w (contract_ref (contract f)) (BigToAddress addr) args (big_Uint64 g))
        (after_call ro rs st3 f)"
      using opDelegateCall_shape [of sc env w f] by blast
    have g: "unat (big_Uint64 g) \<le> unat cg + (\<lambda>st. 0) (stk f)"
      using st s(1) by simp
    show ?thesis unfolding x s(2)
      by (intro disjI2 exI [of _ "big_Uint64 g"] exI conjI, rule refl, rule g) (auto simp: sc_returns_def sc_fuel_def)
  qed (simp add: x)
qed (simp_all add: x call_priced_gas fair_all value_stipend_cong)

lemma sc_returnsD:
  "sc_returns sc \<Longrightarrow> sc_Call sc w cl a i g v = Ret (w', r, g', e) \<Longrightarrow> g' \<le> g"
  "sc_returns sc \<Longrightarrow> sc_CallCode sc w cl a i g v = Ret (w', r, g', e) \<Longrightarrow> g' \<le> g"
  "sc_returns sc \<Longrightarrow> sc_DelegateCall sc w cl a i g = Ret (w', r, g', e) \<Longrightarrow> g' \<le> g"
  "sc_returns sc \<Longrightarrow> sc_Create sc w cl i g v = Ret (w', r, ad, g', e) \<Longrightarrow> g' \<le> g"
  unfolding sc_returns_def by metis+

lemma opCreate_decreasing:
  assumes m: "\<not> DisableGasMetering (vmConfig env)" and x: "execute x = opCreate" "gasCost x = gasCreate"
  shows "decreasing env x"
proof (rule decreasingI [OF m])
  show "fair (gasCost x)" by (simp add: x fair_all)
  fix sc ms w w1 c and f f0 f1 f2 :: frame
  assume sc: "sc_returns sc"
    and g: "gasCost x env (cfg_GasTable (chainConfig env) (block env)) w f ms = Ret (w1, f0, Inr c)"
    and c: "unat c \<le> gas_of f" "gas_of f1 = gas_of f - unat c" "contract f2 = contract f1"
  have "0 < c"
    using g by (auto simp: x gasCreate_def mem_gas_eq params dest!: gas_plus_pos)
  then have less: "gas_of f2 < gas_of f" using c by (simp add: gas_of_def word_less_nat_alt)
  define gas where "gas = (if IsEIP150 (chainConfig env) (block env) then Gas (contract f2) - Gas (contract f2) div 64 else Gas (contract f2))"
  have "Gas (contract f2) - Gas (contract f2) div 64 \<le> Gas (contract f2)"
    by (simp add: word_le_nat_alt unat_sub unat_div div_le_dividend)
  then have gas: "gas \<le> Gas (contract f2)" by (simp add: gas_def)
  then have u: "UseGas gas (contract f2) = (True, (contract f2)\<lparr>Gas := Gas (contract f2) - gas\<rparr>)"
    by (simp add: UseGas_def not_less)
  have "gas_of f' < gas_of f" if e: "execute x sc env w1 f2 = Ret (w', f', r, e)" for w' f' r e
  proof -
    obtain cl d v w3 r3 a3 g3 e3 where s: "sc_Create sc w1 cl d gas v = Ret (w3, r3, a3, g3, e3)"
      and f': "Gas (contract f') = Gas (contract f2) - gas + g3"
      using e gas by (auto simp: x opCreate_def finish_def Let_def obind_eq gas_def [symmetric] u split: list.splits)
    have "unat g3 \<le> unat gas" using sc_returnsD(4) [OF sc s] by (simp add: word_le_nat_alt)
    then have "unat (Gas (contract f2) - gas) + unat g3 \<le> gas_of f2"
      using gas by (simp add: gas_of_def unat_sub word_le_nat_alt)
    then show ?thesis using f' less unat_plus_le [of "Gas (contract f2) - gas" g3] by (simp add: gas_of_def)
  qed
  moreover have "execute x sc env w1 f2 \<noteq> NoFuel" if "sc_fuel G sc" "gas_of f \<le> G" for G
  proof -
    have "unat gas < G" using gas less that(2) by (simp add: gas_of_def word_le_nat_alt)
    then have "sc_Create sc w1 cl d gas v \<noteq> NoFuel" for cl d v using that(1) by (simp add: sc_fuel_def)
    then show ?thesis by (auto simp: x opCreate_def finish_def Let_def obind_eq gas_def [symmetric] split: list.splits)
  qed
  ultimately show "(\<forall>w' f' r e. execute x sc env w1 f2 = Ret (w', f', r, e) \<longrightarrow>
         gas_of f' \<le> gas_of f \<and> (\<not> halts x \<longrightarrow> gas_of f' < gas_of f)) \<and>
      (\<forall>G. sc_fuel G sc \<longrightarrow> gas_of f \<le> G \<longrightarrow> execute x sc env w1 f2 \<noteq> NoFuel)"
    using less_imp_le by blast
qed

lemma instructions_decreasing:
  assumes "\<not> DisableGasMetering (vmConfig env)" "valid (instruction_set env op)"
  shows "decreasing env (instruction_set env op)"
  using instruction_set_cases [OF assms(2)] plain_decreasing [OF assms(1)] opCall_decreasing [OF assms(1)]
    opCallCode_decreasing [OF assms(1)] opDelegateCall_decreasing [OF assms(1)] opCreate_decreasing [OF assms(1)]
  unfolding call_op_def by blast

lemma memory_size_fuel [simp]: "memory_size x st \<noteq> NoFuel"
  by (simp add: memory_size_def Let_def split_beta split: option.split)

lemma step_cases:
  obtains "step sc env w f = Panic"
  | e where "step sc env w f = Ret (Stop w f None (Some e))"
  | ms where "valid (instruction_set env (GetOp (contract f) (pc f)))"
      "step sc env w f = charged sc env (instruction_set env (GetOp (contract f) (pc f))) ms w f"
proof -
  define x where "x = instruction_set env (GetOp (contract f) (pc f))"
  consider "\<not> valid x" | e where "valid x" "validateStack x (stk f) = Some e"
    | "valid x" "validateStack x (stk f) = None" "memory_size x (stk f) = Panic"
    | e where "valid x" "validateStack x (stk f) = None" "memory_size x (stk f) = Ret (Inl e)"
    | ms where "valid x" "validateStack x (stk f) = None" "memory_size x (stk f) = Ret (Inr ms)"
    by (metis memory_size_fuel not_Some_eq outcome.exhaust sumE)
  then show thesis using that unfolding step_def charged_def x_def [symmetric] Let_def
    by cases simp_all
qed

text \<open>One round of the loop takes gas and does not give it back.\<close>

lemma step_decreasing:
  assumes "\<not> DisableGasMetering (vmConfig env)" "sc_returns sc"
  shows "(\<forall>w' f'. step sc env w f = Ret (Next w' f') \<longrightarrow> gas_of f' < gas_of f) \<and>
     (\<forall>w' f' r e. step sc env w f = Ret (Stop w' f' r e) \<longrightarrow> gas_of f' \<le> gas_of f) \<and>
     (\<forall>G. sc_fuel G sc \<longrightarrow> gas_of f \<le> G \<longrightarrow> step sc env w f \<noteq> NoFuel)"
proof (cases rule: step_cases [of sc env w f])
  case (3 ms)
  then show ?thesis using instructions_decreasing [OF assms(1) 3(1)] assms(2) by (simp add: decreasing_def)
qed auto

section \<open>Calls\<close>

definition loop_returns :: "interp \<Rightarrow> bool" where
  "loop_returns loop \<longleftrightarrow> (\<forall>w f w' f' r e. loop w f = Ret (w', f', r, e) \<longrightarrow> Gas (contract f') \<le> Gas (contract f))"

definition loop_fuel :: "nat \<Rightarrow> interp \<Rightarrow> bool" where
  "loop_fuel n loop \<longleftrightarrow> (\<forall>w f. gas_of f < n \<longrightarrow> loop w f \<noteq> NoFuel)"

lemma UseGas_le: "Gas (snd (UseGas g c)) \<le> Gas c"
  by (simp add: UseGas_def word_sub_le not_less)

lemma precompile_fuel [simp]: "precompile_Run env p b \<noteq> NoFuel"
  by (cases p) (simp_all add: ecrecover_Run_def Let_def split: option.split)

lemma loop_returnsD: "loop_returns loop \<Longrightarrow> loop w f = Ret (w', f', r, e) \<Longrightarrow> Gas (contract f') \<le> Gas (contract f)"
  unfolding loop_returns_def by blast

lemma loop_fuelD: "loop_fuel n loop \<Longrightarrow> gas_of f < n \<Longrightarrow> loop w f \<noteq> NoFuel"
  unfolding loop_fuel_def by blast

lemma Run_returns:
  assumes "loop_returns loop" "Run loop c i w = Ret (w', c', r, e)"
  shows "Gas c' \<le> Gas c"
proof (cases "Code c = []")
  case False
  then obtain w2 f where "loop (w\<lparr>depth := depth w + 1\<rparr>) \<lparr>pc = 0, contract = c\<lparr>Input := i\<rparr>, mem = NewMemory, stk = []\<rparr> = Ret (w2, f, r, e)"
    "c' = contract f"
    using assms(2) by (auto simp: Run_def Let_def obind_eq)
  then show ?thesis using loop_returnsD [OF assms(1)] by fastforce
qed (use assms in \<open>simp add: Run_def Let_def\<close>)

lemma run_returns:
  assumes "loop_returns loop" "run loop env c i w = Ret (w', c', r, e)"
  shows "Gas c' \<le> Gas c"
  using assms(2) UseGas_le [of _ c] Run_returns [OF assms(1)]
  by (auto simp: run_def RunPrecompiledContract_def Let_def split_beta obind_eq split: option.splits if_splits)

lemma Run_fuel: "loop_fuel n loop \<Longrightarrow> unat (Gas c) < n \<Longrightarrow> Run loop c i w \<noteq> NoFuel"
  using loop_fuelD [where f = "\<lparr>pc = 0, contract = c\<lparr>Input := i\<rparr>, mem = NewMemory, stk = []\<rparr>"]
  by (auto simp: Run_def Let_def obind_eq gas_of_def)

lemma run_fuel: "loop_fuel n loop \<Longrightarrow> unat (Gas c) < n \<Longrightarrow> run loop env c i w \<noteq> NoFuel"
  using Run_fuel [of n loop c i w]
  by (auto simp: run_def RunPrecompiledContract_def Let_def split_beta obind_eq split: option.splits)

lemma finish_call_returns: "finish_call env sn (w, c, r, e) = Ret (w', r', g', e') \<Longrightarrow> g' \<le> Gas c"
  using UseGas_le [of "Gas c" c] by (auto simp: finish_call_def Let_def split: option.splits if_splits)

lemma finish_call_fuel [simp]: "finish_call env sn p \<noteq> NoFuel"
  by (auto simp: finish_call_def Let_def split: option.splits prod.splits)

lemma finish_create_fuel [simp]: "finish_create env sn a p \<noteq> NoFuel"
  by (auto simp: finish_create_def Let_def split: option.splits prod.splits)

lemma finish_create_returns:
  assumes "finish_create env sn a (w, c, r, e) = Ret (w', r', a', g', e')"
  shows "g' \<le> Gas c"
proof -
  have l: "Gas (snd (UseGas g c1)) \<le> Gas c" if "Gas c1 \<le> Gas c" for g c1
    using UseGas_le [of g c1] that by (rule order_trans)
  show ?thesis using assms l [OF order_refl] l [OF l [OF order_refl]]
    by (auto simp: finish_create_def Let_def split_beta split: option.splits if_splits)
qed

lemma contract_gas [simp]:
  "Gas (NewContract cl a v g) = g" "Gas (SetCallCode a h bs c) = Gas c" "Gas (fst (load_code env a c w)) = Gas c"
  by (simp_all add: NewContract_def SetCallCode_def load_code_def Let_def split_beta)

lemma AsDelegate_gas: "AsDelegate c = Ret c' \<Longrightarrow> Gas c' = Gas c"
  by (auto simp: AsDelegate_def split: ContractRef.splits)

lemma AsDelegate_fuel [simp]: "AsDelegate c \<noteq> NoFuel"
  by (simp add: AsDelegate_def split: ContractRef.split)

lemma run_finish_returns:
  assumes "loop_returns loop" "obind (run loop env c i w) (finish_call env sn) = Ret (w', r, g', e)"
  shows "g' \<le> Gas c"
  using assms(2) run_returns [OF assms(1)] finish_call_returns
  by (auto simp: obind_eq) (meson order_trans)

lemma run_create_returns:
  assumes "loop_returns loop" "obind (run loop env c i w) (finish_create env sn a) = Ret (w', r, a', g', e)"
  shows "g' \<le> Gas c"
  using assms(2) run_returns [OF assms(1)] finish_create_returns
  by (auto simp: obind_eq) (meson order_trans)

lemma evm_Call_returns:
  assumes "loop_returns loop" "evm_Call loop env w cl a i g v = Ret (w', r, g', e)"
  shows "g' \<le> g"
  using assms(2) run_finish_returns [OF assms(1)]
  by (fastforce simp: evm_Call_def Let_def split_beta split: if_splits)

lemma evm_CallCode_returns:
  assumes "loop_returns loop" "evm_CallCode loop env w cl a i g v = Ret (w', r, g', e)"
  shows "g' \<le> g"
  using assms(2) run_finish_returns [OF assms(1)]
  by (fastforce simp: evm_CallCode_def Let_def split_beta split: if_splits)

lemma evm_DelegateCall_returns:
  assumes "loop_returns loop" "evm_DelegateCall loop env w cl a i g = Ret (w', r, g', e)"
  shows "g' \<le> g"
  using assms(2) run_finish_returns [OF assms(1)] AsDelegate_gas [of "NewContract cl (ref_Address cl) None g"]
  by (fastforce simp: evm_DelegateCall_def Let_def split_beta obind_eq(1) [of "AsDelegate _"] split: if_splits)

lemma evm_Create_returns:
  assumes "loop_returns loop" "evm_Create loop env w cl bs g v = Ret (w', r, a, g', e)"
  shows "g' \<le> g"
  using assms(2) run_create_returns [OF assms(1)]
  by (fastforce simp: evm_Create_def Let_def split_beta split: if_splits)

lemma calls_fuel:
  assumes "loop_fuel n loop" "unat g < n"
  shows "evm_Call loop env w cl a i g v \<noteq> NoFuel" "evm_CallCode loop env w cl a i g v \<noteq> NoFuel"
    "evm_DelegateCall loop env w cl a i g \<noteq> NoFuel" "evm_Create loop env w cl i g v \<noteq> NoFuel"
proof -
  have r: "run loop env c i w \<noteq> NoFuel" if "Gas c = g" for c i w
    using run_fuel [OF assms(1)] that assms(2) by simp
  show "evm_Call loop env w cl a i g v \<noteq> NoFuel" "evm_CallCode loop env w cl a i g v \<noteq> NoFuel"
    by (simp_all add: evm_Call_def evm_CallCode_def Let_def split_beta obind_eq r)
  show "evm_DelegateCall loop env w cl a i g \<noteq> NoFuel"
    by (auto simp: evm_DelegateCall_def Let_def split_beta obind_eq r dest!: AsDelegate_gas)
  show "evm_Create loop env w cl i g v \<noteq> NoFuel"
    by (simp add: evm_Create_def Let_def split_beta obind_eq r)
qed

lemma subcalls_returns: "loop_returns loop \<Longrightarrow> sc_returns (subcalls_of loop env)"
  using evm_Call_returns evm_CallCode_returns evm_DelegateCall_returns evm_Create_returns
  unfolding sc_returns_def subcalls_of_def subcalls.simps by metis

lemma subcalls_fuel: "loop_fuel n loop \<Longrightarrow> sc_fuel n (subcalls_of loop env)"
  by (simp add: sc_fuel_def subcalls_of_def calls_fuel)

section \<open>The loop\<close>

lemma run_loop_returns:
  assumes "\<not> DisableGasMetering (vmConfig env)"
  shows "loop_returns (run_loop n env)"
proof (induction n)
  case (Suc n)
  note st = step_decreasing [OF assms subcalls_returns [OF Suc, of env]]
  show ?case unfolding loop_returns_def
  proof (intro allI impI)
    fix w f w' f' r e assume e: "run_loop (Suc n) env w f = Ret (w', f', r, e)"
    show "Gas (contract f') \<le> Gas (contract f)"
    proof (cases "cancelled env (rounds w)")
      case False
      define w1 where "w1 = w\<lparr>rounds := rounds w + 1\<rparr>"
      have e: "obind (step (subcalls_of (run_loop n env) env) env w1 f) (\<lambda>r.
            case r of Next w2 f2 \<Rightarrow> run_loop n env w2 f2 | Stop w2 f2 ret err \<Rightarrow> Ret (w2, f2, ret, err)) = Ret (w', f', r, e)"
        using e False by (simp add: w1_def Let_def)
      then obtain x where x: "step (subcalls_of (run_loop n env) env) env w1 f = Ret x"
        "(case x of Next w2 f2 \<Rightarrow> run_loop n env w2 f2 | Stop w2 f2 ret err \<Rightarrow> Ret (w2, f2, ret, err)) = Ret (w', f', r, e)"
        by (auto simp: obind_eq)
      show ?thesis
      proof (cases x)
        case (Next w2 f2)
        then have "gas_of f2 < gas_of f" using st [of w1 f] x by simp
        moreover have "Gas (contract f') \<le> Gas (contract f2)" using loop_returnsD [OF Suc] x(2) Next by simp
        ultimately show ?thesis by (simp add: gas_of_def word_le_nat_alt)
      next
        case (Stop w2 f2 r2 e2)
        then show ?thesis using st [of w1 f] x by (simp add: gas_of_def word_le_nat_alt)
      qed
    qed (use e in \<open>simp add: Let_def\<close>)
  qed
qed (simp add: loop_returns_def)

lemma run_loop_fuel:
  assumes "\<not> DisableGasMetering (vmConfig env)"
  shows "loop_fuel n (run_loop n env)"
proof (induction n)
  case (Suc n)
  note st = step_decreasing [OF assms subcalls_returns [OF run_loop_returns [OF assms, of n], of env]]
  show ?case unfolding loop_fuel_def
  proof (intro allI impI)
    fix w :: evm and f :: frame assume g: "gas_of f < Suc n"
    define w1 where "w1 = w\<lparr>rounds := rounds w + 1\<rparr>"
    have s: "step (subcalls_of (run_loop n env) env) env w1 f \<noteq> NoFuel"
      using st [of w1 f] subcalls_fuel [OF Suc, of env] g by (meson less_Suc_eq_le)
    have "run_loop n env w2 f2 \<noteq> NoFuel" if "step (subcalls_of (run_loop n env) env) env w1 f = Ret (Next w2 f2)" for w2 f2
      using st [of w1 f] that g loop_fuelD [OF Suc] by fastforce
    then show "run_loop (Suc n) env w f \<noteq> NoFuel"
      using s by (auto simp: Let_def w1_def obind_eq split: round.splits)
  qed
qed (simp add: loop_fuel_def)

section \<open>More fuel gives the same result\<close>

definition below :: "'a outcome \<Rightarrow> 'a outcome \<Rightarrow> bool" where
  "below x y \<longleftrightarrow> x = NoFuel \<or> y = x"

lemma below_refl [simp, intro]: "below x x"
  by (simp add: below_def)

lemma below_NoFuel [simp, intro]: "below NoFuel x"
  by (simp add: below_def)

lemma below_obind: "below x y \<Longrightarrow> (\<And>r. below (h r) (k r)) \<Longrightarrow> below (obind x h) (obind y k)"
  by (cases x) (auto simp: below_def)

definition sc_below :: "subcalls \<Rightarrow> subcalls \<Rightarrow> bool" where
  "sc_below sc sc' \<longleftrightarrow>
     (\<forall>w cl a i g v. below (sc_Call sc w cl a i g v) (sc_Call sc' w cl a i g v)) \<and>
     (\<forall>w cl a i g v. below (sc_CallCode sc w cl a i g v) (sc_CallCode sc' w cl a i g v)) \<and>
     (\<forall>w cl a i g. below (sc_DelegateCall sc w cl a i g) (sc_DelegateCall sc' w cl a i g)) \<and>
     (\<forall>w cl i g v. below (sc_Create sc w cl i g v) (sc_Create sc' w cl i g v))"

lemma execute_below:
  assumes "plain_op x \<or> call_op x" and sc: "sc_below sc sc'"
  shows "below (execute x sc env w f) (execute x sc' env w f)"
proof -
  have "below (execute x sc env w f) (execute x sc' env w f)" if "plain_op x"
  proof -
    have "execute x sc' env w f = execute x sc env w f" using that by (simp add: plain_op_def quiet_def)
    then show ?thesis by simp
  qed
  moreover have "below (execute x sc env w f) (execute x sc' env w f)" if "call_op x"
    using that sc unfolding call_op_def sc_below_def
    by (auto simp: opCall_def opCallCode_def opDelegateCall_def opCreate_def Let_def split_beta split: list.split
        intro!: below_obind)
  ultimately show ?thesis using assms(1) by blast
qed

lemma step_below:
  assumes "sc_below sc sc'"
  shows "below (step sc env w f) (step sc' env w f)"
proof (cases "valid (instruction_set env (GetOp (contract f) (pc f)))")
  case True
  note x = execute_below [OF instruction_set_cases [OF True] assms]
  show ?thesis
    unfolding step_def execute_op_def Let_def
    by (auto simp: split_beta intro!: below_obind x split: option.split sum.split)
qed (simp add: step_def Let_def)

lemma run_below:
  assumes "\<And>w f. below (loop w f) (loop' w f)"
  shows "below (run loop env c i w) (run loop' env c i w)"
  unfolding run_def Run_def Let_def
  by (auto intro!: below_obind assms split: option.split)

lemma subcalls_below:
  assumes "\<And>w f. below (loop w f) (loop' w f)"
  shows "sc_below (subcalls_of loop env) (subcalls_of loop' env)"
  unfolding sc_below_def subcalls_of_def subcalls.simps evm_Call_def evm_CallCode_def evm_DelegateCall_def
    evm_Create_def Let_def split_beta
  by (auto intro!: below_obind run_below assms)

definition loop_body :: "evm_env \<Rightarrow> interp \<Rightarrow> interp" where
  "loop_body env loop w f =
     (if cancelled env (rounds w) then Ret (w\<lparr>rounds := rounds w + 1\<rparr>, f, None, None)
      else
        obind (step (subcalls_of loop env) env (w\<lparr>rounds := rounds w + 1\<rparr>) f) (\<lambda>r.
          case r of Next w2 f2 \<Rightarrow> loop w2 f2 | Stop w2 f2 ret err \<Rightarrow> Ret (w2, f2, ret, err)))"

lemma run_loop_Suc: "run_loop (Suc n) env w f = loop_body env (run_loop n env) w f"
  by (simp add: loop_body_def Let_def)

lemma loop_body_below:
  assumes "\<And>w f. below (loop w f) (loop' w f)"
  shows "below (loop_body env loop w f) (loop_body env loop' w f)"
  unfolding loop_body_def
  by (auto intro!: below_obind step_below subcalls_below assms split: round.split)

lemma run_loop_Suc_below: "below (run_loop n env w f) (run_loop (Suc n) env w f)"
proof (induction n arbitrary: w f)
  case (Suc n)
  show ?case unfolding run_loop_Suc [of "Suc n"] run_loop_Suc [of n] by (rule loop_body_below) (simp only: Suc [unfolded run_loop_Suc])
qed simp

lemma run_loop_below: "n \<le> m \<Longrightarrow> below (run_loop n env w f) (run_loop m env w f)"
proof (induction m rule: dec_induct)
  case (step m)
  then show ?case using run_loop_Suc_below [of m env w f] by (auto simp: below_def)
qed simp

lemma entry_below:
  assumes "n \<le> m"
  shows "below (Call n env w cl a i g v) (Call m env w cl a i g v)"
    "below (CallCode n env w cl a i g v) (CallCode m env w cl a i g v)"
    "below (DelegateCall n env w cl a i g) (DelegateCall m env w cl a i g)"
    "below (Create n env w cl i g v) (Create m env w cl i g v)"
  using subcalls_below [of "run_loop n env" "run_loop m env" env] run_loop_below [OF assms]
  by (simp_all add: sc_below_def subcalls_of_def Call_def CallCode_def DelegateCall_def Create_def)

lemma entry_fuel:
  assumes "\<not> DisableGasMetering (vmConfig env)" "unat g < n"
  shows "Call n env w cl a i g v \<noteq> NoFuel" "CallCode n env w cl a i g v \<noteq> NoFuel"
    "DelegateCall n env w cl a i g \<noteq> NoFuel" "Create n env w cl i g v \<noteq> NoFuel"
  using calls_fuel [OF run_loop_fuel [OF assms(1)] assms(2)]
  by (simp_all add: Call_def CallCode_def DelegateCall_def Create_def)

lemma below_settles: "below x y \<Longrightarrow> x \<noteq> NoFuel \<Longrightarrow> y = x"
  by (simp add: below_def)

lemma settled:
  assumes "\<And>n. k < n \<Longrightarrow> below (F (Suc k)) (F n)" and "F (Suc k) \<noteq> NoFuel"
  shows "\<exists>r. r \<noteq> NoFuel \<and> (\<forall>n > k. F n = r)"
  using assms below_settles by blast

end
