(* ===== verification/Evm_Spec.thy ===== *)
theory Evm_Spec
  imports Evm_Progress
begin

text \<open>
  What executions do to the account database, as a transition relation \<open>evolves\<close> on the
  specification machine of the database: operations that move no funds, covered transfers, self
  destructs, and blocks that are reverted as a whole. By rule induction it keeps older snapshots,
  keeps balances non-negative and never increases their sum.
\<close>

section \<open>Funds\<close>

definition balance_of :: "view \<Rightarrow> address \<Rightarrow> int" where
  "balance_of v a = (case vw_accts v a of None \<Rightarrow> 0 | Some x \<Rightarrow> av_balance x)"

definition total :: "view \<Rightarrow> int" where
  "total v = (\<Sum>a\<in>UNIV. balance_of v a)"

definition vtransfer :: "crypto \<Rightarrow> address \<Rightarrow> address \<Rightarrow> int \<Rightarrow> view \<Rightarrow> view" where
  "vtransfer E a b x v =
     vupd E b (\<lambda>y. y\<lparr>av_balance := av_balance y + x\<rparr>) (vupd E a (\<lambda>y. y\<lparr>av_balance := av_balance y - x\<rparr>) v)"

text \<open>A self destruct: the balance goes to the beneficiary, then the account is marked and emptied.\<close>

definition vselfdestruct :: "crypto \<Rightarrow> address \<Rightarrow> address \<Rightarrow> view \<Rightarrow> view" where
  "vselfdestruct E a b v = vSuicide a (vupd E b (\<lambda>y. y\<lparr>av_balance := av_balance y + balance_of v a\<rparr>) v)"

lemma total_point: "(\<And>c. c \<noteq> a \<Longrightarrow> balance_of v' c = balance_of v c) \<Longrightarrow> total v' = total v + balance_of v' a - balance_of v a"
proof -
  assume e: "\<And>c. c \<noteq> a \<Longrightarrow> balance_of v' c = balance_of v c"
  have "total v' = balance_of v' a + (\<Sum>c\<in>UNIV - {a}. balance_of v' c)"
    unfolding total_def by (rule sum.remove) simp_all
  also have "(\<Sum>c\<in>UNIV - {a}. balance_of v' c) = (\<Sum>c\<in>UNIV - {a}. balance_of v c)" using e by simp
  also have "\<dots> = total v - balance_of v a"
    unfolding total_def by (subst sum.remove [of UNIV a]) simp_all
  finally show ?thesis by simp
qed

lemma balance_vupd:
  "balance_of (vupd E a f v) c =
     (if c = a then av_balance (f (case vw_accts v a of None \<Rightarrow> fresh_view E | Some x \<Rightarrow> x)) else balance_of v c)"
  by (simp add: balance_of_def vupd_def)

lemma fresh_balance_0 [simp]: "av_balance (fresh_view E) = 0"
  by (simp add: fresh_view_def)

lemma balance_vadd:
  "balance_of (vupd E a (\<lambda>y. y\<lparr>av_balance := av_balance y + x\<rparr>) v) c = balance_of v c + (if c = a then x else 0)"
  "balance_of (vupd E a (\<lambda>y. y\<lparr>av_balance := av_balance y - x\<rparr>) v) c = balance_of v c - (if c = a then x else 0)"
  by (simp_all add: balance_of_def vupd_def split: option.split)

text \<open>Operations that move no funds.\<close>

lemma balance_keeps [simp]:
  "(\<And>y. av_balance (f y) = av_balance y) \<Longrightarrow> balance_of (vupd E a f v) = balance_of v"
  "balance_of (vCreateAccount E a v) = balance_of v"
  "balance_of (vAddLog pos l v) = balance_of v"
  "balance_of (v\<lparr>vw_refund := g\<rparr>) = balance_of v"
  "balance_of (v\<lparr>vw_preimages := h\<rparr>) = balance_of v"
  by (auto simp: fun_eq_iff balance_of_def vupd_def vCreateAccount_def vAddLog_def split: option.split prod.split)

definition codes_ok :: "view \<Rightarrow> bool" where
  "codes_ok v \<longleftrightarrow> (\<forall>a x. vw_accts v a = Some x \<longrightarrow> length (av_code x) < 2 ^ 64)"

lemma codes_keeps [simp]:
  "codes_ok v \<Longrightarrow> (\<And>y. av_code (f y) = av_code y) \<Longrightarrow> codes_ok (vupd E a f v)"
  "codes_ok v \<Longrightarrow> length c < 2 ^ 64 \<Longrightarrow> codes_ok (vupd E a (\<lambda>x. x\<lparr>av_codehash := h1, av_code := c\<rparr>) v)"
  "codes_ok v \<Longrightarrow> codes_ok (vCreateAccount E a v)"
  "codes_ok v \<Longrightarrow> codes_ok (vAddLog pos l v)"
  "codes_ok v \<Longrightarrow> codes_ok (vSuicide a v)"
  "codes_ok v \<Longrightarrow> codes_ok (v\<lparr>vw_refund := g\<rparr>)"
  "codes_ok v \<Longrightarrow> codes_ok (v\<lparr>vw_preimages := h\<rparr>)"
  by (auto simp: codes_ok_def vupd_def vCreateAccount_def vAddLog_def vSuicide_def fresh_view_def split: option.splits prod.splits)

lemma total_vadd:
  "total (vupd E a (\<lambda>y. y\<lparr>av_balance := av_balance y + x\<rparr>) v) = total v + x"
  "total (vupd E a (\<lambda>y. y\<lparr>av_balance := av_balance y - x\<rparr>) v) = total v - x"
  by (subst total_point [where a = a and v = v]; simp add: balance_vadd)+

lemma total_vtransfer: "total (vtransfer E a b x v) = total v"
  by (simp add: vtransfer_def total_vadd)

lemma balance_vSuicide: "balance_of (vSuicide a v) c = (if c = a then 0 else balance_of v c)"
  by (simp add: vSuicide_def balance_of_def split: option.split)

lemma total_vselfdestruct:
  "total (vselfdestruct E a b v) = total v - (if a = b then balance_of v a else 0)"
proof -
  have "total (vSuicide a w) = total w - balance_of w a" for w
    by (subst total_point [where a = a and v = w]) (simp_all add: balance_vSuicide)
  then show ?thesis by (simp add: vselfdestruct_def total_vadd balance_vadd)
qed

lemma refund_keeps [simp]:
  "vw_refund (vupd E a f v) = vw_refund v" "vw_refund (vCreateAccount E a v) = vw_refund v"
  "vw_refund (vAddLog pos l v) = vw_refund v" "vw_refund (vSuicide a v) = vw_refund v"
  "vw_refund (vtransfer E a b x v) = vw_refund v" "vw_refund (vselfdestruct E a b v) = vw_refund v"
  by (auto simp: vupd_def vCreateAccount_def vAddLog_def vSuicide_def vtransfer_def vselfdestruct_def split: option.split prod.split)

text \<open>Well-formed views: no balance is negative, all together fit a word, no code is longer than
  memory can be, and the refund counter is not negative.\<close>

definition funds_ok :: "view \<Rightarrow> bool" where
  "funds_ok v \<longleftrightarrow> (\<forall>a. 0 \<le> balance_of v a) \<and> total v < 2 ^ 256 \<and> codes_ok v \<and> 0 \<le> vw_refund v"

lemma balance_le_total: "(\<And>c. 0 \<le> balance_of v c) \<Longrightarrow> balance_of v a \<le> total v"
  unfolding total_def by (rule member_le_sum) simp_all

section \<open>Executions on the specification\<close>

text \<open>What a message call does to the specification machine of the account database: single
  operations that move no funds, transfers that are covered, self destructs, and blocks that are
  reverted as a whole.\<close>

fun harmless :: "db_op \<Rightarrow> bool" where
  "harmless (OpAddBalance a b) = False"
| "harmless (OpSubBalance a b) = False"
| "harmless (OpSetBalance a b) = False"
| "harmless (OpSuicide a) = False"
| "harmless (OpRevert k) = False"
| "harmless (OpSetCode a c) = (length (bytes_of c) < 2 ^ 64)"
| "harmless (OpAddRefund g) = (0 \<le> g)"
| "harmless (OpPrepare th bh ti) = False"
| "harmless op = True"

inductive evolves :: "crypto \<Rightarrow> adb \<Rightarrow> adb \<Rightarrow> bool" for E where
  evolves_refl: "evolves E A A"
| evolves_op: "evolves E A B \<Longrightarrow> harmless op \<Longrightarrow> ad_step E op B = Some (r, C) \<Longrightarrow> evolves E A C"
| evolves_transfer: "evolves E A B \<Longrightarrow> 0 \<le> x \<Longrightarrow> x \<le> balance_of (ad_view B) a \<Longrightarrow>
    evolves E A (B\<lparr>ad_view := vtransfer E a b x (ad_view B)\<rparr>)"
| evolves_selfdestruct: "evolves E A B \<Longrightarrow> evolves E A (B\<lparr>ad_view := vselfdestruct E a b (ad_view B)\<rparr>)"
| evolves_revert: "evolves E A B \<Longrightarrow> ad_step E OpSnapshot B = Some (OSnap k, C) \<Longrightarrow> evolves E C D \<Longrightarrow>
    ad_step E (OpRevert k) D = Some (r, F) \<Longrightarrow> evolves E A F"

lemma evolves_trans: "evolves E B C \<Longrightarrow> evolves E A B \<Longrightarrow> evolves E A C"
proof (induction rule: evolves.induct)
  case (evolves_op A B op r C)
  then show ?case by (blast intro: evolves.intros)
next
  case (evolves_revert A B k C D r F)
  then show ?case by (blast intro: evolves.intros)
qed (auto intro: evolves.intros)

definition snaps_ok :: "adb \<Rightarrow> bool" where
  "snaps_ok A \<longleftrightarrow> (\<forall>p\<in>set (ad_snaps A). fst p < ad_next A)"

definition later :: "adb \<Rightarrow> adb \<Rightarrow> bool" where
  "later A B \<longleftrightarrow> ad_next A \<le> ad_next B \<and> snaps_ok B \<and>
     (\<exists>rest. ad_snaps B = ad_snaps A @ rest \<and> (\<forall>p\<in>set rest. ad_next A \<le> fst p))"

lemma harmless_step:
  assumes "harmless op" "ad_step E op A = Some (r, B)"
  shows "snaps_ok A \<Longrightarrow> later A B" "balance_of (ad_view B) = balance_of (ad_view A)"
    "funds_ok (ad_view A) \<Longrightarrow> funds_ok (ad_view B)"
proof -
  show b: "balance_of (ad_view B) = balance_of (ad_view A)"
    using assms by (cases op) (auto simp: ad_upd_def)
  show "later A B" if "snaps_ok A"
    using assms that by (cases op) (fastforce simp: ad_upd_def later_def snaps_ok_def)+
  have "total (ad_view B) = total (ad_view A)" by (simp add: total_def b)
  moreover have "codes_ok (ad_view B)" if "codes_ok (ad_view A)"
    using assms that by (cases op) (auto simp: ad_upd_def)
  moreover have "0 \<le> vw_refund (ad_view B)" if "0 \<le> vw_refund (ad_view A)"
    using assms that by (cases op) (auto simp: ad_upd_def)
  ultimately show "funds_ok (ad_view B)" if "funds_ok (ad_view A)"
    using that by (simp add: funds_ok_def b)
qed

lemma later_trans:
  assumes "later A B" "later B C"
  shows "later A C"
proof -
  obtain r1 r2 where "ad_snaps B = ad_snaps A @ r1" "\<forall>p\<in>set r1. ad_next A \<le> fst p"
    "ad_snaps C = ad_snaps B @ r2" "\<forall>p\<in>set r2. ad_next B \<le> fst p"
    using assms by (auto simp: later_def)
  then have "ad_snaps C = ad_snaps A @ (r1 @ r2)" "\<forall>p\<in>set (r1 @ r2). ad_next A \<le> fst p"
    using assms by (force simp: later_def)+
  then show ?thesis using assms unfolding later_def by (intro conjI exI [of _ "r1 @ r2"]) simp_all
qed

lemma later_refl: "snaps_ok A \<Longrightarrow> later A A"
  by (simp add: later_def)

lemma later_view [simp]: "later A (B\<lparr>ad_view := v\<rparr>) = later A B"
  by (simp add: later_def snaps_ok_def)

text \<open>Reverting to the snapshot that was taken brings back the view and the older snapshots.\<close>

lemma revert_restores:
  assumes "ad_step E OpSnapshot B = Some (OSnap k, C)" "snaps_ok B" "later C D" "ad_step E (OpRevert k) D = Some (r, F)"
  shows "ad_view F = ad_view B \<and> ad_snaps F = ad_snaps B \<and> ad_next F = ad_next D"
proof -
  have C: "k = ad_next B" "ad_snaps C = ad_snaps B @ [(k, ad_view B)]" "ad_next C = Suc k" using assms(1) by auto
  obtain rest where D: "ad_snaps D = ad_snaps C @ rest" "\<forall>p\<in>set rest. Suc k \<le> fst p"
    using assms(3) C(3) by (auto simp: later_def)
  have ids: "\<forall>p\<in>set (ad_snaps B). fst p < k" using assms(2) C(1) by (simp add: snaps_ok_def)
  then have "map_of (ad_snaps B) k = None" by (fastforce simp: map_of_eq_None_iff)
  then have m: "map_of (ad_snaps D) k = Some (ad_view B)" using D(1) C(2) by (simp add: map_add_def)
  have "filter (\<lambda>p. fst p < k) (ad_snaps D) = ad_snaps B"
    using D C(2) ids by (auto simp: filter_id_conv filter_empty_conv)
  then show ?thesis using m assms(4) by auto
qed

lemma revert_possible:
  assumes "ad_step E OpSnapshot B = Some (OSnap k, C)" "snaps_ok B" "later C D"
  shows "\<exists>F. ad_step E (OpRevert k) D = Some (ODone, F)"
proof -
  have "(k, ad_view B) \<in> set (ad_snaps D)" using assms(1,3) by (auto simp: later_def)
  then show ?thesis by (force split: option.split simp: map_of_eq_None_iff image_iff)
qed

text \<open>Executions never take old snapshots away, keep balances non-negative and do not create funds.\<close>

lemma evolves_keeps:
  assumes "evolves E A B" "snaps_ok A"
  shows "later A B \<and> (funds_ok (ad_view A) \<longrightarrow> funds_ok (ad_view B) \<and> total (ad_view B) \<le> total (ad_view A))"
  using assms
proof (induction rule: evolves.induct)
  case (evolves_refl A)
  then show ?case by (simp add: later_refl)
next
  case (evolves_op A B op r C)
  have l: "later A B" using evolves_op by simp
  then have "later A C" using harmless_step(1) [OF evolves_op(2,3)] later_trans by (auto simp: later_def)
  then show ?case using evolves_op harmless_step(2,3) [OF evolves_op(2,3)] by (simp add: total_def)
next
  case (evolves_transfer A B x a b)
  have "codes_ok (vtransfer E a b x (ad_view B))" if "codes_ok (ad_view B)" using that by (simp add: vtransfer_def)
  moreover have "0 \<le> balance_of (vtransfer E a b x (ad_view B)) c" if "\<forall>c. 0 \<le> balance_of (ad_view B) c" for c
    using that evolves_transfer(2,3) by (auto simp: vtransfer_def balance_vadd)
  ultimately show ?case using evolves_transfer by (simp add: funds_ok_def total_vtransfer)
next
  case (evolves_selfdestruct A B a b)
  have "codes_ok (vselfdestruct E a b (ad_view B))" if "codes_ok (ad_view B)" using that by (simp add: vselfdestruct_def)
  moreover have "0 \<le> balance_of (vselfdestruct E a b (ad_view B)) c" if "\<forall>c. 0 \<le> balance_of (ad_view B) c" for c
    using that by (simp add: vselfdestruct_def balance_vSuicide balance_vadd)
  moreover have "total (vselfdestruct E a b (ad_view B)) \<le> total (ad_view B)" if "\<forall>c. 0 \<le> balance_of (ad_view B) c"
    using that by (simp add: total_vselfdestruct)
  ultimately show ?case using evolves_selfdestruct by (auto simp: funds_ok_def)
next
  case (evolves_revert A B k C D r F)
  have B: "snaps_ok B" "later A B" using evolves_revert by (auto simp: later_def)
  have "snaps_ok C" using harmless_step(1) [OF _ evolves_revert.hyps(2) B(1)] by (simp add: later_def)
  then have D: "later C D" using evolves_revert by simp
  note F = revert_restores [OF evolves_revert.hyps(2) B(1) D evolves_revert.hyps(4)]
  have "ad_next B \<le> ad_next D" using D evolves_revert.hyps(2) by (auto simp: later_def)
  then have "later A F" using F B by (auto simp: later_def snaps_ok_def)
  then show ?case using F evolves_revert by simp
qed

end
