(* ===== verification/Evm_Reached.thy ===== *)
theory Evm_Reached
  imports Evm_Spec
begin

text \<open>
  The databases that executions reach: \<open>reached E A s\<close> says that \<open>s\<close> implements a machine state that
  evolved from \<open>A\<close>. One lemma per database operation of the EVM, and one for opening a snapshot.
\<close>

section \<open>The code size cache\<close>

definition sizes_small :: "(hash, nat) lru \<Rightarrow> bool" where
  "sizes_small c \<longleftrightarrow> (\<forall>p\<in>set (evictList c). snd p < 2 ^ 64)"

definition cache_small :: "stateDB \<Rightarrow> bool" where
  "cache_small s \<longleftrightarrow> sizes_small (codeSizeCache s)"

lemma cache_fire [simp]: "codeSizeCache (snd (fireDirty ob s)) = codeSizeCache s"
  by (simp add: fireDirty_def MarkStateObjectDirty_def)

lemma cache_journal [simp]: "codeSizeCache (append_journal ch s) = codeSizeCache s"
  by (simp add: append_journal_def)

lemma cache_set [simp]: "codeSizeCache (setStateObject ob s) = codeSizeCache s"
  by (simp add: setStateObject_def)

lemma cache_methods [simp]:
  "codeSizeCache (snd (so_setNonce n ob s)) = codeSizeCache s"
  "codeSizeCache (snd (so_SetNonce n ob s)) = codeSizeCache s"
  "codeSizeCache (snd (so_setBalance b ob s)) = codeSizeCache s"
  "codeSizeCache (snd (so_SetBalance b ob s)) = codeSizeCache s"
  "codeSizeCache (snd (touch ob s)) = codeSizeCache s"
  "codeSizeCache (snd (so_AddBalance E b ob s)) = codeSizeCache s"
  "codeSizeCache (snd (so_SubBalance b ob s)) = codeSizeCache s"
  "codeSizeCache (snd (so_setCode h c ob s)) = codeSizeCache s"
  "codeSizeCache (snd (so_SetCode E h c ob s)) = codeSizeCache s"
  "codeSizeCache (snd (so_setState k w ob s)) = codeSizeCache s"
  "codeSizeCache (snd (so_SetState E k w ob s)) = codeSizeCache s"
  "codeSizeCache (snd (markSuicided ob s)) = codeSizeCache s"
  by (simp_all add: so_setNonce_def so_SetNonce_def so_setBalance_def so_SetBalance_def touch_def so_AddBalance_def
      so_SubBalance_def so_setCode_def so_SetCode_def so_setState_def so_SetState_def markSuicided_def Let_def split_beta)

lemma cache_get [simp]: "codeSizeCache (snd (getStateObject E a s)) = codeSizeCache s"
  by (simp add: getStateObject_def Let_def split: option.split sum.split)

lemma cache_create [simp]: "codeSizeCache (snd (createObject E a s)) = codeSizeCache s"
  by (simp add: createObject_def Let_def split_beta split: option.split)

lemma cache_CreateAccount [simp]: "codeSizeCache (CreateAccount E a s) = codeSizeCache s"
  by (simp add: CreateAccount_def Let_def split_beta split: option.split)

lemma cache_GetOrNew [simp]: "codeSizeCache (snd (GetOrNewStateObject E a s)) = codeSizeCache s"
  by (simp add: GetOrNewStateObject_def Let_def split_beta split: option.split)

lemma cache_on_object: "(\<And>ob s. codeSizeCache (snd (f ob s)) = codeSizeCache s) \<Longrightarrow> codeSizeCache (on_object E a f s) = codeSizeCache s"
  by (simp add: on_object_def Let_def split_beta)

lemma cache_undo_on: "(\<And>ob s. codeSizeCache (snd (f ob s)) = codeSizeCache s) \<Longrightarrow> undo_on E a f s = Some s' \<Longrightarrow> codeSizeCache s' = codeSizeCache s"
  by (auto simp: undo_on_def Let_def split_beta split: option.splits)

lemma cache_undo: "undo E ch s = Some s' \<Longrightarrow> codeSizeCache s' = codeSizeCache s"
  by (cases ch) (auto simp: Let_def split_beta dest: cache_undo_on [rotated] split: option.splits if_splits)

lemma cache_undo_all: "undo_all E chs s = Some s' \<Longrightarrow> codeSizeCache s' = codeSizeCache s"
  by (induction chs arbitrary: s) (auto simp: cache_undo split: option.splits)

lemma cache_revert: "RevertToSnapshot E k s = Some s' \<Longrightarrow> codeSizeCache s' = codeSizeCache s"
  by (auto simp: RevertToSnapshot_def Let_def dest: cache_undo_all split: if_splits)

lemma sizes_add: "sizes_small c \<Longrightarrow> n < 2 ^ 64 \<Longrightarrow> sizes_small (snd (lru_Add k n c))"
  by (auto simp: sizes_small_def lru_Add_def Let_def moveToFront_def removeOldest_def AList.delete_eq
      dest!: in_set_butlastD split: option.split)

lemma sizes_get:
  assumes "sizes_small c" "lru_Get k c = (r, c')"
  shows "sizes_small c'" "r = Some n \<Longrightarrow> n < 2 ^ 64"
  using assms map_of_SomeD [of "evictList c" k]
  by (fastforce simp: sizes_small_def lru_Get_def moveToFront_def AList.delete_eq split: option.splits)+

lemma so_Code_length:
  assumes "implements E s A" "codes_ok (ad_view A)" "getStateObject E a s = (Some ob, s1)"
  shows "length (bytes_of (fst (so_Code E (db s1) ob))) < 2 ^ 64"
proof -
  have o: "objs_ok E s" using assms(1) by (simp add: implements_def sdb_ok_def)
  note g = getStateObject_objs [OF o assms(3)]
  then have "vw_accts (ad_view A) a = Some (obj_view E (db s) ob)" "db s1 = db s"
    using assms(1) by (auto simp: implements_def vw_accts_view frame_def)
  then show ?thesis using assms(2) unfolding codes_ok_def by (metis fst_so_Code obj_view_sel(4))
qed

lemma GetCode_cache:
  assumes "implements E s A" "codes_ok (ad_view A)" "cache_small s" "GetCode E a s = (c, s')"
  shows "cache_small s' \<and> length (bytes_of c) < 2 ^ 64"
proof -
  obtain r s1 where g: "getStateObject E a s = (r, s1)" by fastforce
  have s1: "codeSizeCache s1 = codeSizeCache s" using cache_get [of E a s] g by simp
  show ?thesis
  proof (cases r)
    case (Some ob)
    then show ?thesis using assms(3,4) g s1 so_Code_length [OF assms(1,2)]
      by (auto simp: GetCode_def Let_def split_beta cache_small_def sizes_add)
  qed (use assms g s1 in \<open>auto simp: GetCode_def cache_small_def\<close>)
qed

lemma GetCodeSize_cache:
  assumes "implements E s A" "codes_ok (ad_view A)" "cache_small s" "GetCodeSize E a s = (n, s')"
  shows "cache_small s' \<and> n < 2 ^ 64"
proof -
  obtain r s1 where g: "getStateObject E a s = (r, s1)" by fastforce
  have s1: "codeSizeCache s1 = codeSizeCache s" using cache_get [of E a s] g by simp
  show ?thesis
  proof (cases r)
    case (Some ob)
    obtain x c' where l: "lru_Get (BytesToHash (CodeHash (data ob))) (codeSizeCache s1) = (x, c')" by fastforce
    note c = sizes_get [OF _ l]
    have "length (bytes_of (fst (so_Code E (db s1) ob))) < 2 ^ 64" using so_Code_length [OF assms(1,2)] g Some by simp
    then show ?thesis using assms(3,4) g s1 c Some l
      by (auto simp: GetCodeSize_def Let_def split_beta cache_small_def sizes_add split: option.splits if_splits)
  qed (use assms g s1 in \<open>auto simp: GetCodeSize_def cache_small_def\<close>)
qed

lemma GetState_cache: "codeSizeCache (snd (GetState E a k s)) = codeSizeCache s"
  by (simp add: GetState_def Let_def split_beta split: option.split)

lemma cache_step:
  assumes "implements E s A" "codes_ok (ad_view A)" "cache_small s" "db_step E op s = Some (r, s')"
  shows "cache_small s'"
proof -
  have k: "cache_small s'" if "codeSizeCache s' = codeSizeCache s" using that assms(3) by (simp add: cache_small_def)
  show ?thesis
  proof (cases op)
    case (OpGetCode a)
    then show ?thesis using assms(4) GetCode_cache [OF assms(1-3), of a] by (cases "GetCode E a s") auto
  next
    case (OpGetCodeSize a)
    then show ?thesis using assms(4) GetCodeSize_cache [OF assms(1-3), of a] by (cases "GetCodeSize E a s") auto
  next
    case (OpRevert n)
    then show ?thesis using assms(4) cache_revert [of E n s s'] by (auto intro: k)
  qed (use assms(4) in \<open>auto intro!: k simp: AddBalance_def SubBalance_def SetBalance_def SetNonce_def SetCode_def SetState_def
        cache_on_object AddLog_def AddPreimage_def AddRefund_def Prepare_def Snapshot_def Suicide_def Exist_def Empty_def
        GetBalance_def GetNonce_def GetCodeHash_def HasSuicided_def GetState_cache map_prod_def Let_def split_beta split: option.splits\<close>)
qed



section \<open>Databases reached by executions\<close>

definition reached :: "crypto \<Rightarrow> adb \<Rightarrow> stateDB \<Rightarrow> bool" where
  "reached E A s \<longleftrightarrow> crypto_ok E \<and> snaps_ok A \<and> funds_ok (ad_view A) \<and> cache_small s \<and>
     (\<exists>B. evolves E A B \<and> implements E s B)"

lemma reached_funds:
  assumes "reached E A s"
  shows "funds_ok (view E s)" "total (view E s) \<le> total (ad_view A)"
  using assms evolves_keeps by (fastforce simp: reached_def implements_def)+

lemma simulates_SomeD:
  assumes "crypto_ok E" "implements E s B" "db_step E op s = Some (r, s')"
  obtains C where "ad_step E op B = Some (r, C)" "implements E s' C"
  using db_step_simulates [OF assms(1,2), of op] assms(3)
  by (auto simp: simulates_def option_rel_Some1 rel_prod.simps)

lemma reached_step:
  assumes "reached E A s" "harmless op" "db_step E op s = Some (r, s')"
  shows "reached E A s'" "balance_of (view E s') = balance_of (view E s)"
proof -
  obtain B where B: "evolves E A B" "implements E s B" using assms(1) by (auto simp: reached_def)
  obtain C where C: "ad_step E op B = Some (r, C)" "implements E s' C"
    using simulates_SomeD [OF _ B(2) assms(3)] assms(1) by (auto simp: reached_def)
  have "codes_ok (ad_view B)" using evolves_keeps [OF B(1)] assms(1) by (simp add: reached_def funds_ok_def)
  then have "cache_small s'" using cache_step [OF B(2) _ _ assms(3)] assms(1) by (simp add: reached_def)
  then show "reached E A s'" using assms(1) evolves_op [OF B(1) assms(2) C(1)] C(2) by (auto simp: reached_def)
  show "balance_of (view E s') = balance_of (view E s)"
    using harmless_step(2) [OF assms(2) C(1)] B(2) C(2) by (simp add: implements_def)
qed

text \<open>The operations one by one.\<close>

lemma reached_snd:
  assumes "reached E A s" "harmless op" "db_step E op s = Some (map_prod f id p)"
  shows "reached E A (snd p)" "balance_of (view E (snd p)) = balance_of (view E s)"
  using reached_step [OF assms(1,2), of "f (fst p)" "snd p"] assms(3) by (simp_all add: map_prod_def split_beta)

lemma reached_setters:
  assumes "reached E A s"
  shows "reached E A (CreateAccount E a s)" "balance_of (view E (CreateAccount E a s)) = balance_of (view E s)"
    "reached E A (SetNonce E a n s)" "balance_of (view E (SetNonce E a n s)) = balance_of (view E s)"
    "length (bytes_of c) < 2 ^ 64 \<Longrightarrow> reached E A (SetCode E a c s)"
    "reached E A (SetState E a k x s)"
    "reached E A (AddLog l s)" "reached E A (AddPreimage h p s)" "0 \<le> g \<Longrightarrow> reached E A (AddRefund g s)"
  by (rule reached_step [OF assms _ db_step.simps(1)] reached_step [OF assms _ db_step.simps(5)]
      reached_step [OF assms _ db_step.simps(6)] reached_step [OF assms _ db_step.simps(7)]
      reached_step [OF assms _ db_step.simps(9)] reached_step [OF assms _ db_step.simps(10)]
      reached_step [OF assms _ db_step.simps(11)], simp)+

lemma reached_getters:
  assumes "reached E A s"
  shows "reached E A (snd (Exist E a s))" "balance_of (view E (snd (Exist E a s))) = balance_of (view E s)"
    "reached E A (snd (Empty E a s))"
    "reached E A (snd (GetBalance E a s))" "balance_of (view E (snd (GetBalance E a s))) = balance_of (view E s)"
    "reached E A (snd (GetNonce E a s))" "balance_of (view E (snd (GetNonce E a s))) = balance_of (view E s)"
    "reached E A (snd (GetCodeHash E a s))" "reached E A (snd (HasSuicided E a s))"
    "reached E A (snd (GetCode E a s))" "reached E A (snd (GetCodeSize E a s))" "reached E A (snd (GetState E a k s))"
  by (rule reached_snd [OF assms _ db_step.simps(15) [of E a]] reached_snd [OF assms _ db_step.simps(16) [of E a]]
      reached_snd [OF assms _ db_step.simps(17) [of E a]] reached_snd [OF assms _ db_step.simps(18) [of E a]]
      reached_snd [OF assms _ db_step.simps(19) [of E a]] reached_snd [OF assms _ db_step.simps(20) [of E a]]
      reached_snd [OF assms _ db_step.simps(21) [of E a]] reached_snd [OF assms _ db_step.simps(22) [of E a]]
      reached_snd [OF assms _ db_step.simps(23) [of E a k]], simp)+

definition is_word :: "int \<Rightarrow> bool" where
  "is_word x \<longleftrightarrow> 0 \<le> x \<and> x < 2 ^ 256"

lemma GetBalance_view:
  assumes "reached E A s"
  shows "fst (GetBalance E a s) = balance_of (view E s) a"
proof -
  obtain B where B: "implements E s B" using assms by (auto simp: reached_def)
  obtain r s' where g: "GetBalance E a s = (r, s')" by fastforce
  then have "db_step E (OpGetBalance a) s = Some (OInt r, s')" by simp
  from simulates_SomeD [OF _ B this] obtain C where "ad_step E (OpGetBalance a) B = Some (OInt r, C)"
    using assms by (auto simp: reached_def)
  then show ?thesis using B g by (auto simp: ad_get_def balance_of_def implements_def)
qed

lemma balance_word: "reached E A s \<Longrightarrow> is_word (balance_of (view E s) a)"
  using reached_funds [of E A s] balance_le_total [of "view E s" a]
  by (auto simp: funds_ok_def is_word_def)

lemma reached_sizes:
  assumes "reached E A s"
  shows "length (bytes_of (fst (GetCode E a s))) < 2 ^ 64" "fst (GetCodeSize E a s) < 2 ^ 64"
proof -
  obtain B where B: "evolves E A B" "implements E s B" using assms by (auto simp: reached_def)
  have c: "codes_ok (ad_view B)" using evolves_keeps [OF B(1)] assms by (simp add: reached_def funds_ok_def)
  have s: "cache_small s" using assms by (simp add: reached_def)
  show "length (bytes_of (fst (GetCode E a s))) < 2 ^ 64"
    using GetCode_cache [OF B(2) c s prod.collapse [symmetric]] by blast
  show "fst (GetCodeSize E a s) < 2 ^ 64"
    using GetCodeSize_cache [OF B(2) c s prod.collapse [symmetric]] by blast
qed

lemma cache_setters:
  "cache_small s \<Longrightarrow> cache_small (AddBalance E a x s)" "cache_small s \<Longrightarrow> cache_small (SubBalance E a x s)"
  "cache_small s \<Longrightarrow> cache_small (snd (Suicide E a s))"
  by (simp_all add: cache_small_def AddBalance_def SubBalance_def cache_on_object Suicide_def Let_def split_beta split: option.split)

lemma reached_Transfer:
  assumes "reached E A s" "0 \<le> x" "x \<le> balance_of (view E s) a"
  shows "reached E A (Transfer E a b x s)"
proof -
  obtain B where B: "evolves E A B" "implements E s B" using assms(1) by (auto simp: reached_def)
  have E: "crypto_ok E" using assms(1) by (simp add: reached_def)
  have v: "ad_view B = view E s" using B(2) by (simp add: implements_def)
  obtain C where C: "ad_step E (OpSubBalance a x) B = Some (ODone, C)" "implements E (SubBalance E a x s) C"
    using simulates_SomeD [OF E B(2), of "OpSubBalance a x"] by auto
  obtain D where D: "ad_step E (OpAddBalance b x) C = Some (ODone, D)" "implements E (Transfer E a b x s) D"
    using simulates_SomeD [OF E C(2), of "OpAddBalance b x"] by (auto simp: Transfer_def)
  have "D = B\<lparr>ad_view := vtransfer E a b x (ad_view B)\<rparr>" using C(1) D(1) by (auto simp: ad_upd_def vtransfer_def)
  then have "evolves E A D" using evolves_transfer [OF B(1) assms(2), of a b] assms(3) v by simp
  then show ?thesis using assms(1) D(2) cache_setters by (auto simp: reached_def Transfer_def)
qed

lemma reached_selfdestruct:
  assumes "reached E A s"
  shows "reached E A (snd (Suicide E a (AddBalance E b (fst (GetBalance E a s)) (snd (GetBalance E a s)))))"
proof -
  let ?x = "balance_of (view E s) a" and ?s1 = "snd (GetBalance E a s)"
  have r1: "reached E A ?s1" and v1: "balance_of (view E ?s1) a = ?x" using reached_getters(4,5) [OF assms] by auto
  obtain B where B: "evolves E A B" "implements E ?s1 B" using r1 by (auto simp: reached_def)
  have E: "crypto_ok E" using assms by (simp add: reached_def)
  have v: "balance_of (ad_view B) a = ?x" using B(2) v1 by (simp add: implements_def)
  obtain C where C: "ad_step E (OpAddBalance b ?x) B = Some (ODone, C)" "implements E (AddBalance E b ?x ?s1) C"
    using simulates_SomeD [OF E B(2), of "OpAddBalance b ?x"] by auto
  obtain r D where D: "ad_step E (OpSuicide a) C = Some (r, D)" "implements E (snd (Suicide E a (AddBalance E b ?x ?s1))) D"
    using simulates_SomeD [OF E C(2), of "OpSuicide a"] by (auto simp: map_prod_def split_beta)
  have "D = B\<lparr>ad_view := vselfdestruct E a b (ad_view B)\<rparr>"
    using C(1) D(1) v by (auto simp: ad_upd_def vselfdestruct_def)
  then have "evolves E A D" using evolves_selfdestruct [OF B(1)] by simp
  then show ?thesis using r1 D(2) cache_setters GetBalance_view [OF assms] by (auto simp: reached_def)
qed

text \<open>A snapshot opens a block: whatever is reached in it is reached outside, and reverting to the
  snapshot does not panic and restores the view.\<close>

lemma reached_snapshot:
  assumes "reached E A s" "Snapshot s = (k, s1)"
  obtains C where "reached E C s1" "reached E A s1" "ad_view C = view E s"
    "\<And>s2. reached E C s2 \<Longrightarrow> reached E A s2"
    "\<And>s2. reached E C s2 \<Longrightarrow> \<exists>s3. RevertToSnapshot E k s2 = Some s3 \<and> reached E A s3 \<and> view E s3 = view E s"
proof -
  obtain B where B: "evolves E A B" "implements E s B" using assms(1) by (auto simp: reached_def)
  have E: "crypto_ok E" using assms(1) by (simp add: reached_def)
  have kB: "snaps_ok B" "funds_ok (ad_view B)" using evolves_keeps [OF B(1)] assms(1) by (auto simp: reached_def later_def)
  obtain C where C: "ad_step E OpSnapshot B = Some (OSnap k, C)" "implements E s1 C"
    using simulates_SomeD [OF E B(2), of OpSnapshot] assms(2) by auto
  have AC: "evolves E A C" by (rule evolves_op [OF B(1) _ C(1)]) simp
  have s1: "reached E A s1" using reached_step(1) [OF assms(1), of OpSnapshot] assms(2) by simp
  have kC: "snaps_ok C" "funds_ok (ad_view C)" "ad_view C = view E s"
    using harmless_step(1,3) [OF _ C(1)] kB C(1) B(2) by (auto simp: later_def implements_def)
  show ?thesis
  proof
    show "reached E C s1" using s1 kC C(2) evolves_refl by (auto simp: reached_def)
    show "reached E A s1" by (rule s1)
    show "ad_view C = view E s" by (rule kC)
    show "reached E A s2" if "reached E C s2" for s2
      using that assms(1) evolves_trans [OF _ AC] by (auto simp: reached_def)
    show "\<exists>s3. RevertToSnapshot E k s2 = Some s3 \<and> reached E A s3 \<and> view E s3 = view E s" if r2: "reached E C s2" for s2
    proof -
      obtain D where D: "evolves E C D" "implements E s2 D" using r2 by (auto simp: reached_def)
      have l: "later C D" using evolves_keeps [OF D(1) kC(1)] by simp
      obtain F where F: "ad_step E (OpRevert k) D = Some (ODone, F)" using revert_possible [OF C(1) kB(1) l] by blast
      have "simulates E (db_step E (OpRevert k) s2) (Some (ODone, F))" using db_step_simulates [OF E D(2), of "OpRevert k"] F by simp
      then obtain s3 where s3: "RevertToSnapshot E k s2 = Some s3" "implements E s3 F"
        by (auto simp: simulates_def option_rel_Some2)
      have "view E s3 = view E s" using revert_restores [OF C(1) kB(1) l F] s3(2) B(2) by (simp add: implements_def)
      moreover have "cache_small s3" using r2 cache_revert [OF s3(1)] by (simp add: reached_def cache_small_def)
      ultimately show ?thesis using s3 evolves_revert [OF B(1) C(1) D(1) F] assms(1) by (auto simp: reached_def)
    qed
  qed
qed

end
