(* ===== verification/Evm_Safe.thy ===== *)
theory Evm_Safe
  imports Evm_Reached
begin

text \<open>
  Every instruction, gas function, call and creation keeps the database reached and the frame well
  formed: 256-bit words on the stack, lengths below $2^{64}$. From the instruction functions over the
  jump table to the interpreter loop, by induction on the fuel.
\<close>

unbundle bit_operations_syntax

section \<open>Words\<close>

lemma is_word_U256 [simp]: "is_word (U256 x)"
  using U256_range [of x] unfolding is_word_def by blast

lemma is_word_consts [simp]: "is_word 0" "is_word 1"
  by (simp_all add: is_word_def)

lemma is_word_bits:
  assumes "is_word x" "is_word y"
  shows "is_word (x AND y)" "is_word (x OR y)" "is_word (x XOR y)"
  using assms AND_upper2 [of x y] OR_upper [of x 256 y] XOR_upper [of x 256 y] AND_upper1'' [of x "2 ^ 256" y]
  by (auto simp: is_word_def)

lemma is_word_bytes: "length bs \<le> 32 \<Longrightarrow> is_word (SetBytes bs)"
proof -
  assume "length bs \<le> 32"
  then have "(256 :: int) ^ length bs \<le> 256 ^ 32" by (rule power_increasing) simp
  then show ?thesis using SetBytes_bound [of bs] by (simp add: is_word_def)
qed

lemma is_word_addresses [simp]: "is_word (Address_Big a)" "is_word (Hash_Big h)"
  by (simp_all add: Address_Big_def Hash_Big_def is_word_bytes address_bytes_def hash_bytes_def)

lemma is_word_uint64: "is_word (uint (n :: u64))"
  using uint_bounded [of n] by (auto simp: is_word_def)

lemma is_word_byte [simp]: "is_word (uint (n :: byte))"
  using is_word_bytes [of "[n]"] by simp

lemma is_word_nat: "n < 2 ^ 64 \<Longrightarrow> is_word (int n)"
  by (simp add: is_word_def)

lemma is_word_Exp: "is_word e \<Longrightarrow> is_word (fst (Exp b e))"
  by (simp add: is_word_def Exp_mod)

section \<open>Frames\<close>

definition ref_ok :: "ContractRef \<Rightarrow> bool" where
  "ref_ok cl \<longleftrightarrow> (case cl of AccountRef _ \<Rightarrow> True | ParentContract _ _ v \<Rightarrow> pred_option is_word v)"

definition contract_ok :: "Contract \<Rightarrow> bool" where
  "contract_ok c \<longleftrightarrow> length (Code c) < 2 ^ 64 \<and> length (Input c) < 2 ^ 64 \<and> pred_option is_word (ct_value c)"

definition frame_ok :: "frame \<Rightarrow> bool" where
  "frame_ok f \<longleftrightarrow> list_all is_word (stk f) \<and> length (store (mem f)) < 2 ^ 64 \<and> contract_ok (contract f)"

definition env_ok :: "evm_env \<Rightarrow> bool" where
  "env_ok env \<longleftrightarrow> is_word (GasPrice (ctxt env))"

lemma contract_ref_ok: "contract_ok c \<Longrightarrow> ref_ok (contract_ref c)"
  by (simp add: contract_ok_def ref_ok_def contract_ref_def)

lemma contract_ok_gas [simp]: "contract_ok (c\<lparr>Gas := g\<rparr>) = contract_ok c"
  by (simp add: contract_ok_def)

lemma mem_Set_length: "mem_Set a b v m = Ret m' \<Longrightarrow> length (store m') = length (store m)"
proof -
  assume m: "mem_Set a b v m = Ret m'"
  have "unat (a + b) = unat a + unat b" if "unat a \<le> unat (a + b)"
    using that unat_plus_simple [of a b] by (simp add: word_le_nat_alt)
  then show ?thesis using m by (auto simp: mem_Set_def copy_into_def split: if_splits)
qed

lemma mem_Get_length: "mem_Get a b m = Ret r \<Longrightarrow> length (bytes_of r) \<le> length (store m)"
  by (auto simp: mem_Get_def split: if_splits)

lemma mem_Get_size: "mem_Get a b m = Ret r \<Longrightarrow> 0 \<le> b \<Longrightarrow> length (bytes_of r) \<le> nat b"
  by (auto simp: mem_Get_def split: if_splits)

text \<open>The calls an instruction makes.\<close>

definition sc_safe :: "crypto \<Rightarrow> subcalls \<Rightarrow> bool" where
  "sc_safe E sc \<longleftrightarrow>
     (\<forall>A w cl a i g v w' r g' e. reached E A (sdb w) \<longrightarrow> ref_ok cl \<longrightarrow> length i < 2 ^ 64 \<longrightarrow> is_word v \<longrightarrow>
        sc_Call sc w cl a i g v = Ret (w', r, g', e) \<longrightarrow> reached E A (sdb w')) \<and>
     (\<forall>A w cl a i g v w' r g' e. reached E A (sdb w) \<longrightarrow> ref_ok cl \<longrightarrow> length i < 2 ^ 64 \<longrightarrow> is_word v \<longrightarrow>
        sc_CallCode sc w cl a i g v = Ret (w', r, g', e) \<longrightarrow> reached E A (sdb w')) \<and>
     (\<forall>A w cl a i g w' r g' e. reached E A (sdb w) \<longrightarrow> ref_ok cl \<longrightarrow> length i < 2 ^ 64 \<longrightarrow>
        sc_DelegateCall sc w cl a i g = Ret (w', r, g', e) \<longrightarrow> reached E A (sdb w')) \<and>
     (\<forall>A w cl i g v w' r a g' e. reached E A (sdb w) \<longrightarrow> ref_ok cl \<longrightarrow> length i < 2 ^ 64 \<longrightarrow> is_word v \<longrightarrow>
        sc_Create sc w cl i g v = Ret (w', r, a, g', e) \<longrightarrow> reached E A (sdb w'))"

lemma sc_safeD:
  assumes "sc_safe E sc" "reached E A (sdb w)" "ref_ok cl" "length i < 2 ^ 64"
  shows "is_word v \<Longrightarrow> sc_Call sc w cl a i g v = Ret (w', r, g', e) \<Longrightarrow> reached E A (sdb w')"
    "is_word v \<Longrightarrow> sc_CallCode sc w cl a i g v = Ret (w', r, g', e) \<Longrightarrow> reached E A (sdb w')"
    "sc_DelegateCall sc w cl a i g = Ret (w', r, g', e) \<Longrightarrow> reached E A (sdb w')"
    "is_word v \<Longrightarrow> sc_Create sc w cl i g v = Ret (w', r, ad, g', e) \<Longrightarrow> reached E A (sdb w')"
  using assms unfolding sc_safe_def by metis+

text \<open>A safe instruction keeps the database reached and the frame well formed.\<close>

definition safe :: "executionFunc \<Rightarrow> bool" where
  "safe ex \<longleftrightarrow> (\<forall>sc env A w f w' f' r e. env_ok env \<longrightarrow> sc_safe (hashing env) sc \<longrightarrow> reached (hashing env) A (sdb w) \<longrightarrow>
     frame_ok f \<longrightarrow> ex sc env w f = Ret (w', f', r, e) \<longrightarrow> reached (hashing env) A (sdb w') \<and> frame_ok f')"

lemma safeI:
  "(\<And>sc env A w f w' f' r e. env_ok env \<Longrightarrow> sc_safe (hashing env) sc \<Longrightarrow> reached (hashing env) A (sdb w) \<Longrightarrow>
     frame_ok f \<Longrightarrow> ex sc env w f = Ret (w', f', r, e) \<Longrightarrow> reached (hashing env) A (sdb w') \<and> frame_ok f') \<Longrightarrow> safe ex"
  unfolding safe_def by blast

lemma safe_pure:
  "(\<And>env x. is_word x \<Longrightarrow> is_word (h1 env x)) \<Longrightarrow> safe (\<lambda>sc env. pure1 (h1 env))"
  "(\<And>env x y. is_word x \<Longrightarrow> is_word y \<Longrightarrow> is_word (h2 env x y)) \<Longrightarrow> safe (\<lambda>sc env. pure2 (h2 env))"
  "(\<And>env x y z. is_word x \<Longrightarrow> is_word y \<Longrightarrow> is_word z \<Longrightarrow> is_word (h3 env x y z)) \<Longrightarrow> safe (\<lambda>sc env. pure3 (h3 env))"
  "(\<And>env f. env_ok env \<Longrightarrow> frame_ok f \<Longrightarrow> is_word (h4 env f)) \<Longrightarrow> safe (\<lambda>sc env w f. push (h4 env f) w f)"
  "(\<And>env f x. frame_ok f \<Longrightarrow> is_word x \<Longrightarrow> is_word (h5 env f x)) \<Longrightarrow> safe (\<lambda>sc env w f. pure1 (h5 env f) w f)"
  by (rule safeI; auto simp: pure1_def pure2_def pure3_def push_def finish_def frame_ok_def split: list.splits)+

lemma safe_arith:
  "safe opAdd" "safe opSub" "safe opMul" "safe opDiv" "safe opSdiv" "safe opMod" "safe opSmod" "safe opExp"
  "safe opNot" "safe opLt" "safe opGt" "safe opSlt" "safe opSgt" "safe opEq" "safe opIszero" "safe opAnd"
  "safe opOr" "safe opXor" "safe opByte" "safe opAddmod" "safe opMulmod"
  unfolding opAdd_def opSub_def opMul_def opDiv_def opSdiv_def opMod_def opSmod_def opExp_def opNot_def opLt_def
    opGt_def opSlt_def opSgt_def opEq_def opIszero_def opAnd_def opOr_def opXor_def opByte_def opAddmod_def opMulmod_def
  by (rule safe_pure; simp add: Let_def is_word_Exp is_word_bits)+

lemma getData_length:
  assumes "is_word start" "length d < 2 ^ 64"
  shows "length (getData d start 32) = 32"
proof -
  have u: "unat (big_Uint64 x) = nat x" if "0 \<le> x" "x < 2 ^ 64" for x
    using that by (simp add: big_Uint64_def unat_eq_nat_uint uint_word_of_int_eq take_bit_int_eq_self)
  define s where "s = BigMin start (int (length d))"
  have s: "0 \<le> s" "s \<le> int (length d)" using assms by (auto simp: s_def BigMin_def is_word_def big_Cmp_def)
  define e where "e = BigMin (s + 32) (int (length d))"
  have e: "s \<le> e" "e \<le> int (length d)" "e \<le> s + 32" using s by (auto simp: e_def BigMin_def big_Cmp_def)
  have d: "int (length d) < 2 ^ 64" using assms(2) by simp
  have us: "unat (big_Uint64 s) = nat s" "unat (big_Uint64 e) = nat e" using s e d by (auto intro!: u)
  have "nat e - nat s \<le> 32" using s e by linarith
  then show ?thesis
    unfolding getData_def Let_def s_def [symmetric] e_def [symmetric] us
    by (simp add: RightPadBytes_def big_Uint64_def)
qed

lemma safe_env:
  "safe opAddress" "safe opOrigin" "safe opCaller" "safe opCalldataLoad" "safe opCalldataSize" "safe opCodeSize"
  "safe opGasprice" "safe opBlockhash" "safe opCoinbase" "safe opTimestamp" "safe opNumber" "safe opDifficulty"
  "safe opGasLimit" "safe opPc" "safe opMsize" "safe opGas"
  unfolding opAddress_def opOrigin_def opCaller_def opCalldataLoad_def opCalldataSize_def opCodeSize_def
    opGasprice_def opBlockhash_def opCoinbase_def opTimestamp_def opNumber_def opDifficulty_def
    opGasLimit_def opPc_def opMsize_def opGas_def
  by (rule safe_pure; simp add: Let_def is_word_nat frame_ok_def contract_ok_def env_ok_def is_word_uint64
      is_word_bytes getData_length mem_Len_def)+

lemma frame_okD:
  assumes "frame_ok f"
  shows "stk f = x # st \<Longrightarrow> is_word x \<and> list_all is_word st" "length (store (mem f)) < 2 ^ 64" "contract_ok (contract f)"
  using assms by (auto simp: frame_ok_def)

lemma frame_ok_update:
  "frame_ok f \<Longrightarrow> frame_ok (f\<lparr>stk := st\<rparr>) = list_all is_word st"
  "frame_ok f \<Longrightarrow> list_all is_word st \<Longrightarrow> length (store m) < 2 ^ 64 \<Longrightarrow> frame_ok (f\<lparr>stk := st, mem := m\<rparr>)"
  "frame_ok (f\<lparr>pc := p\<rparr>) = frame_ok f"
  "frame_ok f \<Longrightarrow> length (store m) < 2 ^ 64 \<Longrightarrow> frame_ok (f\<lparr>mem := m\<rparr>)"
  by (auto simp: frame_ok_def)

lemma is_word_push:
  "is_word (SetBytes (RightPadBytes (take (nat (if startMin + int k < n then startMin + int k else n) - nat startMin) bs) k))"
  if "k \<le> 32" "0 \<le> startMin"
proof (rule is_word_bytes)
  have "nat (if startMin + int k < n then startMin + int k else n) - nat startMin \<le> k" using that(2) by auto
  then show "length (RightPadBytes (take (nat (if startMin + int k < n then startMin + int k else n) - nat startMin) bs) k) \<le> 32"
    using that(1) by (auto simp: RightPadBytes_def)
qed

lemma safe_SignExtend: "safe opSignExtend"
  by (rule safeI) (auto simp: opSignExtend_def finish_def Let_def frame_ok_def split: list.splits if_splits)

lemma keccak_word: "reached E A s \<Longrightarrow> is_word (SetBytes (keccak256 E b))"
  by (rule is_word_bytes) (simp add: reached_def crypto_ok_def)

lemmas safe_unfold = finish_def push_def Let_def split_beta obind_eq frame_ok_def reached_setters reached_getters

lemma safe_Sha3: "safe opSha3"
  by (rule safeI) (auto simp: opSha3_def safe_unfold intro: keccak_word split: list.splits if_splits)

lemma safe_copy: "safe opCalldataCopy" "safe opCodeCopy" "safe opExtCodeCopy"
  by (rule safeI; auto simp: opCalldataCopy_def opCodeCopy_def opExtCodeCopy_def copy_to_memory_def safe_unfold
      mem_Set_length split: list.splits if_splits)+

lemma safe_memory: "safe opMload" "safe opMstore" "safe opMstore8"
  by (rule safeI; auto simp: opMload_def opMstore_def opMstore8_def safe_unfold mem_Set_length
      intro!: is_word_bytes dest: mem_Get_size split: list.splits if_splits)+

lemma safe_state: "safe opBalance" "safe opCallValue" "safe opExtCodeSize" "safe opSload" "safe opSstore" "safe opSuicide"
proof -
  show "safe opBalance"
    by (rule safeI) (auto simp: opBalance_def safe_unfold GetBalance_view balance_word split: list.splits)
  show "safe opCallValue"
    by (rule safeI) (auto simp: opCallValue_def safe_unfold contract_ok_def split: option.splits)
  show "safe opExtCodeSize"
    by (rule safeI) (auto simp: opExtCodeSize_def safe_unfold intro: is_word_nat [OF reached_sizes(2)] split: list.splits)
  show "safe opSload" "safe opSstore"
    by (rule safeI; auto simp: opSload_def opSstore_def safe_unfold split: list.splits)+
  show "safe opSuicide"
    by (rule safeI) (auto simp: opSuicide_def safe_unfold reached_selfdestruct split: list.splits)
qed

lemma safe_control: "safe opPop" "safe opJump" "safe opJumpi" "safe opJumpdest" "safe opReturn" "safe opStop"
  by (rule safeI; auto simp: opPop_def opJump_def opJumpi_def opJumpdest_def opReturn_def opStop_def jump_to_def safe_unfold
      split: list.splits if_splits)+

lemma list_all_take_drop: "list_all P xs \<Longrightarrow> list_all P (take n xs)" "list_all P xs \<Longrightarrow> list_all P (drop n xs)"
  by (auto simp: list_all_iff dest: in_set_takeD in_set_dropD)

lemma list_all_update: "list_all P xs \<Longrightarrow> P x \<Longrightarrow> list_all P (xs[i := x])"
  using set_update_subset_insert [of xs i x] by (auto simp: list_all_iff)

lemma list_all_swap: "list_all P xs \<Longrightarrow> Suc n \<le> length xs \<Longrightarrow> list_all P (xs[n := xs ! 0, 0 := xs ! n])"
  using nth_mem [of 0 xs] nth_mem [of n xs] by (cases "xs = []") (auto intro!: list_all_update simp: list_all_iff)

lemma safe_families: "safe (makeLog n)" "k \<le> 32 \<Longrightarrow> safe (makePush p k)" "safe (makeDup n)" "safe (makeSwap n)"
proof -
  show "safe (makeLog n)"
    by (rule safeI) (auto simp: makeLog_def safe_unfold list_all_take_drop split: list.splits if_splits)
  show "safe (makePush p k)" if "k \<le> 32"
    using is_word_push [OF that] by (intro safeI) (auto simp: makePush_def safe_unfold split: if_splits)
  show "safe (makeDup n)"
    by (rule safeI) (auto simp: makeDup_def stack_dup_def safe_unfold list_all_iff split: if_splits)
  show "safe (makeSwap n)"
    by (rule safeI) (auto simp: makeSwap_def stack_swap_def safe_unfold list_all_swap split: if_splits)
qed



lemma after_call_safe:
  assumes "reached E A (sdb w)" "frame_ok f" "list_all is_word st" "after_call ro rs st f (w, r, g, e) = Ret (w', f', r', e')"
  shows "reached E A (sdb w') \<and> frame_ok f'"
  using assms by (auto simp: after_call_def Let_def obind_eq frame_ok_def mem_Set_length split: if_splits)

lemma safe_calls: "safe opCall" "safe opCallCode" "safe opDelegateCall" "safe opCreate"
proof -
  have m: "length (bytes_of r) < 2 ^ 64" if "mem_Get a b (mem f) = Ret r" "frame_ok f" for a b r f
    using mem_Get_length [OF that(1)] that(2) by (simp add: frame_ok_def)
  have c: "ref_ok (contract_ref (contract f))" if "frame_ok f" for f using that by (simp add: frame_ok_def contract_ref_ok)
  show "safe opCall"
  proof (rule safeI)
    fix sc env A w f w' f' r e
    assume a: "sc_safe (hashing env) sc" "reached (hashing env) A (sdb w)" "frame_ok f" "opCall sc env w f = Ret (w', f', r, e)"
    from a(4) obtain g ad v io sz ro rs st args gas w1 r1 g1 e1 where st: "stk f = g # ad # v # io # sz # ro # rs # st"
      and m1: "mem_Get (big_Int64 io) (big_Int64 sz) (mem f) = Ret args"
      and s: "sc_Call sc w (contract_ref (contract f)) (BigToAddress ad) (bytes_of args) gas (U256 v) = Ret (w1, r1, g1, e1)"
      and ac: "after_call ro rs st f (w1, r1, g1, e1) = Ret (w', f', r, e)"
      by (auto simp: opCall_def Let_def obind_eq split: list.splits)
    have "list_all is_word st" using a(3) st by (simp add: frame_ok_def)
    then show "reached (hashing env) A (sdb w') \<and> frame_ok f'"
      using sc_safeD(1) [OF a(1,2) c [OF a(3)] m [OF m1 a(3)] is_word_U256 s] after_call_safe [OF _ a(3) _ ac] by auto
  qed
  show "safe opCallCode"
  proof (rule safeI)
    fix sc env A w f w' f' r e
    assume a: "sc_safe (hashing env) sc" "reached (hashing env) A (sdb w)" "frame_ok f" "opCallCode sc env w f = Ret (w', f', r, e)"
    from a(4) obtain g ad v io sz ro rs st args gas w1 r1 g1 e1 where st: "stk f = g # ad # v # io # sz # ro # rs # st"
      and m1: "mem_Get (big_Int64 io) (big_Int64 sz) (mem f) = Ret args"
      and s: "sc_CallCode sc w (contract_ref (contract f)) (BigToAddress ad) (bytes_of args) gas (U256 v) = Ret (w1, r1, g1, e1)"
      and ac: "after_call ro rs st f (w1, r1, g1, e1) = Ret (w', f', r, e)"
      by (auto simp: opCallCode_def Let_def obind_eq split: list.splits)
    have "list_all is_word st" using a(3) st by (simp add: frame_ok_def)
    then show "reached (hashing env) A (sdb w') \<and> frame_ok f'"
      using sc_safeD(2) [OF a(1,2) c [OF a(3)] m [OF m1 a(3)] is_word_U256 s] after_call_safe [OF _ a(3) _ ac] by auto
  qed
  show "safe opDelegateCall"
  proof (rule safeI)
    fix sc env A w f w' f' r e
    assume a: "sc_safe (hashing env) sc" "reached (hashing env) A (sdb w)" "frame_ok f" "opDelegateCall sc env w f = Ret (w', f', r, e)"
    from a(4) obtain g ad io sz ro rs st args w1 r1 g1 e1 where st: "stk f = g # ad # io # sz # ro # rs # st"
      and m1: "mem_Get (big_Int64 io) (big_Int64 sz) (mem f) = Ret args"
      and s: "sc_DelegateCall sc w (contract_ref (contract f)) (BigToAddress ad) (bytes_of args) (big_Uint64 g) = Ret (w1, r1, g1, e1)"
      and ac: "after_call ro rs st f (w1, r1, g1, e1) = Ret (w', f', r, e)"
      by (auto simp: opDelegateCall_def Let_def obind_eq split: list.splits)
    have "list_all is_word st" using a(3) st by (simp add: frame_ok_def)
    then show "reached (hashing env) A (sdb w') \<and> frame_ok f'"
      using sc_safeD(3) [OF a(1,2) c [OF a(3)] m [OF m1 a(3)] s] after_call_safe [OF _ a(3) _ ac] by auto
  qed
  show "safe opCreate"
  proof (rule safeI)
    fix sc env A w f w' f' r e
    assume a: "sc_safe (hashing env) sc" "reached (hashing env) A (sdb w)" "frame_ok f" "opCreate sc env w f = Ret (w', f', r, e)"
    define gas where "gas = (if IsEIP150 (chainConfig env) (block env) then Gas (contract f) - Gas (contract f) div 64 else Gas (contract f))"
    from a(4) obtain v off sz st args w1 r1 ad g1 e1 where st: "stk f = v # off # sz # st"
      and m1: "mem_Get (big_Int64 off) (big_Int64 sz) (mem f) = Ret args"
      and s: "sc_Create sc w (contract_ref (snd (UseGas gas (contract f)))) (bytes_of args) gas v = Ret (w1, r1, ad, g1, e1)"
      and w': "w' = w1"
      by (auto simp: opCreate_def Let_def obind_eq finish_def gas_def [symmetric] split: list.splits)
    have k: "contract_ok (snd (UseGas gas (contract f)))" using a(3) by (auto simp: UseGas_def frame_ok_def)
    have w: "list_all is_word st" "is_word v" using a(3) st by (simp_all add: frame_ok_def)
    have "frame_ok f'"
      using a(3,4) k by (auto simp: opCreate_def Let_def obind_eq finish_def gas_def [symmetric] frame_ok_def split: list.splits)
    then show "reached (hashing env) A (sdb w') \<and> frame_ok f'"
      using sc_safeD(4) [OF a(1,2) contract_ref_ok [OF k] m [OF m1 a(3)] w(2) s] w' by simp
  qed
qed



section \<open>Gas functions\<close>

definition safe_gas :: "gasFunc \<Rightarrow> bool" where
  "safe_gas g \<longleftrightarrow> (\<forall>env gt A w f ms w' f' r. reached (hashing env) A (sdb w) \<longrightarrow> frame_ok f \<longrightarrow>
     g env gt w f ms = Ret (w', f', r) \<longrightarrow> reached (hashing env) A (sdb w') \<and> frame_ok f')"

lemma safe_gasI:
  "(\<And>env gt A w f ms w' f' r. reached (hashing env) A (sdb w) \<Longrightarrow> frame_ok f \<Longrightarrow>
     g env gt w f ms = Ret (w', f', r) \<Longrightarrow> reached (hashing env) A (sdb w') \<and> frame_ok f') \<Longrightarrow> safe_gas g"
  unfolding safe_gas_def by blast

lemma memoryGasCost_store [simp]: "store (snd (memoryGasCost m ms)) = store m"
  by (simp add: memoryGasCost_def Let_def split_beta)

lemma frame_ok_gas [simp]: "frame_ok (f\<lparr>mem := snd (memoryGasCost m ms)\<rparr>) = frame_ok (f\<lparr>mem := m\<rparr>)"
  by (simp add: frame_ok_def)

lemma frame_mem_same [simp]: "f\<lparr>mem := mem f\<rparr> = f" for f :: frame
  by simp

lemma list_all_tl: "list_all P xs \<Longrightarrow> list_all P (tl xs)"
  by (cases xs) auto

lemma call_gas_ok:
  assumes "call_gas gt b f = (f', r)" "frame_ok f"
  shows "frame_ok f'"
  using assms by (auto simp: call_gas_def frame_ok_def is_word_uint64 list_all_tl split: sum.splits)

lemma safe_gas_functions:
  "safe_gas (constGasFunc g)" "safe_gas gasCalldataCopy" "safe_gas gasSStore" "safe_gas (makeGasLog n)" "safe_gas gasSha3"
  "safe_gas gasCodeCopy" "safe_gas gasExtCodeCopy" "safe_gas gasMLoad" "safe_gas gasMStore8" "safe_gas gasMStore"
  "safe_gas gasCreate" "safe_gas gasBalance" "safe_gas gasExtCodeSize" "safe_gas gasSLoad" "safe_gas gasExp"
  "safe_gas gasReturn" "safe_gas gasSuicide" "safe_gas gasPush" "safe_gas gasSwap" "safe_gas gasDup"
  by (rule safe_gasI; auto simp: constGasFunc_def gasCalldataCopy_def gasSStore_def makeGasLog_def gasSha3_def gasCodeCopy_def
      gasExtCodeCopy_def gasMLoad_def gasMStore8_def gasMStore_def gasCreate_def gasBalance_def gasExtCodeSize_def
      gasSLoad_def gasExp_def gasReturn_def gasSuicide_def gasPush_def gasSwap_def gasDup_def mem_gas_eq Let_def split_beta
      reached_getters reached_setters split: option.splits list.splits if_splits)+

lemma safe_gas_calls: "safe_gas gasCall" "safe_gas gasCallCode" "safe_gas gasDelegateCall"
  by (rule safe_gasI; auto simp: gasCall_def gasCallCode_def gasDelegateCall_def Let_def split_beta
      reached_getters dest!: call_gas_ok split: list.splits if_splits)+



section \<open>The instruction set and one round\<close>

definition op_safe :: "operation \<Rightarrow> bool" where
  "op_safe x \<longleftrightarrow> safe (execute x) \<and> safe_gas (gasCost x)"

lemmas safe_ops = safe_arith safe_env safe_SignExtend safe_Sha3 safe_copy safe_memory safe_state safe_control
  safe_families safe_calls safe_gas_functions safe_gas_calls

lemma ops_safe: "list_all (\<lambda>(op, x). op_safe x) frontier_ops"
  unfolding frontier_ops_def list_all_append
proof (intro conjI)
  note r = op_safe_def safe_ops
  show "list_all (\<lambda>(op, x). op_safe x) arithmetic_ops" by (simp add: arithmetic_ops_def r)
  show "list_all (\<lambda>(op, x). op_safe x) compare_ops" by (simp add: compare_ops_def r)
  show "list_all (\<lambda>(op, x). op_safe x) environment_ops" by (simp add: environment_ops_def r)
  show "list_all (\<lambda>(op, x). op_safe x) block_ops" by (simp add: block_ops_def r)
  show "list_all (\<lambda>(op, x). op_safe x) storage_ops" by (simp add: storage_ops_def r)
  show "list_all (\<lambda>(op, x). op_safe x) push_ops" by (simp add: push_ops_def r list_all_iff)
  show "list_all (\<lambda>(op, x). op_safe x) dup_ops" by (simp add: dup_ops_def r list_all_iff)
  show "list_all (\<lambda>(op, x). op_safe x) swap_ops" by (simp add: swap_ops_def r list_all_iff)
  show "list_all (\<lambda>(op, x). op_safe x) log_ops" by (simp add: log_ops_def r)
  show "list_all (\<lambda>(op, x). op_safe x) closure_ops" by (simp add: closure_ops_def r)
qed

text \<open>What holds of every entry of the frontier table and of \<open>DELEGATECALL\<close> holds of every valid entry.\<close>

lemma instruction_set_all:
  assumes "list_all (\<lambda>(op, x). P x) frontier_ops" "P delegate_op" "valid (instruction_set env op)"
  shows "P (instruction_set env op)"
proof -
  have "P (NewFrontierInstructionSet op)" if v: "valid (NewFrontierInstructionSet op)"
  proof (cases "map_of frontier_ops op")
    case None
    then show ?thesis using v by (simp add: NewFrontierInstructionSet_def no_operation_def)
  next
    case (Some x)
    then show ?thesis using assms(1) map_of_SomeD [OF Some] by (auto simp: NewFrontierInstructionSet_def list_all_iff)
  qed
  then show ?thesis using assms(2,3) by (auto simp: instruction_set_def NewHomesteadInstructionSet_def split: if_splits)
qed

lemma instructions_safe: "valid (instruction_set env op) \<Longrightarrow> op_safe (instruction_set env op)"
  by (rule instruction_set_all [OF ops_safe]) (simp_all add: delegate_op_def op_safe_def safe_ops)

lemma charge_safe:
  assumes "safe_gas (gasCost x)" "reached (hashing env) A (sdb w)" "frame_ok f" "charge env x ms w f = Ret (w1, f1, ok)"
  shows "reached (hashing env) A (sdb w1) \<and> frame_ok f1"
proof (cases "DisableGasMetering (vmConfig env)")
  case False
  then obtain w2 f0 r where g2: "gasCost x env (cfg_GasTable (chainConfig env) (block env)) w f ms = Ret (w2, f0, r)"
    using assms(4) by (auto simp: charge_def obind_eq)
  from charge_eq [OF False this] assms(4) have g: "gasCost x env (cfg_GasTable (chainConfig env) (block env)) w f ms = Ret (w1, f0, r)"
    and f1: "f1 = f0 \<or> (\<exists>c. f1 = f0\<lparr>contract := snd (UseGas c (contract f0))\<rparr>)"
    using g2 by (cases r; auto)+
  have "reached (hashing env) A (sdb w1)" "frame_ok f0" using assms(1-3) g unfolding safe_gas_def by blast+
  then show ?thesis using f1 by (auto simp: frame_ok_def UseGas_def)
qed (use assms in \<open>simp add: charge_def\<close>)

lemma frame_ok_ends [simp]:
  "frame_ok (f\<lparr>pc := p\<rparr>) = frame_ok f" "frame_ok (f\<lparr>mem := (mem f)\<lparr>lastReturn := r\<rparr>\<rparr>) = frame_ok f"
  "frame_ok (f\<lparr>pc := p, mem := (mem f)\<lparr>lastReturn := r\<rparr>\<rparr>) = frame_ok f"
  by (simp_all add: frame_ok_def)

lemma frame_ok_Resize: "frame_ok f \<Longrightarrow> frame_ok (f\<lparr>mem := mem_Resize ms (mem f)\<rparr>)"
  using unsigned_less [of ms] by (auto simp: frame_ok_def mem_Resize_def)

lemma charged_safe:
  assumes "op_safe x" "env_ok env" "sc_safe (hashing env) sc" "reached (hashing env) A (sdb w)" "frame_ok f"
  shows "charged sc env x ms w f = Ret (Next w' f') \<Longrightarrow> reached (hashing env) A (sdb w') \<and> frame_ok f'"
    "charged sc env x ms w f = Ret (Stop w' f' r e) \<Longrightarrow> reached (hashing env) A (sdb w')"
proof -
  have s: "reached (hashing env) A (sdb w2) \<and> frame_ok f2"
    if "charge env x ms w f = Ret (w1, f1, ok)"
      "execute x sc env w1 (if 0 < ms then f1\<lparr>mem := mem_Resize ms (mem f1)\<rparr> else f1) = Ret (w2, f2, r2, e2)" for w1 f1 ok w2 f2 r2 e2
  proof -
    note c = charge_safe [OF _ assms(4,5) that(1)]
    have "reached (hashing env) A (sdb w1)" "frame_ok (if 0 < ms then f1\<lparr>mem := mem_Resize ms (mem f1)\<rparr> else f1)"
      using c assms(1) frame_ok_Resize by (auto simp: op_safe_def)
    then show ?thesis using assms(1-3) that(2) unfolding op_safe_def safe_def by blast
  qed
  show "reached (hashing env) A (sdb w') \<and> frame_ok f'" if "charged sc env x ms w f = Ret (Next w' f')"
    using that s by (fastforce simp: charged_def execute_op_def obind_eq Let_def split: if_splits)
  show "reached (hashing env) A (sdb w')" if "charged sc env x ms w f = Ret (Stop w' f' r e)"
    using that s charge_safe [OF _ assms(4,5)] assms(1)
    by (fastforce simp: charged_def execute_op_def obind_eq Let_def op_safe_def split: if_splits)
qed

lemma step_safe:
  assumes "env_ok env" "sc_safe (hashing env) sc" "reached (hashing env) A (sdb w)" "frame_ok f"
  shows "step sc env w f = Ret (Next w' f') \<Longrightarrow> reached (hashing env) A (sdb w') \<and> frame_ok f'"
    "step sc env w f = Ret (Stop w' f' r e) \<Longrightarrow> reached (hashing env) A (sdb w')"
proof -
  show "reached (hashing env) A (sdb w') \<and> frame_ok f'" if "step sc env w f = Ret (Next w' f')"
    using that charged_safe(1) [OF instructions_safe assms] by (cases rule: step_cases [of sc env w f]) auto
  show "reached (hashing env) A (sdb w')" if "step sc env w f = Ret (Stop w' f' r e)"
    using that assms(3) charged_safe(2) [OF instructions_safe assms] by (cases rule: step_cases [of sc env w f]) auto
qed

section \<open>Calls and creations\<close>

definition loop_safe :: "evm_env \<Rightarrow> interp \<Rightarrow> bool" where
  "loop_safe env loop \<longleftrightarrow> (\<forall>A w f w' f' r e. reached (hashing env) A (sdb w) \<longrightarrow> frame_ok f \<longrightarrow>
     loop w f = Ret (w', f', r, e) \<longrightarrow> reached (hashing env) A (sdb w'))"

lemma loop_safeD:
  "loop_safe env loop \<Longrightarrow> reached (hashing env) A (sdb w) \<Longrightarrow> frame_ok f \<Longrightarrow> loop w f = Ret (w', f', r, e) \<Longrightarrow>
    reached (hashing env) A (sdb w')"
  unfolding loop_safe_def by blast

lemma run_safe:
  assumes "loop_safe env loop" "reached (hashing env) A (sdb w)" "contract_ok c" "length i < 2 ^ 64"
    "run loop env c i w = Ret (w', c', r, e)"
  shows "reached (hashing env) A (sdb w')"
proof -
  have "reached (hashing env) A (sdb w')" if R: "Run loop c i w = Ret (w', c', r, e)"
  proof (cases "Code c = []")
    case False
    define f0 where "f0 = \<lparr>pc = 0, contract = c\<lparr>Input := i\<rparr>, mem = NewMemory, stk = []\<rparr>"
    have f0: "frame_ok f0" using assms(3,4) by (simp add: f0_def frame_ok_def contract_ok_def NewMemory_def)
    obtain w2 f2 where "loop (w\<lparr>depth := depth w + 1\<rparr>) f0 = Ret (w2, f2, r, e)" "w' = w2\<lparr>depth := depth w2 - 1\<rparr>"
      using R False by (auto simp: Run_def Let_def obind_eq f0_def)
    then show ?thesis using loop_safeD [OF assms(1), of A "w\<lparr>depth := depth w + 1\<rparr>"] assms(2) f0 by simp
  qed (use R assms(2) in \<open>simp add: Run_def Let_def\<close>)
  then show ?thesis using assms(2,5)
    by (auto simp: run_def RunPrecompiledContract_def obind_eq Let_def split_beta split: option.splits if_splits)
qed

text \<open>What an open snapshot promises.\<close>

definition opened :: "crypto \<Rightarrow> adb \<Rightarrow> view \<Rightarrow> nat \<Rightarrow> adb \<Rightarrow> bool" where
  "opened E A v k C \<longleftrightarrow> (\<forall>s. reached E C s \<longrightarrow> reached E A s \<and>
     (\<exists>s'. RevertToSnapshot E k s = Some s' \<and> reached E A s' \<and> view E s' = v))"

lemma snapshot_opened:
  assumes "reached E A s" "Snapshot s = (k, s1)"
  obtains C where "reached E C s1" "opened E A (view E s) k C"
  using reached_snapshot [OF assms] unfolding opened_def by metis

lemma finish_call_safe:
  assumes "opened (hashing env) A v k C" "reached (hashing env) C (sdb w)"
  obtains w' g' where "finish_call env k (w, c, r, e) = Ret (w', r, g', e)" "reached (hashing env) A (sdb w')"
    "e \<noteq> None \<longrightarrow> view (hashing env) (sdb w') = v \<and> g' = 0"
proof (cases e)
  case None
  then show ?thesis using that [of w "Gas c"] assms by (simp add: finish_call_def opened_def)
next
  case (Some x)
  obtain s' where "RevertToSnapshot (hashing env) k (sdb w) = Some s'" "reached (hashing env) A s'" "view (hashing env) s' = v"
    using assms by (auto simp: opened_def)
  then show ?thesis using that [of "w\<lparr>sdb := s'\<rparr>" 0] Some by (simp add: finish_call_def UseGas_def)
qed

lemma run_finish_safe:
  assumes "opened (hashing env) A v k C" "loop_safe env loop" "reached (hashing env) C (sdb w)" "contract_ok c" "length i < 2 ^ 64"
    "obind (run loop env c i w) (finish_call env k) = Ret (w', r, g', e)"
  shows "reached (hashing env) A (sdb w') \<and> (e \<noteq> None \<longrightarrow> view (hashing env) (sdb w') = v \<and> g' = 0)"
proof -
  obtain w1 c1 r1 e1 where "run loop env c i w = Ret (w1, c1, r1, e1)" and f: "finish_call env k (w1, c1, r1, e1) = Ret (w', r, g', e)"
    using assms(6) by (auto simp: obind_eq)
  with run_safe [OF assms(2-5)] have "reached (hashing env) C (sdb w1)" by blast
  from finish_call_safe [OF assms(1) this, of c1 r1 e1] f show ?thesis by auto
qed

lemma load_code_safe:
  assumes "reached (hashing env) A (sdb w)" "load_code env a c w = (c1, w1)" "contract_ok c"
  shows "reached (hashing env) A (sdb w1) \<and> contract_ok c1"
  using assms reached_sizes(1) [OF reached_getters(8) [OF assms(1), of a], of a]
  by (auto simp: load_code_def Let_def split_beta reached_getters contract_ok_def SetCallCode_def)

lemma contract_ok_New: "pred_option is_word v \<Longrightarrow> contract_ok (NewContract cl a v g)"
  by (simp add: contract_ok_def NewContract_def)

lemma reads_view:
  assumes "reached E A s"
  shows "view E (snd (GetBalance E a s)) = view E s" "view E (snd (GetNonce E a s)) = view E s"
    "view E (snd (Exist E a s)) = view E s"
proof -
  have ok: "objs_ok E s" using assms by (auto simp: reached_def implements_def sdb_ok_def)
  have "view E (snd (getStateObject E a s)) = view E s"
    using getStateObject_objs [OF ok prod.collapse [symmetric]] by blast
  then show "view E (snd (GetBalance E a s)) = view E s" "view E (snd (GetNonce E a s)) = view E s"
    "view E (snd (Exist E a s)) = view E s"
    by (simp_all add: GetBalance_def GetNonce_def Exist_def Let_def split_beta)
qed

lemma CanTransfer_safe:
  assumes "reached E A s" "CanTransfer E a x s = (ok, s1)"
  shows "reached E A s1" "view E s1 = view E s" "ok \<Longrightarrow> x \<le> balance_of (view E s) a"
  using assms reached_getters(4) [OF assms(1), of a] GetBalance_view [OF assms(1), of a] reads_view(1) [OF assms(1), of a]
  by (auto simp: CanTransfer_def Let_def split_beta big_Cmp_def split: if_splits)

text \<open>A message call: what it reaches, and that an error leaves no trace but the gas.\<close>

definition undone :: "view \<Rightarrow> view \<Rightarrow> u64 \<Rightarrow> u64 \<Rightarrow> vm_error option \<Rightarrow> bool" where
  "undone v v' gas left e \<longleftrightarrow>
     (e \<noteq> None \<longrightarrow> v' = v \<and> (left = 0 \<or> left = gas \<and> e \<in> {Some ErrDepth, Some ErrInsufficientBalance}))"

lemma evm_Call_safe:
  assumes "loop_safe env loop" "reached (hashing env) A (sdb w)" "length i < 2 ^ 64" "is_word v"
    "evm_Call loop env w cl a i gas v = Ret (w', r, g', e)"
  shows "reached (hashing env) A (sdb w') \<and> undone (view (hashing env) (sdb w)) (view (hashing env) (sdb w')) gas g' e"
proof -
  let ?E = "hashing env"
  obtain can s1 where ct: "CanTransfer ?E (ref_Address cl) v (sdb w) = (can, s1)" by fastforce
  obtain k s2 where sn: "Snapshot s1 = (k, s2)" by fastforce
  obtain ex s3 where et: "Exist ?E a s2 = (ex, s3)" by fastforce
  define s4 where "s4 = (if \<not> ex then CreateAccount ?E a s3 else s3)"
  define s5 where "s5 = Transfer ?E (ref_Address cl) a v s4"
  obtain c1 w1 where lc: "load_code env a (NewContract cl a (Some v) gas) (w\<lparr>sdb := s5\<rparr>) = (c1, w1)" by fastforce
  note c = CanTransfer_safe [OF assms(2) ct]
  obtain C where C: "reached ?E C s2" "opened ?E A (view ?E s1) k C" using snapshot_opened [OF c(1) sn] .
  have s3: "reached ?E C s3" "balance_of (view ?E s3) = balance_of (view ?E s2)"
    using reached_getters(1,2) [OF C(1), of a] et by simp_all
  have "balance_of (view ?E s2) = balance_of (view ?E s1)" using reached_step(2) [OF c(1), of OpSnapshot] sn by simp
  then have s4: "reached ?E C s4" "balance_of (view ?E s4) = balance_of (view ?E (sdb w))"
    using s3 reached_setters(1,2) [OF s3(1), of a] c(2) by (simp_all add: s4_def)
  have s5: "reached ?E C s5" if can
    unfolding s5_def using reached_Transfer [OF s4(1)] c(3) [OF that] s4(2) assms(4) by (simp add: is_word_def)
  have "reached ?E C (sdb w1)" "contract_ok c1" if can
    using load_code_safe [OF _ lc, of C] s5 [OF that] contract_ok_New assms(4) by auto
  note fin = run_finish_safe [OF C(2) assms(1) this assms(3)]
  show ?thesis
    using assms(5) assms(2) c fin s3(1) C(2) ct sn et lc
    unfolding evm_Call_def Let_def
    by (auto simp: undone_def opened_def s4_def [symmetric] s5_def [symmetric] split: if_splits)
qed

lemma evm_CallCode_safe:
  assumes "loop_safe env loop" "reached (hashing env) A (sdb w)" "length i < 2 ^ 64" "is_word v"
    "evm_CallCode loop env w cl a i gas v = Ret (w', r, g', e)"
  shows "reached (hashing env) A (sdb w') \<and> undone (view (hashing env) (sdb w)) (view (hashing env) (sdb w')) gas g' e"
proof -
  let ?E = "hashing env"
  obtain can s1 where ct: "CanTransfer ?E (ref_Address cl) v (sdb w) = (can, s1)" by fastforce
  obtain k s2 where sn: "Snapshot s1 = (k, s2)" by fastforce
  obtain c1 w1 where lc: "load_code env a (NewContract cl (ref_Address cl) (Some v) gas) (w\<lparr>sdb := s2\<rparr>) = (c1, w1)" by fastforce
  note c = CanTransfer_safe [OF assms(2) ct]
  obtain C where C: "reached ?E C s2" "opened ?E A (view ?E s1) k C" using snapshot_opened [OF c(1) sn] .
  have "reached ?E C (sdb w1)" "contract_ok c1"
    using load_code_safe [OF _ lc, of C] C(1) contract_ok_New assms(4) by auto
  note fin = run_finish_safe [OF C(2) assms(1) this assms(3)]
  show ?thesis
    using assms(5) assms(2) c fin ct sn lc
    unfolding evm_CallCode_def Let_def by (auto simp: undone_def split: if_splits)
qed

lemma evm_DelegateCall_safe:
  assumes "loop_safe env loop" "reached (hashing env) A (sdb w)" "length i < 2 ^ 64" "ref_ok cl"
    "evm_DelegateCall loop env w cl a i gas = Ret (w', r, g', e)"
  shows "reached (hashing env) A (sdb w') \<and> undone (view (hashing env) (sdb w)) (view (hashing env) (sdb w')) gas g' e"
proof -
  let ?E = "hashing env"
  obtain k s2 where sn: "Snapshot (sdb w) = (k, s2)" by fastforce
  obtain C where C: "reached ?E C s2" "opened ?E A (view ?E (sdb w)) k C" using snapshot_opened [OF assms(2) sn] .
  have "reached ?E A (sdb w') \<and> (e \<noteq> None \<longrightarrow> view ?E (sdb w') = view ?E (sdb w) \<and> g' = 0)"
    if "AsDelegate (NewContract cl (ref_Address cl) None gas) = Ret c"
      "obind (run loop env (fst (load_code env a c (w\<lparr>sdb := s2\<rparr>))) i (snd (load_code env a c (w\<lparr>sdb := s2\<rparr>)))) (finish_call env k) =
        Ret (w', r, g', e)" for c
  proof -
    have "contract_ok c" using that(1) assms(4)
      by (auto simp: AsDelegate_def NewContract_def contract_ok_def ref_ok_def split: ContractRef.splits)
    then have "reached ?E C (sdb (snd (load_code env a c (w\<lparr>sdb := s2\<rparr>))))" "contract_ok (fst (load_code env a c (w\<lparr>sdb := s2\<rparr>)))"
      using load_code_safe [OF _ prod.collapse [symmetric], of env C "w\<lparr>sdb := s2\<rparr>"] C(1) by auto
    then show ?thesis using run_finish_safe [OF C(2) assms(1) _ _ assms(3) that(2)] by simp
  qed
  then show ?thesis
    using assms(5) assms(2) sn unfolding evm_DelegateCall_def Let_def
    by (cases "AsDelegate (NewContract cl (ref_Address cl) None gas)") (auto simp: undone_def split_beta split: if_splits)
qed

text \<open>A creation keeps the increment of the creator's nonce when it fails. Before homestead, code that
  cannot be paid for is no reason to revert.\<close>

definition create_undone :: "evm_env \<Rightarrow> nat \<Rightarrow> address \<Rightarrow> view \<Rightarrow> view \<Rightarrow> u64 \<Rightarrow> u64 \<Rightarrow> vm_error option \<Rightarrow> bool" where
  "create_undone env d this v v' gas left e \<longleftrightarrow>
     (e \<noteq> None \<and> (e = Some ErrCodeStoreOutOfGas \<longrightarrow> IsHomestead (chainConfig env) (block env)) \<longrightarrow>
        v' = v \<and> left = gas \<and> (e = Some ErrDepth \<and> unat CallCreateDepth < d \<or> e = Some ErrInsufficientBalance) \<or>
        v' = vupd (hashing env) this (\<lambda>x. x\<lparr>av_nonce := av_nonce x + 1\<rparr>) v \<and> left = 0)"

lemma finish_create_safe:
  assumes "opened (hashing env) A v k C" "reached (hashing env) C (sdb w)" "finish_create env k a (w, c, r, e) = Ret (w', r', a', g', e')"
  shows "reached (hashing env) A (sdb w')"
    "e' \<noteq> None \<Longrightarrow> (e' = Some ErrCodeStoreOutOfGas \<longrightarrow> IsHomestead (chainConfig env) (block env)) \<Longrightarrow>
      view (hashing env) (sdb w') = v \<and> g' = 0"
proof -
  let ?E = "hashing env"
  define big where "big = (length (bytes_of r) > MaxCodeSize)"
  have sc: "reached ?E C (SetCode ?E a r (sdb w))" if "\<not> big"
    by (rule reached_setters(5) [OF assms(2)]) (use that in \<open>simp add: big_def params\<close>)
  have rv: "\<exists>s'. RevertToSnapshot ?E k s = Some s' \<and> reached ?E A s' \<and> view ?E s' = v" if "reached ?E C s" for s
    using that assms(1) by (simp add: opened_def)
  have ou: "reached ?E A s" if "reached ?E C s" for s using that assms(1) by (simp add: opened_def)
  show "reached ?E A (sdb w')"
    using assms(2,3) rv [OF assms(2)] rv [OF sc] ou [OF assms(2)] ou [OF sc]
    by (auto simp: finish_create_def Let_def split_beta big_def [symmetric] split: if_splits option.splits)
  show "view ?E (sdb w') = v \<and> g' = 0"
    if "e' \<noteq> None" "e' = Some ErrCodeStoreOutOfGas \<longrightarrow> IsHomestead (chainConfig env) (block env)"
    using that assms(2,3) rv [OF assms(2)] rv [OF sc]
    by (auto simp: finish_create_def Let_def split_beta big_def [symmetric] UseGas_def split: if_splits option.splits)
qed

lemma nonce_bump_view:
  assumes "reached E A s"
  shows "view E (SetNonce E a (fst (GetNonce E a s) + 1) (snd (GetNonce E a s))) =
    vupd E a (\<lambda>x. x\<lparr>av_nonce := av_nonce x + 1\<rparr>) (view E s)"
proof -
  let ?n = "fst (GetNonce E a s)" and ?s = "snd (GetNonce E a s)"
  have E: "crypto_ok E" using assms by (simp add: reached_def)
  obtain B where B: "implements E s B" using assms by (auto simp: reached_def)
  have "db_step E (OpGetNonce a) s = Some (ONonce ?n, ?s)" by (simp add: map_prod_def split_beta)
  from simulates_SomeD [OF E B this] have B1: "ad_step E (OpGetNonce a) B = Some (ONonce ?n, B)" "implements E ?s B" by auto
  have "db_step E (OpSetNonce a (?n + 1)) ?s = Some (ODone, SetNonce E a (?n + 1) ?s)" by simp
  from simulates_SomeD [OF E B1(2) this] obtain C where "ad_step E (OpSetNonce a (?n + 1)) B = Some (ODone, C)"
    "implements E (SetNonce E a (?n + 1) ?s) C" .
  then have "view E (SetNonce E a (?n + 1) ?s) = vupd E a (\<lambda>x. x\<lparr>av_nonce := ?n + 1\<rparr>) (view E s)"
    using B by (auto simp: ad_upd_def implements_def)
  moreover have "?n = (case vw_accts (view E s) a of None \<Rightarrow> 0 | Some x \<Rightarrow> av_nonce x)"
    using B1(1) B by (auto simp: ad_get_def implements_def)
  ultimately show ?thesis by (auto simp: vupd_def fresh_view_def split: option.split)
qed

lemma run_create_safe:
  assumes "opened (hashing env) A v k C" "loop_safe env loop" "reached (hashing env) C (sdb w)" "contract_ok c" "length i < 2 ^ 64"
    "obind (run loop env c i w) (finish_create env k a) = Ret (w', r, a', g', e)"
  shows "reached (hashing env) A (sdb w')"
    "e \<noteq> None \<Longrightarrow> (e = Some ErrCodeStoreOutOfGas \<longrightarrow> IsHomestead (chainConfig env) (block env)) \<Longrightarrow>
      view (hashing env) (sdb w') = v \<and> g' = 0"
proof -
  obtain w1 c1 r1 e1 where "run loop env c i w = Ret (w1, c1, r1, e1)" and f: "finish_create env k a (w1, c1, r1, e1) = Ret (w', r, a', g', e)"
    using assms(6) by (auto simp: obind_eq)
  with run_safe [OF assms(2-5)] have c: "reached (hashing env) C (sdb w1)" by blast
  show "reached (hashing env) A (sdb w')" by (rule finish_create_safe(1) [OF assms(1) c f])
  show "view (hashing env) (sdb w') = v \<and> g' = 0"
    if "e \<noteq> None" "e = Some ErrCodeStoreOutOfGas \<longrightarrow> IsHomestead (chainConfig env) (block env)"
    by (rule finish_create_safe(2) [OF assms(1) c f that])
qed

lemma evm_Create_safe:
  assumes "loop_safe env loop" "reached (hashing env) A (sdb w)" "length bs < 2 ^ 64" "is_word v"
    "evm_Create loop env w cl bs gas v = Ret (w', r, a, g', e)"
  shows "reached (hashing env) A (sdb w')"
    "create_undone env (depth w) (ref_Address cl) (view (hashing env) (sdb w)) (view (hashing env) (sdb w')) gas g' e"
proof -
  let ?E = "hashing env" and ?me = "ref_Address cl"
  obtain can s1 where ct: "CanTransfer ?E ?me v (sdb w) = (can, s1)" by fastforce
  obtain n s2 where gn: "GetNonce ?E ?me s1 = (n, s2)" by fastforce
  define s3 where "s3 = SetNonce ?E ?me (n + 1) s2"
  obtain k s4 where sn: "Snapshot s3 = (k, s4)" by fastforce
  define addr where "addr = CreateAddress ?E ?me n"
  define s6 where "s6 = (if IsEIP158 (chainConfig env) (block env) then SetNonce ?E addr 1 (CreateAccount ?E addr s4) else CreateAccount ?E addr s4)"
  define s7 where "s7 = Transfer ?E ?me addr v s6"
  define c1 where "c1 = SetCallCode addr (BytesToHash (keccak256 ?E bs)) bs (NewContract cl addr (Some v) gas)"
  note c = CanTransfer_safe [OF assms(2) ct]
  have s2: "reached ?E A s2" "balance_of (view ?E s2) = balance_of (view ?E s1)"
    using reached_getters(6,7) [OF c(1), of ?me] gn by simp_all
  have s3: "reached ?E A s3" "balance_of (view ?E s3) = balance_of (view ?E (sdb w))"
    using reached_setters(3,4) [OF s2(1)] s2(2) c(2) by (simp_all add: s3_def)
  have v3: "view ?E s3 = vupd ?E ?me (\<lambda>x. x\<lparr>av_nonce := av_nonce x + 1\<rparr>) (view ?E (sdb w))"
    using nonce_bump_view [OF c(1), of ?me] gn c(2) by (simp add: s3_def)
  obtain C where C: "reached ?E C s4" "opened ?E A (view ?E s3) k C" using snapshot_opened [OF s3(1) sn] .
  have "balance_of (view ?E s4) = balance_of (view ?E s3)" using reached_step(2) [OF s3(1), of OpSnapshot] sn by simp
  then have s6: "reached ?E C s6" "balance_of (view ?E s6) = balance_of (view ?E (sdb w))"
    using reached_setters(1,2) [OF C(1), of addr] reached_setters(3,4) [OF reached_setters(1) [OF C(1), of addr], of addr 1] s3(2)
    by (simp_all add: s6_def)
  have s7: "reached ?E C (sdb (w\<lparr>sdb := s7\<rparr>))" if can
    using reached_Transfer [OF s6(1)] c(3) [OF that] s6(2) assms(4) by (simp add: s7_def is_word_def)
  have c1: "contract_ok c1" using assms(3,4) by (simp add: c1_def contract_ok_def SetCallCode_def NewContract_def)
  have nil: "length [] < (2 :: nat) ^ 64" by simp
  note fin = run_create_safe [OF C(2) assms(1) s7 c1 nil]
  have e: "evm_Create loop env w cl bs gas v =
    (if NoRecursion (vmConfig env) \<and> depth w > 0 then Ret (w, None, 0, gas, None)
     else if depth w > unat CallCreateDepth then Ret (w, None, 0, gas, Some ErrDepth)
     else if \<not> can then Ret (w\<lparr>sdb := s1\<rparr>, None, 0, gas, Some ErrInsufficientBalance)
     else obind (run loop env c1 [] (w\<lparr>sdb := s7\<rparr>)) (finish_create env k addr))"
    by (simp add: evm_Create_def Let_def ct gn sn s3_def [symmetric] addr_def [symmetric] s6_def s7_def c1_def [symmetric])
  show "reached ?E A (sdb w')"
    using assms(2,5) c(1) fin(1) unfolding e by (auto split: if_splits)
  show "create_undone env (depth w) ?me (view ?E (sdb w)) (view ?E (sdb w')) gas g' e"
    using assms(5) c(2) fin(2) v3 unfolding e create_undone_def by (auto split: if_splits)
qed

lemma subcalls_safe: "loop_safe env loop \<Longrightarrow> sc_safe (hashing env) (subcalls_of loop env)"
  unfolding sc_safe_def subcalls_of_def subcalls.simps
  by (intro conjI allI impI) (blast dest: evm_Call_safe evm_CallCode_safe evm_DelegateCall_safe evm_Create_safe(1))+

lemma run_loop_safe:
  assumes "env_ok env"
  shows "loop_safe env (run_loop n env)"
proof (induction n)
  case (Suc n)
  note st = step_safe [OF assms subcalls_safe [OF Suc]]
  show ?case unfolding loop_safe_def
  proof (intro allI impI)
    fix A w f w' f' r e
    assume a: "reached (hashing env) A (sdb w)" "frame_ok f" "run_loop (Suc n) env w f = Ret (w', f', r, e)"
    let ?w = "w\<lparr>rounds := rounds w + 1\<rparr>"
    have r: "reached (hashing env) A (sdb ?w)" using a(1) by simp
    from a(3) have b: "loop_body env (run_loop n env) w f = Ret (w', f', r, e)" by (simp only: run_loop_Suc)
    show "reached (hashing env) A (sdb w')"
    proof (cases "cancelled env (rounds w)")
      case False
      then obtain x where x: "step (subcalls_of (run_loop n env) env) env ?w f = Ret x"
        "(case x of Next w2 f2 \<Rightarrow> run_loop n env w2 f2 | Stop w2 f2 ret err \<Rightarrow> Ret (w2, f2, ret, err)) = Ret (w', f', r, e)"
        using b by (auto simp: loop_body_def obind_eq)
      then show ?thesis using st [OF r a(2)] loop_safeD [OF Suc] by (cases x) auto
    qed (use b a(1) in \<open>auto simp: loop_body_def\<close>)
  qed
qed (simp add: loop_safe_def)

end
