(* ===== verification/Evm_Height.thy ===== *)
theory Evm_Height
  imports Evm_Safe
begin

text \<open>
  Stack heights: the stack check of every entry of the jump table matches what the instruction
  pops and pushes, so no round ends with more than 1024 items.
\<close>

section \<open>Stack heights\<close>

text \<open>An instruction that pops \<open>p\<close> and pushes \<open>q\<close> items.\<close>

definition delta :: "executionFunc \<Rightarrow> nat \<Rightarrow> nat \<Rightarrow> bool" where
  "delta ex p q \<longleftrightarrow> (\<forall>sc env w f w' f' r e. ex sc env w f = Ret (w', f', r, e) \<longrightarrow>
     length (stk f') + p \<le> length (stk f) + q)"

definition fits :: "(stack \<Rightarrow> vm_error option) \<Rightarrow> executionFunc \<Rightarrow> bool" where
  "fits vs ex \<longleftrightarrow> (\<forall>sc env w f st w' f' r e. length st = length (stk f) \<longrightarrow> vs st = None \<longrightarrow>
     ex sc env w f = Ret (w', f', r, e) \<longrightarrow> length (stk f') \<le> 1024)"

lemma fits_delta [simp]: "delta ex p q \<Longrightarrow> fits (makeStackFunc p q) ex"
proof -
  assume d: "delta ex p q"
  show ?thesis
    unfolding fits_def
  proof (intro allI impI)
    fix sc env w f and st :: stack and w' f' r e
    assume a: "length st = length (stk f)" "makeStackFunc p q st = None" "ex sc env w f = Ret (w', f', r, e)"
    have "length (stk f') + p \<le> length (stk f) + q" using d a(3) unfolding delta_def by blast
    moreover have "int (length (stk f)) + int q - int p \<le> 1024"
      using a(1,2) by (simp add: makeStackFunc_def params split: option.splits if_splits)
    ultimately show "length (stk f') \<le> 1024" by linarith
  qed
qed

lemma delta_pure:
  "delta (\<lambda>sc env. pure1 (h1 env)) 1 1" "delta (\<lambda>sc env. pure2 (h2 env)) 2 1" "delta (\<lambda>sc env. pure3 (h3 env)) 3 1"
  "delta (\<lambda>sc env w f. push (h4 env f) w f) 0 1" "delta (\<lambda>sc env w f. pure1 (h5 env f) w f) 1 1"
  by (auto simp: delta_def pure1_def pure2_def pure3_def push_def finish_def split: list.splits)

lemma delta_arith:
  "delta opAdd 2 1" "delta opSub 2 1" "delta opMul 2 1" "delta opDiv 2 1" "delta opSdiv 2 1" "delta opMod 2 1" "delta opSmod 2 1"
  "delta opExp 2 1" "delta opNot 1 1" "delta opLt 2 1" "delta opGt 2 1" "delta opSlt 2 1" "delta opSgt 2 1" "delta opEq 2 1"
  "delta opIszero 1 1" "delta opAnd 2 1" "delta opOr 2 1" "delta opXor 2 1" "delta opByte 2 1" "delta opAddmod 3 1" "delta opMulmod 3 1"
  unfolding opAdd_def opSub_def opMul_def opDiv_def opSdiv_def opMod_def opSmod_def opExp_def opNot_def opLt_def
    opGt_def opSlt_def opSgt_def opEq_def opIszero_def opAnd_def opOr_def opXor_def opByte_def opAddmod_def opMulmod_def
  by (rule delta_pure)+

lemma delta_env:
  "delta opAddress 0 1" "delta opOrigin 0 1" "delta opCaller 0 1" "delta opCalldataLoad 1 1" "delta opCalldataSize 0 1"
  "delta opCodeSize 0 1" "delta opGasprice 0 1" "delta opBlockhash 1 1" "delta opCoinbase 0 1" "delta opTimestamp 0 1"
  "delta opNumber 0 1" "delta opDifficulty 0 1" "delta opGasLimit 0 1" "delta opPc 0 1" "delta opMsize 0 1" "delta opGas 0 1"
  unfolding opAddress_def opOrigin_def opCaller_def opCalldataLoad_def opCalldataSize_def opCodeSize_def
    opGasprice_def opBlockhash_def opCoinbase_def opTimestamp_def opNumber_def opDifficulty_def
    opGasLimit_def opPc_def opMsize_def opGas_def
  by (rule delta_pure)+

lemmas delta_unfold = delta_def finish_def push_def Let_def split_beta obind_eq copy_to_memory_def jump_to_def

lemma delta_state:
  "delta opSignExtend 2 1" "delta opSha3 2 1" "delta opBalance 1 1" "delta opCallValue 0 1" "delta opCalldataCopy 3 0"
  "delta opExtCodeSize 1 1" "delta opCodeCopy 3 0" "delta opExtCodeCopy 4 0" "delta opPop 1 0" "delta opMload 1 1"
  "delta opMstore 2 0" "delta opMstore8 2 0" "delta opSload 1 1" "delta opSstore 2 0" "delta opJump 1 0" "delta opJumpi 2 0"
  "delta opJumpdest 0 0" "delta opReturn 2 0" "delta opStop 0 0" "delta opSuicide 1 0"
  by (auto simp: delta_unfold opSignExtend_def opSha3_def opBalance_def opCallValue_def opCalldataCopy_def opExtCodeSize_def
      opCodeCopy_def opExtCodeCopy_def opPop_def opMload_def opMstore_def opMstore8_def opSload_def opSstore_def opJump_def
      opJumpi_def opJumpdest_def opReturn_def opStop_def opSuicide_def split: list.splits option.splits if_splits)

lemma after_call_length: "after_call ro rs st f p = Ret (w', f', r, e) \<Longrightarrow> length (stk f') = Suc (length st)"
  by (auto simp: after_call_def Let_def obind_eq split: prod.splits if_splits)

lemma delta_calls: "delta opCall 7 1" "delta opCallCode 7 1" "delta opDelegateCall 6 1" "delta opCreate 3 1"
  by (auto simp: delta_unfold opCall_def opCallCode_def opDelegateCall_def opCreate_def dest!: after_call_length split: list.splits)

lemma delta_families: "delta (makeLog n) (n + 2) 0" "delta (makePush p k) 0 1" "delta (makeDup n) n (n + 1)"
  "delta (makeSwap n) (n + 1) (n + 1)"
  by (auto simp: delta_unfold makeLog_def makePush_def makeDup_def makeSwap_def stack_dup_def stack_swap_def
      split: list.splits if_splits)

lemmas delta_ops = delta_arith [unfolded One_nat_def] delta_env [unfolded One_nat_def] delta_state [unfolded One_nat_def]
  delta_calls [unfolded One_nat_def] delta_families(2) [unfolded One_nat_def]

definition op_fits :: "operation \<Rightarrow> bool" where
  "op_fits x \<longleftrightarrow> fits (validateStack x) (execute x)"

lemma ops_fit: "list_all (\<lambda>(op, x). op_fits x) frontier_ops"
  unfolding frontier_ops_def list_all_append
proof (intro conjI)
  note r = op_fits_def delta_ops
  have l: "fits (makeStackFunc 2 0) (makeLog 0)" "fits (makeStackFunc 3 0) (makeLog (Suc 0))" "fits (makeStackFunc 4 0) (makeLog 2)"
    "fits (makeStackFunc 5 0) (makeLog 3)" "fits (makeStackFunc 6 0) (makeLog 4)"
    using fits_delta [OF delta_families(1), of 0] fits_delta [OF delta_families(1), of 1] fits_delta [OF delta_families(1), of 2]
      fits_delta [OF delta_families(1), of 3] fits_delta [OF delta_families(1), of 4] by (simp_all add: numeral_eq_Suc)
  show "list_all (\<lambda>(op, x). op_fits x) arithmetic_ops" by (simp add: arithmetic_ops_def r)
  show "list_all (\<lambda>(op, x). op_fits x) compare_ops" by (simp add: compare_ops_def r)
  show "list_all (\<lambda>(op, x). op_fits x) environment_ops" by (simp add: environment_ops_def r)
  show "list_all (\<lambda>(op, x). op_fits x) block_ops" by (simp add: block_ops_def r)
  show "list_all (\<lambda>(op, x). op_fits x) storage_ops" by (simp add: storage_ops_def r)
  show "list_all (\<lambda>(op, x). op_fits x) push_ops" by (simp add: push_ops_def r list_all_iff)
  show "list_all (\<lambda>(op, x). op_fits x) dup_ops"
    using fits_delta [OF delta_families(3)] by (simp add: dup_ops_def op_fits_def makeDupStackFunc_def list_all_iff)
  show "list_all (\<lambda>(op, x). op_fits x) swap_ops"
    using fits_delta [OF delta_families(4)] by (simp add: swap_ops_def op_fits_def makeSwapStackFunc_def list_all_iff)
  show "list_all (\<lambda>(op, x). op_fits x) log_ops" by (simp add: log_ops_def op_fits_def l)
  show "list_all (\<lambda>(op, x). op_fits x) closure_ops" by (simp add: closure_ops_def r)
qed

lemma instructions_fit: "valid (instruction_set env op) \<Longrightarrow> op_fits (instruction_set env op)"
  by (rule instruction_set_all [OF ops_fit]) (simp_all add: delegate_op_def op_fits_def delta_ops)

text \<open>Gas functions may replace the top of the stack but keep its height.\<close>

definition level :: "gasFunc \<Rightarrow> bool" where
  "level g \<longleftrightarrow> (\<forall>env gt w f ms w' f' r. g env gt w f ms = Ret (w', f', r) \<longrightarrow> length (stk f') = length (stk f))"

lemma level_gas_functions:
  "level (constGasFunc g)" "level gasCalldataCopy" "level gasSStore" "level (makeGasLog n)" "level gasSha3"
  "level gasCodeCopy" "level gasExtCodeCopy" "level gasMLoad" "level gasMStore8" "level gasMStore"
  "level gasCreate" "level gasBalance" "level gasExtCodeSize" "level gasSLoad" "level gasExp"
  "level gasReturn" "level gasSuicide" "level gasPush" "level gasSwap" "level gasDup"
  by (auto simp: level_def constGasFunc_def gasCalldataCopy_def gasSStore_def makeGasLog_def gasSha3_def gasCodeCopy_def
      gasExtCodeCopy_def gasMLoad_def gasMStore8_def gasMStore_def gasCreate_def gasBalance_def gasExtCodeSize_def
      gasSLoad_def gasExp_def gasReturn_def gasSuicide_def gasPush_def gasSwap_def gasDup_def mem_gas_eq Let_def split_beta
      split: option.splits list.splits if_splits)

lemma call_gas_level: "call_gas gt b f = (f', r) \<Longrightarrow> stk f \<noteq> [] \<Longrightarrow> length (stk f') = length (stk f)"
  by (cases "stk f") (auto simp: call_gas_def split: sum.splits)

lemma level_calls: "level gasCall" "level gasCallCode" "level gasDelegateCall"
  by (auto simp: level_def gasCall_def gasCallCode_def gasDelegateCall_def Let_def split_beta dest!: call_gas_level
      split: list.splits if_splits)

lemma ops_level: "list_all (\<lambda>(op, x). level (gasCost x)) frontier_ops"
  by (simp add: frontier_ops_def arithmetic_ops_def compare_ops_def environment_ops_def block_ops_def storage_ops_def
      push_ops_def dup_ops_def swap_ops_def log_ops_def closure_ops_def level_gas_functions level_calls list_all_iff ball_Un)

lemma instructions_level: "valid (instruction_set env op) \<Longrightarrow> level (gasCost (instruction_set env op))"
  by (rule instruction_set_all [OF ops_level]) (simp_all add: delegate_op_def level_calls)

lemma charge_level:
  assumes "level (gasCost x)" "charge env x ms w f = Ret (w1, f1, ok)"
  shows "length (stk f1) = length (stk f)"
proof (cases "DisableGasMetering (vmConfig env)")
  case False
  then obtain w2 f0 r where g: "gasCost x env (cfg_GasTable (chainConfig env) (block env)) w f ms = Ret (w2, f0, r)"
    using assms(2) by (auto simp: charge_def obind_eq)
  have "stk f1 = stk f0" using charge_eq [OF False g] assms(2) by (cases r) auto
  then show ?thesis using assms(1) g unfolding level_def by metis
qed (use assms in \<open>simp add: charge_def\<close>)

lemma step_height:
  assumes "step sc env w f = Ret (Next w' f')"
  shows "length (stk f') \<le> 1024"
proof -
  define x where "x = instruction_set env (GetOp (contract f) (pc f))"
  from assms have v: "valid x" "validateStack x (stk f) = None"
    by (auto simp: step_def Let_def x_def [symmetric] split: if_splits option.splits)
  then obtain m where "memory_size x (stk f) = Ret m"
    using assms by (auto simp: step_def Let_def x_def [symmetric] obind_eq)
  then obtain ms w1 f1 where c: "charge env x ms w f = Ret (w1, f1, True)" and e: "execute_op sc env x ms w1 f1 = Ret (Next w' f')"
    using assms v by (cases m) (auto simp: step_def Let_def x_def [symmetric] obind_eq split: if_splits)
  have l: "length (stk f1) = length (stk f)" using charge_level [OF _ c] instructions_level v(1) by (simp add: x_def)
  define f2 where "f2 = (if 0 < ms then f1\<lparr>mem := mem_Resize ms (mem f1)\<rparr> else f1)"
  obtain w3 f3 r3 where ex: "execute x sc env w1 f2 = Ret (w3, f3, r3, None)" and f': "stk f' = stk f3"
    using e by (auto simp: execute_op_def Let_def obind_eq f2_def [symmetric] split: if_splits)
  have "fits (validateStack x) (execute x)" using instructions_fit v(1) by (simp add: x_def op_fits_def)
  moreover have "length (stk f) = length (stk f2)" using l by (simp add: f2_def)
  ultimately have "length (stk f3) \<le> 1024" using ex v(2) unfolding fits_def by metis
  then show ?thesis using f' by simp
qed

end
