(* ===== verification/Evm_Properties.thy ===== *)
theory Evm_Properties
  imports Evm_Height
begin

text \<open>
  The properties of the EVM as a whole: termination, gas, failed calls, funds and well-typed frames,
  with a concrete machine on which each of them is applied.
\<close>

section \<open>Properties\<close>

text \<open>C3. With gas metering on, the interpreter terminates: for a message call or creation with a
  given amount of gas, one unit of fuel more than the gas settles the result, and every larger
  amount of fuel gives that same result. Instructions that call or create hand on less gas than the
  frame had, so nested executions end as well.\<close>

theorem executions_terminate:
  assumes "\<not> DisableGasMetering (vmConfig env)"
  shows "(\<exists>r. r \<noteq> NoFuel \<and> (\<forall>n > unat gas. Call n env w cl addr inpt gas value = r)) \<and>
    (\<exists>r. r \<noteq> NoFuel \<and> (\<forall>n > unat gas. CallCode n env w cl addr inpt gas value = r)) \<and>
    (\<exists>r. r \<noteq> NoFuel \<and> (\<forall>n > unat gas. DelegateCall n env w cl addr inpt gas = r)) \<and>
    (\<exists>r. r \<noteq> NoFuel \<and> (\<forall>n > unat gas. Create n env w cl inpt gas value = r))"
proof -
  have s: "Suc (unat gas) \<le> n" if "unat gas < n" for n using that by simp
  note f = entry_fuel [OF assms, of gas "Suc (unat gas)", OF lessI]
  note b = entry_below [OF s, where g = gas]
  show ?thesis
    by (intro conjI settled)
      (rule b f, assumption?)+
qed

text \<open>C25. A message call or creation never returns more gas than it was given, whatever it
  runs and whether it ends normally or with an error.\<close>

theorem leftover_gas_bounded:
  assumes "\<not> DisableGasMetering (vmConfig env)"
  shows "(Call n env w cl addr inpt gas value = Ret (w1, r1, left1, e1) \<longrightarrow> left1 \<le> gas) \<and>
    (CallCode n env w cl addr inpt gas value = Ret (w1, r1, left1, e1) \<longrightarrow> left1 \<le> gas) \<and>
    (DelegateCall n env w cl addr inpt gas = Ret (w1, r1, left1, e1) \<longrightarrow> left1 \<le> gas) \<and>
    (Create n env w cl inpt gas value = Ret (w1, r1, a1, left1, e1) \<longrightarrow> left1 \<le> gas)"
  using sc_returnsD [OF subcalls_returns [OF run_loop_returns [OF assms]]]
  by (auto simp: subcalls_of_def Call_def CallCode_def DelegateCall_def Create_def)

text \<open>The conditions at the start of a transaction: hashes of 32 bytes, a well-formed account
  database without open snapshots, balances that are not negative and together fit a word, a refund counter
  that is not negative, codes and cached code sizes below $2^{64}$.\<close>

definition ready :: "evm_env \<Rightarrow> evm \<Rightarrow> bool" where
  "ready env w \<longleftrightarrow> crypto_ok (hashing env) \<and> env_ok env \<and> sdb_ok (hashing env) (sdb w) \<and> validRevisions (sdb w) = [] \<and>
     funds_ok (view (hashing env) (sdb w)) \<and> cache_small (sdb w)"

lemma ready_reached: "ready env w \<Longrightarrow> reached (hashing env) (initial (hashing env) (sdb w)) (sdb w)"
  using initial_implements [of "hashing env" "sdb w"] evolves_refl [of "hashing env" "initial (hashing env) (sdb w)"]
  by (auto simp: ready_def reached_def initial_def snaps_ok_def)

lemma initial_view [simp]: "ad_view (initial E s) = view E s"
  by (simp add: initial_def)

lemma entry_safe:
  assumes "ready env w" "length inpt < 2 ^ 64" "is_word value" "ref_ok cl"
  shows "Call n env w cl addr inpt gas value = Ret (w1, r1, left1, e1) \<Longrightarrow>
      reached (hashing env) (initial (hashing env) (sdb w)) (sdb w1) \<and>
      undone (view (hashing env) (sdb w)) (view (hashing env) (sdb w1)) gas left1 e1"
    "CallCode n env w cl addr inpt gas value = Ret (w1, r1, left1, e1) \<Longrightarrow>
      reached (hashing env) (initial (hashing env) (sdb w)) (sdb w1) \<and>
      undone (view (hashing env) (sdb w)) (view (hashing env) (sdb w1)) gas left1 e1"
    "DelegateCall n env w cl addr inpt gas = Ret (w1, r1, left1, e1) \<Longrightarrow>
      reached (hashing env) (initial (hashing env) (sdb w)) (sdb w1) \<and>
      undone (view (hashing env) (sdb w)) (view (hashing env) (sdb w1)) gas left1 e1"
    "Create n env w cl inpt gas value = Ret (w1, r1, a1, left1, e1) \<Longrightarrow>
      reached (hashing env) (initial (hashing env) (sdb w)) (sdb w1) \<and>
      create_undone env (depth w) (ref_Address cl) (view (hashing env) (sdb w)) (view (hashing env) (sdb w1)) gas left1 e1"
proof -
  have l: "loop_safe env (run_loop n env)" by (rule run_loop_safe) (use assms(1) in \<open>simp add: ready_def\<close>)
  note r = ready_reached [OF assms(1)]
  show "Call n env w cl addr inpt gas value = Ret (w1, r1, left1, e1) \<Longrightarrow>
      reached (hashing env) (initial (hashing env) (sdb w)) (sdb w1) \<and>
      undone (view (hashing env) (sdb w)) (view (hashing env) (sdb w1)) gas left1 e1"
    using evm_Call_safe [OF l r assms(2,3)] by (simp add: Call_def)
  show "CallCode n env w cl addr inpt gas value = Ret (w1, r1, left1, e1) \<Longrightarrow>
      reached (hashing env) (initial (hashing env) (sdb w)) (sdb w1) \<and>
      undone (view (hashing env) (sdb w)) (view (hashing env) (sdb w1)) gas left1 e1"
    using evm_CallCode_safe [OF l r assms(2,3)] by (simp add: CallCode_def)
  show "DelegateCall n env w cl addr inpt gas = Ret (w1, r1, left1, e1) \<Longrightarrow>
      reached (hashing env) (initial (hashing env) (sdb w)) (sdb w1) \<and>
      undone (view (hashing env) (sdb w)) (view (hashing env) (sdb w1)) gas left1 e1"
    using evm_DelegateCall_safe [OF l r assms(2,4)] by (simp add: DelegateCall_def)
  show "Create n env w cl inpt gas value = Ret (w1, r1, a1, left1, e1) \<Longrightarrow>
      reached (hashing env) (initial (hashing env) (sdb w)) (sdb w1) \<and>
      create_undone env (depth w) (ref_Address cl) (view (hashing env) (sdb w)) (view (hashing env) (sdb w1)) gas left1 e1"
    using evm_Create_safe [OF l r assms(2,3)] by (simp add: Create_def)
qed


text \<open>C2. Execution creates no funds: after a message call or a creation, whether it succeeds or
  not, no balance is negative and the sum of all balances is at most what it was before; only self
  destructs to oneself make it smaller.\<close>

theorem executions_create_no_funds:
  assumes "ready env w" and "length inpt < 2 ^ 64" and "is_word value" and "ref_ok cl"
    and "(\<exists>r left e. Call n env w cl addr inpt gas value = Ret (w1, r, left, e)) \<or>
      (\<exists>r left e. CallCode n env w cl addr inpt gas value = Ret (w1, r, left, e)) \<or>
      (\<exists>r left e. DelegateCall n env w cl addr inpt gas = Ret (w1, r, left, e)) \<or>
      (\<exists>r a left e. Create n env w cl inpt gas value = Ret (w1, r, a, left, e))"
  shows "(\<Sum>a\<in>UNIV. balance_of (view (hashing env) (sdb w1)) a) \<le> (\<Sum>a\<in>UNIV. balance_of (view (hashing env) (sdb w)) a) \<and>
    (\<forall>a. 0 \<le> balance_of (view (hashing env) (sdb w1)) a)"
proof -
  have "reached (hashing env) (initial (hashing env) (sdb w)) (sdb w1)"
    using assms(5) by (elim disjE exE) (blast dest: entry_safe [OF assms(1-4)])+
  from reached_funds [OF this] show ?thesis by (simp add: funds_ok_def total_def)
qed

text \<open>The frames of one activation of the interpreter: the rounds that continue.\<close>

inductive continues :: "evm_env \<Rightarrow> evm \<Rightarrow> frame \<Rightarrow> evm \<Rightarrow> frame \<Rightarrow> bool" for env w f where
  continues_refl: "continues env w f w f"
| continues_step: "continues env w f w1 f1 \<Longrightarrow>
    step (subcalls_of (run_loop n env) env) env (w1\<lparr>rounds := k\<rparr>) f1 = Ret (Next w2 f2) \<Longrightarrow> continues env w f w2 f2"

lemma continues_safe:
  assumes "continues env w f w1 f1" "env_ok env" "reached (hashing env) A (sdb w)" "frame_ok f" "length (stk f) \<le> 1024"
  shows "reached (hashing env) A (sdb w1) \<and> frame_ok f1 \<and> length (stk f1) \<le> 1024"
  using assms
proof (induction rule: continues.induct)
  case (continues_step w1 f1 n k w2 f2)
  then have "reached (hashing env) A (sdb (w1\<lparr>rounds := k\<rparr>))" "frame_ok f1" by simp_all
  then show ?case
    using step_safe(1) [OF _ subcalls_safe [OF run_loop_safe] _ _ continues_step.hyps(2)] step_height [OF continues_step.hyps(2)]
      continues_step.prems(1) by blast
qed simp


section \<open>A concrete machine\<close>

text \<open>A block context and a database with one account whose code is the invalid opcode \<open>0xfe\<close>.\<close>

definition crypto_small :: crypto where
  "crypto_small = \<lparr>keccak256 = (\<lambda>b. replicate 31 0 @ [word_of_nat (length b) + 100]), trieHash = (\<lambda>_. 0)\<rparr>"

definition env_example :: evm_env where
  "env_example = \<lparr>ctxt = \<lparr>GetHash = (\<lambda>_. 0), Origin = 1, GasPrice = 1, Coinbase = 2, GasLimit = 1000000, BlockNumber = 5,
       Time = 7, Difficulty = 9\<rparr>,
     chainConfig = \<lparr>ChainId = Some 1, HomesteadBlock = Some 0, DAOForkBlock = None, DAOForkSupport = False,
       EIP150Block = Some 0, EIP150Hash = 0, EIP155Block = Some 0, EIP158Block = Some 0, MetropolisBlock = None,
       Bzhash = False, Clique = None\<rparr>,
     vmConfig = \<lparr>NoRecursion = False, DisableGasMetering = False, EnablePreimageRecording = False\<rparr>,
     hashing = crypto_small, sha256_Sum256 = (\<lambda>_. replicate 32 0), ripemd160_Sum = (\<lambda>_. replicate 20 0),
     crypto_Ecrecover = (\<lambda>_ _. None), cancelled = (\<lambda>_. False)\<rparr>"

definition evm_example :: evm where
  "evm_example = \<lparr>sdb = SetCode crypto_small 9 (Some [0xfe]) db_example, depth = 0, dests = Map.empty, rounds = 0\<rparr>"

lemma env_example_simps [simp]:
  "hashing env_example = crypto_small" "DisableGasMetering (vmConfig env_example) = False"
  by (simp_all add: env_example_def)

lemma view_example:
  "view crypto_small db_example = \<lparr>vw_accts = Map.empty, vw_refund = 0, vw_logs = (\<lambda>_. []), vw_preimages = Map.empty\<rparr>"
  by (auto simp: view_def lookup_eq db_example_def GetLogs_def trie_account_def SecureTrie_Get_def fun_eq_iff)

lemma crypto_small_ok: "crypto_ok crypto_small" "sdb_ok crypto_small db_example"
  by (simp_all add: crypto_ok_def crypto_small_def sdb_ok_def db_example_def objs_ok_def revs_ok_def
      trie_account_def SecureTrie_Get_def lru_ok_def)

lemma ready_example: "ready env_example evm_example"
proof -
  let ?E = crypto_small and ?s = "SetCode crypto_small 9 (Some [0xfe]) db_example"
  have "db_run ?E [OpSetCode 9 (Some [0xfe])] db_example = Some ([ODone], ?s)" by simp
  from db_run_implements [OF crypto_small_ok(1) initial_implements [OF crypto_small_ok(2)] this] 
  obtain A where A: "implements ?E ?s A" "ad_run ?E [OpSetCode 9 (Some [0xfe])] (initial ?E db_example) = Some ([ODone], A)"
    by (auto simp: db_example_def)
  have v: "balance_of (view ?E ?s) = (\<lambda>_. 0)" "codes_ok (view ?E ?s)" "vw_refund (view ?E ?s) = 0"
    using view_setters(5) [OF crypto_small_ok, of 9 "Some [0xfe]"] view_example
    by (simp_all add: fun_eq_iff balance_of_def codes_ok_def vupd_def fresh_view_def)
  have "cache_small ?s" using cache_on_object [of "so_SetCode ?E (BytesToHash (keccak256 ?E [0xfe])) (Some [0xfe])"]
    by (simp add: SetCode_def cache_small_def sizes_small_def db_example_def)
  moreover have "validRevisions ?s = []"
  proof -
    have "list_all2 (saved ?E ?s) (validRevisions ?s) (ad_snaps A)" using A(1) by (simp add: implements_def)
    moreover have "ad_snaps A = []" using A(2) by (auto simp: ad_upd_def initial_def)
    ultimately show ?thesis by simp
  qed
  ultimately show ?thesis
    using A(1) v crypto_small_ok(1) by (simp add: ready_def evm_example_def funds_ok_def total_def implements_def env_ok_def env_example_def is_word_def)
qed

abbreviation call_example :: "(evm \<times> bytes option \<times> u64 \<times> vm_error option) outcome" where
  "call_example \<equiv> Call 2 env_example evm_example (AccountRef 1) 9 [] 100 0"

lemma call_example_fails:
  obtains w r where "call_example = Ret (w, r, 0, Some (ErrInvalidOpcode 0xfe))"
proof -
  have "case call_example of Ret (w, r, l, e) \<Rightarrow> l = 0 \<and> e = Some (ErrInvalidOpcode 0xfe) | _ \<Rightarrow> False"
    by code_simp
  then show ?thesis using that by (auto split: outcome.splits)
qed

theorem executions_terminate_witness:
  "\<exists>r. r \<noteq> NoFuel \<and> (\<forall>n > 100. Call n env_example evm_example (AccountRef 1) 9 [] 100 0 = r)"
  using executions_terminate [of env_example 100 evm_example "AccountRef 1" 9 "[]" 0] by simp

theorem leftover_gas_bounded_witness:
  "\<exists>w r e left. call_example = Ret (w, r, left, e) \<and> left \<le> 100"
  using call_example_fails leftover_gas_bounded [of env_example 2 evm_example "AccountRef 1" 9 "[]" 100 0] by (metis env_example_simps(2))


theorem executions_create_no_funds_witness:
  "\<exists>w r left e. call_example = Ret (w, r, left, e) \<and>
     (\<Sum>a\<in>UNIV. balance_of (view crypto_small (sdb w)) a) \<le> (\<Sum>a\<in>UNIV. balance_of (view crypto_small (sdb evm_example)) a)"
proof -
  obtain w r where c: "call_example = Ret (w, r, 0, Some (ErrInvalidOpcode 0xfe))" by (rule call_example_fails)
  then show ?thesis
    using executions_create_no_funds [OF ready_example, of "[]" 0 "AccountRef 1" 2 9 100 w]
    by (auto simp: ref_ok_def)
qed


end
