(* ===== verification/State_Transition.thy ===== *)
theory State_Transition
  imports Evm_Properties
begin

text \<open>
  State transitions (\<open>core/state_transition.go\<close>, \<open>core/gaspool.go\<close>): a message buys gas, pays its
  intrinsic gas, runs on the virtual machine, and the gas is settled with the sender, the miner and
  the block's gas pool. The lemmas follow the accounts of the view through these steps.
\<close>

section \<open>gaspool.go\<close>

type_synonym GasPool = int

datatype core_error = CoreVm vm_error | ErrInsufficientBalanceForGas | ErrGasLimitReached | ErrInvalidNonce u64 u64

definition AddGas :: "int \<Rightarrow> GasPool \<Rightarrow> GasPool" where
  "AddGas amount gp = gp + amount"

definition SubGas :: "int \<Rightarrow> GasPool \<Rightarrow> core_error + GasPool" where
  "SubGas amount gp = (if big_Cmp gp amount < 0 then Inl ErrGasLimitReached else Inr (gp - amount))"

section \<open>state_transition.go\<close>

record Message =
  From :: address
  To :: "address option"
  msg_GasPrice :: int
  msg_Gas :: int
  msg_Value :: int
  msg_Nonce :: u64
  CheckNonce :: bool
  msg_Data :: bytes

record StateTransition =
  st_gp :: GasPool
  st_msg :: Message
  st_gas :: u64
  st_gasPrice :: int
  st_initialGas :: int
  st_value :: int
  st_data :: bytes
  st_evm :: evm

definition IntrinsicGas :: "bytes \<Rightarrow> bool \<Rightarrow> bool \<Rightarrow> int" where
  "IntrinsicGas d contractCreation homestead =
     (let igas = (if contractCreation \<and> homestead then uint TxGasContractCreation else uint TxGas) in
      if length d > 0 then
        let nz = int (length (filter (\<lambda>byt. byt \<noteq> 0) d))
        in igas + nz * uint TxDataNonZeroGas + (int (length d) - nz) * uint TxDataZeroGas
      else igas)"

definition NewStateTransition :: "evm \<Rightarrow> Message \<Rightarrow> GasPool \<Rightarrow> StateTransition" where
  "NewStateTransition w msg gp =
     \<lparr>st_gp = gp, st_msg = msg, st_gas = 0, st_gasPrice = msg_GasPrice msg, st_initialGas = 0, st_value = msg_Value msg,
      st_data = msg_Data msg, st_evm = w\<rparr>"

abbreviation st_state :: "StateTransition \<Rightarrow> stateDB" where
  "st_state st \<equiv> sdb (st_evm st)"

definition with_state :: "stateDB \<Rightarrow> StateTransition \<Rightarrow> StateTransition" where
  "with_state s st = st\<lparr>st_evm := (st_evm st)\<lparr>sdb := s\<rparr>\<rparr>"

text \<open>The sender and the recipient are created when they do not exist.\<close>

definition ensure_account :: "crypto \<Rightarrow> address \<Rightarrow> StateTransition \<Rightarrow> StateTransition" where
  "ensure_account E a st =
     (let (ex, s1) = Exist E a (st_state st) in with_state (if \<not> ex then CreateAccount E a s1 else s1) st)"

definition st_from :: "crypto \<Rightarrow> StateTransition \<Rightarrow> address \<times> StateTransition" where
  "st_from E st = (let f = From (st_msg st) in (f, ensure_account E f st))"

definition st_to :: "crypto \<Rightarrow> StateTransition \<Rightarrow> address \<times> StateTransition" where
  "st_to E st = (case To (st_msg st) of None \<Rightarrow> (0, st) | Some a \<Rightarrow> (a, ensure_account E a st))"

definition useGas :: "u64 \<Rightarrow> StateTransition \<Rightarrow> core_error option \<times> StateTransition" where
  "useGas amount st =
     (if st_gas st < amount then (Some (CoreVm ErrOutOfGas), st) else (None, st\<lparr>st_gas := st_gas st - amount\<rparr>))"

definition buyGas :: "crypto \<Rightarrow> StateTransition \<Rightarrow> core_error option \<times> StateTransition" where
  "buyGas E st =
     (let mgas = msg_Gas (st_msg st) in
      if BitLen mgas > 64 then (Some (CoreVm ErrOutOfGas), st)
      else
        let mgval = mgas * st_gasPrice st;
            (sender, st1) = st_from E st;
            (bal, s1) = GetBalance E sender (st_state st1);
            st2 = with_state s1 st1
        in if big_Cmp bal mgval < 0 then (Some ErrInsufficientBalanceForGas, st2)
           else
             (case SubGas mgas (st_gp st2) of
                Inl err \<Rightarrow> (Some err, st2)
              | Inr gp1 \<Rightarrow>
                  let st3 = st2\<lparr>st_gp := gp1, st_gas := st_gas st2 + big_Uint64 mgas, st_initialGas := mgas\<rparr>
                  in (None, with_state (SubBalance E sender mgval (st_state st3)) st3)))"

definition preCheck :: "crypto \<Rightarrow> StateTransition \<Rightarrow> core_error option \<times> StateTransition" where
  "preCheck E st =
     (let msg = st_msg st; (sender, st1) = st_from E st in
      if CheckNonce msg then
        let (n, s1) = GetNonce E sender (st_state st1); st2 = with_state s1 st1
        in if n \<noteq> msg_Nonce msg then (Some (ErrInvalidNonce (msg_Nonce msg) n), st2) else buyGas E st2
      else buyGas E st1)"

definition gasUsed :: "StateTransition \<Rightarrow> int" where
  "gasUsed st = st_initialGas st - uint (st_gas st)"

text \<open>When the refund is the counter of the database itself, \<open>refund.Mul\<close> multiplies that counter
  in place, since \<open>BigMin\<close> and \<open>GetRefund\<close> hand out the pointer.\<close>

definition refundGas :: "crypto \<Rightarrow> StateTransition \<Rightarrow> StateTransition" where
  "refundGas E st =
     (let (sender, st1) = st_from E st;
          remaining = uint (st_gas st1) * st_gasPrice st1;
          st2 = with_state (AddBalance E sender remaining (st_state st1)) st1;
          uhalf = gasUsed st2 div 2;
          refund1 = BigMin uhalf (GetRefund (st_state st2));
          st3 = st2\<lparr>st_gas := st_gas st2 + big_Uint64 refund1\<rparr>;
          refund2 = refund1 * st_gasPrice st3;
          s3 = (if big_Cmp uhalf (GetRefund (st_state st3)) > 0 then (st_state st3)\<lparr>refund := refund2\<rparr> else st_state st3);
          st4 = with_state (AddBalance E sender refund2 s3) st3
      in st4\<lparr>st_gp := AddGas (uint (st_gas st4)) (st_gp st4)\<rparr>)"

text \<open>The part of \<open>TransitionDb\<close> that runs the virtual machine.\<close>

definition run_message :: "nat \<Rightarrow> evm_env \<Rightarrow> address \<Rightarrow> StateTransition \<Rightarrow>
    (StateTransition \<times> bytes option \<times> vm_error option) outcome" where
  "run_message n env sender st =
     (let E = hashing env in
      if To (st_msg st) = None then
        obind (Create n env (st_evm st) (AccountRef sender) (st_data st) (st_gas st) (st_value st))
          (\<lambda>(w, ret, _, gas, vmerr). Ret (st\<lparr>st_evm := w, st_gas := gas\<rparr>, ret, vmerr))
      else
        let (nonce, s1) = GetNonce E sender (st_state st);
            st1 = with_state (SetNonce E sender (nonce + 1) s1) st;
            (addr, st2) = st_to E st1
        in obind (Call n env (st_evm st2) (AccountRef sender) addr (st_data st2) (st_gas st2) (st_value st2))
             (\<lambda>(w, ret, gas, vmerr). Ret (st2\<lparr>st_evm := w, st_gas := gas\<rparr>, ret, vmerr)))"

definition TransitionDb :: "nat \<Rightarrow> evm_env \<Rightarrow> StateTransition \<Rightarrow>
    (StateTransition \<times> (core_error + bytes option \<times> int \<times> int)) outcome" where
  "TransitionDb n env st =
     (let E = hashing env; (err, st1) = preCheck E st in
      case err of
        Some e \<Rightarrow> Ret (st1, Inl e)
      | None \<Rightarrow>
          let (sender, st2) = st_from E st1;
              homestead = IsHomestead (chainConfig env) (block env);
              contractCreation = (To (st_msg st2) = None);
              intrinsicGas = IntrinsicGas (st_data st2) contractCreation homestead
          in if BitLen intrinsicGas > 64 then Ret (st2, Inl (CoreVm ErrOutOfGas))
             else
               (case useGas (big_Uint64 intrinsicGas) st2 of
                  (Some e, st3) \<Rightarrow> Ret (st3, Inl e)
                | (None, st3) \<Rightarrow>
                    obind (run_message n env sender st3) (\<lambda>(st4, ret, vmerr).
                      if vmerr = Some ErrInsufficientBalance then Ret (st4, Inl (CoreVm ErrInsufficientBalance))
                      else
                        let requiredGas = gasUsed st4;
                            st5 = refundGas E st4;
                            st6 = with_state (AddBalance E (Coinbase (ctxt env)) (gasUsed st5 * st_gasPrice st5) (st_state st5)) st5
                        in Ret (st6, Inr (ret, requiredGas, gasUsed st6)))))"

definition NewEVM :: "stateDB \<Rightarrow> evm" where
  "NewEVM s = \<lparr>sdb = s, depth = 0, dests = Map.empty, rounds = 0\<rparr>"

definition ApplyMessage :: "nat \<Rightarrow> evm_env \<Rightarrow> evm \<Rightarrow> Message \<Rightarrow> GasPool \<Rightarrow>
    (evm \<times> GasPool \<times> (core_error + bytes option \<times> int)) outcome" where
  "ApplyMessage n env w msg gp =
     obind (TransitionDb n env (NewStateTransition w msg gp)) (\<lambda>(st, r).
       Ret (st_evm st, st_gp st, case r of Inl e \<Rightarrow> Inl e | Inr (ret, _, used) \<Rightarrow> Inr (ret, used)))"

section \<open>Accounts of a view\<close>

text \<open>An account that does not exist and a new one hold the same: no funds, nonce 0, no code and no storage.\<close>

definition acct :: "crypto \<Rightarrow> view \<Rightarrow> address \<Rightarrow> aview" where
  "acct E v a = (case vw_accts v a of None \<Rightarrow> fresh_view E | Some x \<Rightarrow> x)"

definition same_rest :: "view \<Rightarrow> view \<Rightarrow> bool" where
  "same_rest v v' \<longleftrightarrow> vw_refund v' = vw_refund v \<and> vw_logs v' = vw_logs v \<and> vw_preimages v' = vw_preimages v"

lemma balance_acct: "balance_of v a = av_balance (acct E v a)"
  by (simp add: balance_of_def acct_def split: option.split)

lemma acct_vupd [simp]: "acct E (vupd E a f v) = (acct E v)(a := f (acct E v a))" "same_rest v (vupd E a f v)"
  by (simp_all add: fun_eq_iff acct_def vupd_def same_rest_def)

lemma same_rest_refl [simp]: "same_rest v v"
  by (simp add: same_rest_def)

lemma same_rest_trans: "same_rest u v \<Longrightarrow> same_rest v w \<Longrightarrow> same_rest u w"
  by (simp add: same_rest_def)

lemma acct_create: "vw_accts v a = None \<Longrightarrow> acct E (vCreateAccount E a v) = acct E v \<and> same_rest v (vCreateAccount E a v)"
  by (auto simp: fun_eq_iff acct_def vCreateAccount_def same_rest_def vupd_def split: option.split)

lemma fields_with_state [simp]:
  "st_state (with_state s st) = s" "st_gp (with_state s st) = st_gp st" "st_msg (with_state s st) = st_msg st"
  "st_gas (with_state s st) = st_gas st" "st_gasPrice (with_state s st) = st_gasPrice st"
  "st_initialGas (with_state s st) = st_initialGas st" "st_value (with_state s st) = st_value st"
  "st_data (with_state s st) = st_data st" "depth (st_evm (with_state s st)) = depth (st_evm st)"
  by (simp_all add: with_state_def)

lemma fields_ensure [simp]:
  "st_gp (ensure_account E a st) = st_gp st" "st_msg (ensure_account E a st) = st_msg st"
  "st_gas (ensure_account E a st) = st_gas st" "st_gasPrice (ensure_account E a st) = st_gasPrice st"
  "st_initialGas (ensure_account E a st) = st_initialGas st" "st_value (ensure_account E a st) = st_value st"
  "st_data (ensure_account E a st) = st_data st" "depth (st_evm (ensure_account E a st)) = depth (st_evm st)"
  by (simp_all add: ensure_account_def Let_def split_beta)

lemma fields_to [simp]:
  "st_gp (snd (st_to E st)) = st_gp st" "st_msg (snd (st_to E st)) = st_msg st"
  "st_gas (snd (st_to E st)) = st_gas st" "st_gasPrice (snd (st_to E st)) = st_gasPrice st"
  "st_initialGas (snd (st_to E st)) = st_initialGas st" "st_value (snd (st_to E st)) = st_value st"
  "st_data (snd (st_to E st)) = st_data st" "depth (st_evm (snd (st_to E st))) = depth (st_evm st)"
  by (simp_all add: st_to_def split: option.split)

lemma reached_ok: "reached E A s \<Longrightarrow> crypto_ok E" "reached E A s \<Longrightarrow> sdb_ok E s"
  by (auto simp: reached_def implements_def)

lemma Exist_view: "reached E A s \<Longrightarrow> fst (Exist E a s) \<longleftrightarrow> vw_accts (view E s) a \<noteq> None"
  using getStateObject_objs [of E s a "fst (getStateObject E a s)" "snd (getStateObject E a s)"] reached_ok(2) [of E A s]
  by (auto simp: Exist_def Let_def split_beta vw_accts_view sdb_ok_def)

lemma ensure_view:
  assumes "reached E A (st_state st)"
  shows "reached E A (st_state (ensure_account E a st))"
    "acct E (view E (st_state (ensure_account E a st))) = acct E (view E (st_state st))"
    "same_rest (view E (st_state st)) (view E (st_state (ensure_account E a st)))"
proof -
  let ?s1 = "snd (Exist E a (st_state st))"
  have r1: "reached E A ?s1" by (rule reached_getters(1) [OF assms])
  have v1: "view E ?s1 = view E (st_state st)" by (rule reads_view(3) [OF assms])
  have c: "view E (CreateAccount E a ?s1) = vCreateAccount E a (view E ?s1)"
    using CreateAccount_ext [OF reached_ok [OF r1]] by blast
  show "reached E A (st_state (ensure_account E a st))"
    using reached_setters(1) [OF r1] r1 by (simp add: ensure_account_def Let_def split_beta)
  show "acct E (view E (st_state (ensure_account E a st))) = acct E (view E (st_state st))"
    "same_rest (view E (st_state st)) (view E (st_state (ensure_account E a st)))"
    using Exist_view [OF assms, of a] acct_create [of "view E ?s1" a E] v1 c
    by (auto simp: ensure_account_def Let_def split_beta)
qed

section \<open>Buying gas\<close>

lemma small_Uint64: "0 \<le> x \<Longrightarrow> BitLen x \<le> 64 \<Longrightarrow> uint (big_Uint64 x) = x"
  by (simp add: uint_big_Uint64 BitLen_le)

lemma GetNonce_view:
  assumes "reached E A s"
  shows "fst (GetNonce E a s) = av_nonce (acct E (view E s) a)"
proof -
  obtain B where B: "implements E s B" using assms by (auto simp: reached_def)
  obtain r s' where g: "GetNonce E a s = (r, s')" by fastforce
  then have "db_step E (OpGetNonce a) s = Some (ONonce r, s')" by simp
  from simulates_SomeD [OF _ B this] obtain C where "ad_step E (OpGetNonce a) B = Some (ONonce r, C)"
    using assms by (auto simp: reached_def)
  then show ?thesis using B g by (auto simp: ad_get_def acct_def implements_def fresh_view_def split: option.splits)
qed

lemma reached_sub:
  assumes "reached E A s" "0 \<le> x" "x \<le> balance_of (view E s) a"
  obtains C where "reached E C (SubBalance E a x s)" "ad_view C = view E (SubBalance E a x s)"
proof -
  obtain B where B: "evolves E A B" "implements E s B" using assms(1) by (auto simp: reached_def)
  have E: "crypto_ok E" using assms(1) by (simp add: reached_def)
  have k: "snaps_ok B" "funds_ok (view E s)"
    using evolves_keeps [OF B(1)] assms(1) B(2) by (auto simp: reached_def later_def implements_def)
  obtain C where C: "ad_step E (OpSubBalance a x) B = Some (ODone, C)" "implements E (SubBalance E a x s) C"
    using simulates_SomeD [OF E B(2), of "OpSubBalance a x"] by auto
  have v: "ad_view C = vupd E a (\<lambda>y. y\<lparr>av_balance := av_balance y - x\<rparr>) (view E s)"
    using C(1) B(2) by (auto simp: ad_upd_def implements_def)
  have "snaps_ok C" using C(1) k(1) by (force simp: ad_upd_def snaps_ok_def)
  moreover have "funds_ok (ad_view C)"
    using k(2) assms(2,3) by (auto simp: v funds_ok_def balance_vadd total_vadd)
  ultimately have "reached E C (SubBalance E a x s)"
    using C(2) evolves_refl cache_setters(2) assms(1) E by (auto simp: reached_def)
  then show ?thesis using that C(2) by (simp add: implements_def)
qed

text \<open>What a purchase of gas does, and what it leaves alone.\<close>

definition same_job :: "StateTransition \<Rightarrow> StateTransition \<Rightarrow> bool" where
  "same_job st st' \<longleftrightarrow> st_msg st' = st_msg st \<and> st_gasPrice st' = st_gasPrice st \<and> st_value st' = st_value st \<and>
     st_data st' = st_data st \<and> depth (st_evm st') = depth (st_evm st)"

lemma same_job_refl [simp]: "same_job st st"
  by (simp add: same_job_def)

lemma same_job_trans: "same_job st st1 \<Longrightarrow> same_job st1 st2 \<Longrightarrow> same_job st st2"
  by (simp add: same_job_def)

definition price_of :: "StateTransition \<Rightarrow> int" where
  "price_of st = msg_Gas (st_msg st) * st_gasPrice st"

definition refused :: "crypto \<Rightarrow> adb \<Rightarrow> StateTransition \<Rightarrow> StateTransition \<Rightarrow> bool" where
  "refused E A st st' \<longleftrightarrow> same_job st st' \<and> reached E A (st_state st') \<and> st_gp st' = st_gp st \<and>
     acct E (view E (st_state st')) = acct E (view E (st_state st)) \<and> same_rest (view E (st_state st)) (view E (st_state st'))"

definition bought :: "crypto \<Rightarrow> StateTransition \<Rightarrow> StateTransition \<Rightarrow> bool" where
  "bought E st st' \<longleftrightarrow> same_job st st' \<and> (\<exists>B. reached E B (st_state st') \<and> ad_view B = view E (st_state st')) \<and>
     price_of st \<le> balance_of (view E (st_state st)) (From (st_msg st)) \<and> msg_Gas (st_msg st) \<le> st_gp st \<and>
     st_gp st' = st_gp st - msg_Gas (st_msg st) \<and> uint (st_gas st') = msg_Gas (st_msg st) \<and> st_initialGas st' = msg_Gas (st_msg st) \<and>
     acct E (view E (st_state st')) =
       (acct E (view E (st_state st)))(From (st_msg st) := (acct E (view E (st_state st)) (From (st_msg st)))
          \<lparr>av_balance := balance_of (view E (st_state st)) (From (st_msg st)) - price_of st\<rparr>) \<and>
     same_rest (view E (st_state st)) (view E (st_state st'))"

lemma refused_from:
  assumes "reached E A (st_state st)"
  shows "refused E A st (ensure_account E a st)"
  using ensure_view [OF assms] by (simp add: refused_def same_job_def)

lemma refused_read:
  assumes "refused E A st st1" "reached E A s1" "view E s1 = view E (st_state st1)"
  shows "refused E A st (with_state s1 st1)"
  using assms by (simp add: refused_def same_job_def)

lemma refused_trans: "refused E A st st1 \<Longrightarrow> refused E A st1 st2 \<Longrightarrow> refused E A st st2"
  by (auto simp: refused_def intro: same_job_trans same_rest_trans)

lemma refused_bought: "refused E A st st1 \<Longrightarrow> bought E st1 st2 \<Longrightarrow> bought E st st2"
  by (auto simp: refused_def bought_def price_of_def balance_acct [of _ _ E] same_job_def intro: same_rest_trans)

lemma buyGas_cases:
  assumes "reached E A (st_state st)" "0 \<le> msg_Gas (st_msg st)" "0 \<le> st_gasPrice st" "st_gas st = 0" "buyGas E st = (err, st')"
  shows "case err of
      None \<Rightarrow> bought E st st'
    | Some e \<Rightarrow> refused E A st st' \<and> e \<in> {CoreVm ErrOutOfGas, ErrInsufficientBalanceForGas, ErrGasLimitReached}"
proof -
  let ?a = "From (st_msg st)" and ?st1 = "ensure_account E (From (st_msg st)) st"
  have r1: "refused E A st ?st1" by (rule refused_from [OF assms(1)])
  then have q1: "reached E A (st_state ?st1)" by (simp add: refused_def)
  define s2 where "s2 = snd (GetBalance E ?a (st_state ?st1))"
  have q2: "reached E A s2" "view E s2 = view E (st_state ?st1)"
    using reached_getters(4) [OF q1] reads_view(1) [OF q1] by (simp_all add: s2_def)
  then have r2: "refused E A st (with_state s2 ?st1)" by (rule refused_read [OF r1])
  have b: "fst (GetBalance E ?a (st_state ?st1)) = balance_of (view E (st_state st)) ?a"
    using GetBalance_view [OF q1] r1 by (simp add: refused_def balance_acct [of _ _ E])
  have x: "0 \<le> price_of st" using assms(2,3) by (simp add: price_of_def)
  show ?thesis
  proof (cases err)
    case (Some e)
    then show ?thesis using assms(1,5) r2
      by (auto simp: buyGas_def st_from_def Let_def split_beta s2_def [symmetric] SubGas_def refused_def split: if_splits)
  next
    case None
    have c: "BitLen (msg_Gas (st_msg st)) \<le> 64" "price_of st \<le> balance_of (view E (st_state st)) ?a" "msg_Gas (st_msg st) \<le> st_gp st"
      using assms(5) None b
      by (auto simp: buyGas_def st_from_def Let_def split_beta SubGas_def price_of_def big_Cmp_def split: if_splits)
    then have "st' = with_state (SubBalance E ?a (price_of st) s2) (?st1\<lparr>st_gp := st_gp st - msg_Gas (st_msg st),
        st_gas := big_Uint64 (msg_Gas (st_msg st)), st_initialGas := msg_Gas (st_msg st)\<rparr>)"
      using assms(4,5) None b by (auto simp: buyGas_def st_from_def Let_def split_beta SubGas_def price_of_def s2_def with_state_def big_Cmp_def split: if_splits)
    moreover obtain B where "reached E B (SubBalance E ?a (price_of st) s2)" "ad_view B = view E (SubBalance E ?a (price_of st) s2)"
      by (rule reached_sub [OF q2(1) x]) (use c(2) q2(2) r1 in \<open>simp_all add: refused_def balance_acct [of _ _ E]\<close>)
    ultimately show ?thesis using None c r2 small_Uint64 [OF assms(2)] view_setters(2) [OF reached_ok [OF q2(1)]]
      by (auto simp: bought_def same_job_def refused_def balance_acct [of _ _ E] intro: same_rest_trans)
  qed
qed

lemma preCheck_cases:
  assumes "reached E A (st_state st)" "0 \<le> msg_Gas (st_msg st)" "0 \<le> st_gasPrice st" "st_gas st = 0" "preCheck E st = (err, st')"
  shows "case err of
      None \<Rightarrow> bought E st st' \<and> (CheckNonce (st_msg st) \<longrightarrow> av_nonce (acct E (view E (st_state st)) (From (st_msg st))) = msg_Nonce (st_msg st))
    | Some e \<Rightarrow> refused E A st st' \<and> (e \<in> {CoreVm ErrOutOfGas, ErrInsufficientBalanceForGas, ErrGasLimitReached} \<or>
        e = ErrInvalidNonce (msg_Nonce (st_msg st)) (av_nonce (acct E (view E (st_state st)) (From (st_msg st)))) \<and>
        av_nonce (acct E (view E (st_state st)) (From (st_msg st))) \<noteq> msg_Nonce (st_msg st))"
proof -
  let ?a = "From (st_msg st)" and ?st1 = "ensure_account E (From (st_msg st)) st"
  have r1: "refused E A st ?st1" by (rule refused_from [OF assms(1)])
  then have q1: "reached E A (st_state ?st1)" by (simp add: refused_def)
  define s2 where "s2 = snd (GetNonce E ?a (st_state ?st1))"
  have q2: "reached E A s2" "view E s2 = view E (st_state ?st1)"
    using reached_getters(6) [OF q1] reads_view(2) [OF q1] by (simp_all add: s2_def)
  then have r2: "refused E A st (with_state s2 ?st1)" by (rule refused_read [OF r1])
  have n: "fst (GetNonce E ?a (st_state ?st1)) = av_nonce (acct E (view E (st_state st)) ?a)"
    using GetNonce_view [OF q1] r1 by (simp add: refused_def)
  have g: "case err of None \<Rightarrow> bought E st st' | Some e \<Rightarrow> refused E A st st' \<and> e \<in> {CoreVm ErrOutOfGas, ErrInsufficientBalanceForGas, ErrGasLimitReached}"
    if "buyGas E st1 = (err, st')" "refused E A st st1" "st_gas st1 = 0" for st1
  proof -
    have "reached E A (st_state st1)" "0 \<le> msg_Gas (st_msg st1)" "0 \<le> st_gasPrice st1"
      using that(2) assms(2,3) by (auto simp: refused_def same_job_def)
    from buyGas_cases [OF this that(3,1)] show ?thesis
      using refused_trans [OF that(2)] refused_bought [OF that(2)] by (auto split: option.splits)
  qed
  show ?thesis
  proof (cases "CheckNonce (st_msg st)")
    case True
    then show ?thesis using assms(4,5) g [OF _ r2] r2 n
      by (auto simp: preCheck_def st_from_def Let_def split_beta s2_def split: if_splits option.splits)
  next
    case False
    then show ?thesis using assms(4,5) g [OF _ r1] by (auto simp: preCheck_def st_from_def Let_def split: option.splits)
  qed
qed

section \<open>Running the message\<close>

lemma Call_error_gas:
  assumes "evm_Call loop env w cl a i gas v = Ret (w', r, left, Some e)" "depth w = 0" "e \<noteq> ErrInsufficientBalance"
  shows "left = 0"
  using assms by (auto simp: evm_Call_def Let_def split_beta finish_call_def obind_eq UseGas_def params split: if_splits option.splits)

lemma Create_error_gas:
  assumes "evm_Create loop env w cl i gas v = Ret (w', r, a, left, Some e)" "depth w = 0" "e \<noteq> ErrInsufficientBalance"
    "e = ErrCodeStoreOutOfGas \<longrightarrow> IsHomestead (chainConfig env) (block env)"
  shows "left = 0"
  using assms by (auto simp: evm_Create_def Let_def split_beta finish_create_def obind_eq UseGas_def params split: if_splits option.splits)

definition message_ok :: "Message \<Rightarrow> bool" where
  "message_ok msg \<longleftrightarrow> 0 \<le> msg_GasPrice msg \<and> 0 \<le> msg_Gas msg \<and> is_word (msg_Value msg) \<and> length (msg_Data msg) < 2 ^ 64"

lemma run_message_returns:
  assumes "\<not> DisableGasMetering (vmConfig env)" "run_message n env a st = Ret (st', r, e)"
  shows "st_gas st' \<le> st_gas st" "st_gp st' = st_gp st" "st_initialGas st' = st_initialGas st"
    "st_msg st' = st_msg st" "st_gasPrice st' = st_gasPrice st"
proof -
  note l = sc_returnsD [OF subcalls_returns [OF run_loop_returns [OF assms(1)]]]
  have C: "g \<le> gas" if "Call n env w cl b i gas v = Ret (w1, r1, g, e1)" for w cl b i gas v w1 r1 g e1
    using l that by (auto simp: subcalls_of_def Call_def)
  have N: "g \<le> gas" if "Create n env w cl i gas v = Ret (w1, r1, b, g, e1)" for w cl b i gas v w1 r1 g e1
    using l that by (auto simp: subcalls_of_def Create_def)
  show "st_gas st' \<le> st_gas st"
    using assms(2) by (auto simp: run_message_def Let_def split_beta obind_eq dest!: C N split: if_splits)
  show "st_gp st' = st_gp st" "st_initialGas st' = st_initialGas st" "st_msg st' = st_msg st" "st_gasPrice st' = st_gasPrice st"
    using assms(2) by (auto simp: run_message_def Let_def split_beta obind_eq split: if_splits)
qed

lemma run_creation_safe:
  assumes "env_ok env" "reached (hashing env) B (st_state st)" "length (st_data st) < 2 ^ 64" "is_word (st_value st)"
    "run_message n env a st = Ret (st', r, e)" "To (st_msg st) = None"
  shows "reached (hashing env) B (st_state st')"
    "e = Some x \<Longrightarrow> x \<noteq> ErrInsufficientBalance \<Longrightarrow> depth (st_evm st) = 0 \<Longrightarrow>
      (x = ErrCodeStoreOutOfGas \<longrightarrow> IsHomestead (chainConfig env) (block env)) \<Longrightarrow>
      st_gas st' = 0 \<and> view (hashing env) (st_state st') =
        vupd (hashing env) a (\<lambda>y. y\<lparr>av_nonce := av_nonce y + 1\<rparr>) (view (hashing env) (st_state st))"
proof -
  obtain w addr gas where c: "evm_Create (run_loop n env) env (st_evm st) (AccountRef a) (st_data st) (st_gas st) (st_value st) =
      Ret (w, r, addr, gas, e)" and st': "st' = st\<lparr>st_evm := w, st_gas := gas\<rparr>"
    using assms(5,6) by (auto simp: run_message_def obind_eq Create_def)
  note s = evm_Create_safe [OF run_loop_safe [OF assms(1)] assms(2-4) c]
  show "reached (hashing env) B (st_state st')" using s(1) by (simp add: st')
  show "st_gas st' = 0 \<and> view (hashing env) (st_state st') =
      vupd (hashing env) a (\<lambda>y. y\<lparr>av_nonce := av_nonce y + 1\<rparr>) (view (hashing env) (st_state st))"
    if "e = Some x" "x \<noteq> ErrInsufficientBalance" "depth (st_evm st) = 0" "x = ErrCodeStoreOutOfGas \<longrightarrow> IsHomestead (chainConfig env) (block env)"
  proof -
    have "gas = 0" by (rule Create_error_gas [OF c [unfolded that(1)] that(3,2,4)])
    then show ?thesis using s(2) that by (auto simp: create_undone_def st' params)
  qed
qed

lemma run_call_safe:
  assumes "env_ok env" "reached (hashing env) B (st_state st)" "length (st_data st) < 2 ^ 64" "is_word (st_value st)"
    "run_message n env a st = Ret (st', r, e)" "To (st_msg st) = Some b"
  shows "reached (hashing env) B (st_state st')"
    "e = Some x \<Longrightarrow> x \<noteq> ErrInsufficientBalance \<Longrightarrow> depth (st_evm st) = 0 \<Longrightarrow>
      st_gas st' = 0 \<and> same_rest (view (hashing env) (st_state st)) (view (hashing env) (st_state st')) \<and>
      acct (hashing env) (view (hashing env) (st_state st')) = (acct (hashing env) (view (hashing env) (st_state st)))
        (a := (acct (hashing env) (view (hashing env) (st_state st)) a)
          \<lparr>av_nonce := av_nonce (acct (hashing env) (view (hashing env) (st_state st)) a) + 1\<rparr>)"
proof -
  let ?E = "hashing env" and ?n = "fst (GetNonce (hashing env) a (st_state st))" and ?s1 = "snd (GetNonce (hashing env) a (st_state st))"
  define st1 where "st1 = with_state (SetNonce ?E a (?n + 1) ?s1) st"
  define st2 where "st2 = ensure_account ?E b st1"
  obtain w gas where c: "evm_Call (run_loop n env) env (st_evm st2) (AccountRef a) b (st_data st2) (st_gas st2) (st_value st2) =
      Ret (w, r, gas, e)" and st': "st' = st2\<lparr>st_evm := w, st_gas := gas\<rparr>"
    using assms(5,6) by (auto simp: run_message_def obind_eq Call_def Let_def split_beta st_to_def st1_def st2_def)
  have q: "reached ?E B ?s1" "view ?E ?s1 = view ?E (st_state st)" using reached_getters(6) reads_view(2) assms(2) by auto
  have n: "?n = av_nonce (acct ?E (view ?E (st_state st)) a)" by (rule GetNonce_view [OF assms(2)])
  have v1: "view ?E (st_state st1) = vupd ?E a (\<lambda>y. y\<lparr>av_nonce := ?n + 1\<rparr>) (view ?E (st_state st))"
    using view_setters(4) [OF reached_ok [OF q(1)]] q(2) by (simp add: st1_def)
  have q1: "reached ?E B (st_state st1)" using reached_setters(3) [OF q(1)] by (simp add: st1_def)
  note e2 = ensure_view [OF q1, of b]
  have f: "length (st_data st2) < 2 ^ 64" "is_word (st_value st2)" "depth (st_evm st2) = depth (st_evm st)"
    using assms(3,4) by (simp_all add: st1_def st2_def)
  note s = evm_Call_safe [OF run_loop_safe [OF assms(1)] e2(1) f(1,2) [unfolded st2_def] c [unfolded st2_def]]
  show "reached ?E B (st_state st')" using s by (simp add: st')
  show "st_gas st' = 0 \<and> same_rest (view ?E (st_state st)) (view ?E (st_state st')) \<and>
      acct ?E (view ?E (st_state st')) = (acct ?E (view ?E (st_state st)))
        (a := (acct ?E (view ?E (st_state st)) a)\<lparr>av_nonce := av_nonce (acct ?E (view ?E (st_state st)) a) + 1\<rparr>)"
    if "e = Some x" "x \<noteq> ErrInsufficientBalance" "depth (st_evm st) = 0"
  proof -
    have "gas = 0" using Call_error_gas [OF c [unfolded that(1)] _ that(2)] f(3) that(3) by simp
    moreover have "view ?E (sdb w) = view ?E (st_state st2)" using s that(1) by (simp add: undone_def st2_def)
    moreover have "same_rest (view ?E (st_state st)) (view ?E (st_state st2))"
      using same_rest_trans [OF _ e2(3)] by (simp add: v1 st2_def)
    ultimately show ?thesis using e2(2) v1 n by (auto simp: st' st2_def)
  qed
qed

section \<open>Settling the account\<close>

lemma pay_view:
  assumes "crypto_ok E" "sdb_ok E s"
  shows "sdb_ok E (AddBalance E a x s)"
    "acct E (view E (AddBalance E a x s)) = (acct E (view E s))(a := (acct E (view E s) a)\<lparr>av_balance := balance_of (view E s) a + x\<rparr>)"
    "same_rest (view E s) (view E (AddBalance E a x s))"
  using ext_setters(1) [OF assms] by (simp_all add: view_setters(1) [OF assms] ext_def balance_acct [of _ _ E])

lemma set_refund_view:
  "view E (s\<lparr>refund := g\<rparr>) = (view E s)\<lparr>vw_refund := g\<rparr>"
  "sdb_ok E (s\<lparr>refund := g\<rparr>) = sdb_ok E s"
  by (simp_all add: view_def GetLogs_def lookup_cong [of "s\<lparr>refund := g\<rparr>" s] sdb_ok_def objs_ok_def revs_ok_def)

lemma acct_refund [simp]: "acct E (v\<lparr>vw_refund := g\<rparr>) = acct E v" "balance_of (v\<lparr>vw_refund := g\<rparr>) = balance_of v"
  by (simp_all add: acct_def fun_eq_iff)

definition same_logs :: "view \<Rightarrow> view \<Rightarrow> bool" where
  "same_logs v v' \<longleftrightarrow> vw_logs v' = vw_logs v \<and> vw_preimages v' = vw_preimages v"

lemma same_logsI: "same_rest v v' \<Longrightarrow> same_logs v v'"
  by (simp add: same_rest_def same_logs_def)

text \<open>The refund of a transition: at most half of the gas that was used.\<close>

definition refund_of :: "crypto \<Rightarrow> StateTransition \<Rightarrow> int" where
  "refund_of E st = min (gasUsed st div 2) (vw_refund (view E (st_state st)))"

definition credit :: "crypto \<Rightarrow> address \<Rightarrow> int \<Rightarrow> view \<Rightarrow> address \<Rightarrow> aview" where
  "credit E a x v = (acct E v)(a := (acct E v a)\<lparr>av_balance := balance_of v a + x\<rparr>)"

lemma refundGas_effect:
  assumes "reached E B (st_state st)" "uint (st_gas st) \<le> st_initialGas st" "st_initialGas st < 2 ^ 64"
  shows "0 \<le> refund_of E st"
    "sdb_ok E (st_state (refundGas E st))"
    "acct E (view E (st_state (refundGas E st))) =
       credit E (From (st_msg st)) ((uint (st_gas st) + refund_of E st) * st_gasPrice st) (view E (st_state st))"
    "same_logs (view E (st_state st)) (view E (st_state (refundGas E st)))"
    "uint (st_gas (refundGas E st)) = uint (st_gas st) + refund_of E st"
    "st_gp (refundGas E st) = st_gp st + uint (st_gas st) + refund_of E st"
    "st_initialGas (refundGas E st) = st_initialGas st" "st_gasPrice (refundGas E st) = st_gasPrice st"
proof -
  let ?a = "From (st_msg st)" and ?v = "view E (st_state st)"
  define st1 where "st1 = ensure_account E ?a st"
  define s2 where "s2 = AddBalance E ?a (uint (st_gas st) * st_gasPrice st) (st_state st1)"
  define r where "r = refund_of E st"
  define s3 where "s3 = (if big_Cmp (gasUsed st div 2) (refund s2) > 0 then s2\<lparr>refund := r * st_gasPrice st\<rparr> else s2)"
  define s4 where "s4 = AddBalance E ?a (r * st_gasPrice st) s3"
  have E: "crypto_ok E" by (rule reached_ok(1) [OF assms(1)])
  note e1 = ensure_view [OF assms(1), of ?a, folded st1_def]
  have v1: "sdb_ok E (st_state st1)" "balance_of (view E (st_state st1)) ?a = balance_of ?v ?a"
    using reached_ok(2) [OF e1(1)] e1(2) by (simp_all add: balance_acct [of _ _ E])
  note p2 = pay_view [OF E v1(1), of ?a "uint (st_gas st) * st_gasPrice st", folded s2_def]
  have rf: "refund s2 = vw_refund ?v" using e1(3) p2(3) by (auto simp: same_rest_def view_def)
  have s3: "sdb_ok E s3" "acct E (view E s3) = acct E (view E s2)" "same_logs (view E s2) (view E s3)"
    using p2(1) by (auto simp: s3_def set_refund_view same_logs_def)
  note p4 = pay_view [OF E s3(1), of ?a "r * st_gasPrice st", folded s4_def]
  have r: "BigMin (gasUsed st div 2) (vw_refund ?v) = r" by (simp add: r_def refund_of_def BigMin_def big_Cmp_def)
  have res: "refundGas E st = (with_state s4 st1)\<lparr>st_gas := st_gas st + big_Uint64 r, st_gp := AddGas (uint (st_gas st + big_Uint64 r)) (st_gp st)\<rparr>"
    using r rf by (simp add: refundGas_def st_from_def Let_def GetRefund_def gasUsed_def with_state_def s4_def s3_def s2_def st1_def)
  show "0 \<le> refund_of E st"
    using assms(2) reached_funds(1) [OF assms(1)] by (simp add: refund_of_def gasUsed_def funds_ok_def)
  moreover have "r \<le> st_initialGas st - uint (st_gas st)" using assms(2) by (simp add: r_def refund_of_def gasUsed_def)
  ultimately have b: "0 \<le> r" "uint (st_gas st) + r < 2 ^ 64" "r < 2 ^ 64"
    using assms(2,3) uint_ge_0 [of "st_gas st"] unfolding r_def by linarith+
  have g: "uint (st_gas st + big_Uint64 r) = uint (st_gas st) + r"
    using b by (simp add: uint_word_ariths uint_big_Uint64 del: uint_word_of_int)
  then show "uint (st_gas (refundGas E st)) = uint (st_gas st) + refund_of E st"
    "st_gp (refundGas E st) = st_gp st + uint (st_gas st) + refund_of E st"
    "st_initialGas (refundGas E st) = st_initialGas st" "st_gasPrice (refundGas E st) = st_gasPrice st"
    by (simp_all add: res AddGas_def r_def st1_def)
  show "sdb_ok E (st_state (refundGas E st))" using p4(1) by (simp add: res)
  show "acct E (view E (st_state (refundGas E st))) = credit E ?a ((uint (st_gas st) + refund_of E st) * st_gasPrice st) ?v"
    using p4(2) s3(2) p2(2) e1(2) v1(2) by (simp add: res credit_def balance_acct [of _ _ E] r_def algebra_simps)
  show "same_logs ?v (view E (st_state (refundGas E st)))"
    using p4(3) s3(3) p2(3) e1(3) by (simp add: res same_logs_def same_rest_def)
qed

section \<open>The transition as a whole\<close>

lemma balance_eqI: "acct E v' = acct E v \<Longrightarrow> balance_of v' = balance_of v"
  by (simp add: fun_eq_iff balance_acct [of _ _ E])

lemma broke_balances:
  assumes "env_ok env" "reached (hashing env) B (st_state st)" "length (st_data st) < 2 ^ 64" "is_word (st_value st)"
    "run_message n env a st = Ret (st', r, Some ErrInsufficientBalance)"
  shows "balance_of (view (hashing env) (st_state st')) = balance_of (view (hashing env) (st_state st))"
proof (cases "To (st_msg st)")
  case None
  obtain w addr gas where c: "evm_Create (run_loop n env) env (st_evm st) (AccountRef a) (st_data st) (st_gas st) (st_value st) =
      Ret (w, r, addr, gas, Some ErrInsufficientBalance)" and st': "st' = st\<lparr>st_evm := w, st_gas := gas\<rparr>"
    using assms(5) None by (auto simp: run_message_def obind_eq Create_def)
  from evm_Create_safe(2) [OF run_loop_safe [OF assms(1)] assms(2-4) c] show ?thesis by (auto simp: create_undone_def st')
next
  case (Some b)
  let ?E = "hashing env" and ?n = "fst (GetNonce (hashing env) a (st_state st))" and ?s1 = "snd (GetNonce (hashing env) a (st_state st))"
  define st1 where "st1 = with_state (SetNonce ?E a (?n + 1) ?s1) st"
  obtain w gas where c: "evm_Call (run_loop n env) env (st_evm (ensure_account ?E b st1)) (AccountRef a) b (st_data st) (st_gas st) (st_value st) =
      Ret (w, r, gas, Some ErrInsufficientBalance)" and st': "st_state st' = sdb w"
    using assms(5) Some by (auto simp: run_message_def obind_eq Call_def Let_def split_beta st_to_def st1_def)
  have q: "reached ?E B ?s1" "balance_of (view ?E ?s1) = balance_of (view ?E (st_state st))" using reached_getters(6,7) assms(2) by auto
  have q1: "reached ?E B (st_state st1)" "balance_of (view ?E (st_state st1)) = balance_of (view ?E (st_state st))"
    using reached_setters(3,4) [OF q(1)] q(2) by (simp_all add: st1_def)
  note e2 = ensure_view [OF q1(1), of b]
  have "balance_of (view ?E (st_state (ensure_account ?E b st1))) = balance_of (view ?E (st_state st))"
    using balance_eqI [OF e2(2)] q1(2) by simp
  with evm_Call_safe [OF run_loop_safe [OF assms(1)] e2(1) assms(3,4) c] show ?thesis by (simp add: undone_def st')
qed

lemma run_message_reached:
  assumes "env_ok env" "reached (hashing env) B (st_state st)" "length (st_data st) < 2 ^ 64" "is_word (st_value st)"
    "run_message n env a st = Ret (st', r, e)"
  shows "reached (hashing env) B (st_state st')"
  using run_creation_safe(1) [OF assms] run_call_safe(1) [OF assms] by (cases "To (st_msg st)") auto

lemma bought_from:
  assumes "bought E st st1"
  shows "bought E st (ensure_account E a st1)"
proof -
  obtain B where B: "reached E B (st_state st1)" "ad_view B = view E (st_state st1)" using assms by (auto simp: bought_def)
  note e = ensure_view [OF B(1), of a]
  have "funds_ok (view E (st_state (ensure_account E a st1)))" by (rule reached_funds(1) [OF e(1)])
  moreover obtain C where C: "implements E (st_state (ensure_account E a st1)) C" "evolves E B C" using e(1) by (auto simp: reached_def)
  moreover have "snaps_ok C" using evolves_keeps [OF C(2)] B(1) by (simp add: reached_def later_def)
  ultimately have "reached E C (st_state (ensure_account E a st1))" "ad_view C = view E (st_state (ensure_account E a st1))"
    using e(1) evolves_refl by (auto simp: reached_def implements_def)
  then show ?thesis using assms e(2,3) by (auto simp: bought_def same_job_def intro: same_rest_trans)
qed

text \<open>The ways a transition can go: refused before anything is paid, not enough gas for the
  message itself, not enough funds for the value, or executed.\<close>

lemma TransitionDb_cases:
  assumes "reached (hashing env) A (st_state st)" "0 \<le> msg_Gas (st_msg st)" "0 \<le> st_gasPrice st" "st_gas st = 0"
    "TransitionDb n env st = Ret (st', res)"
  defines "E \<equiv> hashing env" and "ig \<equiv> IntrinsicGas (st_data st) (To (st_msg st) = None) (IsHomestead (chainConfig env) (block env))"
  obtains (refused) e where "res = Inl e" "preCheck E st = (Some e, st')"
  | (unpaid) st2 where "bought E st st2" "msg_Gas (st_msg st) < ig" "res = Inl (CoreVm ErrOutOfGas)" "st' = st2"
  | (broke) st2 r where "bought E st st2" "ig \<le> msg_Gas (st_msg st)"
      "run_message n env (From (st_msg st)) (st2\<lparr>st_gas := st_gas st2 - big_Uint64 ig\<rparr>) = Ret (st', r, Some ErrInsufficientBalance)"
      "res = Inl (CoreVm ErrInsufficientBalance)"
  | (executed) st2 st4 r e where "bought E st st2" "ig \<le> msg_Gas (st_msg st)"
      "run_message n env (From (st_msg st)) (st2\<lparr>st_gas := st_gas st2 - big_Uint64 ig\<rparr>) = Ret (st4, r, e)" "e \<noteq> Some ErrInsufficientBalance"
      "st' = with_state (AddBalance E (Coinbase (ctxt env)) (gasUsed (refundGas E st4) * st_gasPrice (refundGas E st4)) (st_state (refundGas E st4)))
         (refundGas E st4)" "res = Inr (r, gasUsed st4, gasUsed st')"
proof -
  have ig0: "0 \<le> ig" by (auto simp: ig_def IntrinsicGas_def Let_def params)
  obtain err st1 where p: "preCheck E st = (err, st1)" by fastforce
  note pc = preCheck_cases [OF assms(1-4) p [unfolded E_def]]
  show ?thesis
  proof (cases err)
    case (Some e)
    then show ?thesis using p assms(5) by (auto simp: TransitionDb_def Let_def E_def intro: refused)
  next
    case None
    define st2 where "st2 = ensure_account E (From (st_msg st1)) st1"
    have b1: "bought E st st1" using pc None by (simp add: E_def)
    then have b2: "bought E st st2" unfolding st2_def by (rule bought_from)
    then have j: "st_data st2 = st_data st" "st_msg st2 = st_msg st" "st_gasPrice st2 = st_gasPrice st" "uint (st_gas st2) = msg_Gas (st_msg st)"
      by (auto simp: bought_def same_job_def)
    have m: "st_msg st1 = st_msg st" "st_data st1 = st_data st" using b1 by (simp_all add: bought_def same_job_def)
    note t = assms(5) [unfolded TransitionDb_def Let_def, folded E_def, unfolded p None st_from_def Let_def, simplified, folded st2_def,
        unfolded j m, folded ig_def]
    consider "64 < BitLen ig" | "BitLen ig \<le> 64" "st_gas st2 < big_Uint64 ig" | "BitLen ig \<le> 64" "\<not> st_gas st2 < big_Uint64 ig" by linarith
    then show ?thesis
    proof cases
      case 1
      then have "msg_Gas (st_msg st) < ig" using j(4) uint_lt2p [of "st_gas st2"] ig0 by (simp add: BitLen_gt)
      then show ?thesis using t 1 b2 by (intro unpaid) auto
    next
      case 2
      then have "msg_Gas (st_msg st) < ig" using j(4) small_Uint64 [OF ig0] by (simp add: word_less_def)
      then show ?thesis using t 2 b2 by (intro unpaid) (auto simp: useGas_def)
    next
      case 3
      then have l: "ig \<le> msg_Gas (st_msg st)" using j(4) small_Uint64 [OF ig0] by (simp add: word_less_def)
      let ?st3 = "st2\<lparr>st_gas := st_gas st2 - big_Uint64 ig\<rparr>"
      obtain st4 r e where rm: "run_message n env (From (st_msg st)) ?st3 = Ret (st4, r, e)"
        using t 3 by (auto simp: useGas_def obind_eq)
      show ?thesis
      proof (cases "e = Some ErrInsufficientBalance")
        case True
        then show ?thesis using t 3 rm by (intro broke [OF b2 l, of r]) (auto simp: useGas_def)
      next
        case False
        then show ?thesis using t 3 rm by (intro executed [OF b2 l rm]) (auto simp: useGas_def gasUsed_def)
      qed
    qed
  qed
qed

definition start_of :: "stateDB \<Rightarrow> Message \<Rightarrow> GasPool \<Rightarrow> StateTransition" where
  "start_of s msg gp = NewStateTransition (NewEVM s) msg gp"

lemma start_simps [simp]:
  "st_state (start_of s msg gp) = s" "st_msg (start_of s msg gp) = msg" "st_gp (start_of s msg gp) = gp"
  "st_gas (start_of s msg gp) = 0" "st_gasPrice (start_of s msg gp) = msg_GasPrice msg" "st_data (start_of s msg gp) = msg_Data msg"
  "st_value (start_of s msg gp) = msg_Value msg" "depth (st_evm (start_of s msg gp)) = 0"
  by (simp_all add: start_of_def NewStateTransition_def NewEVM_def)

lemma start_reached:
  assumes "ready env (NewEVM s)"
  shows "reached (hashing env) (initial (hashing env) s) (st_state (start_of s msg gp))" "env_ok env"
  using ready_reached [OF assms] assms by (simp_all add: NewEVM_def ready_def)

lemma Intrinsic_pos: "0 < IntrinsicGas d c h"
  by (auto simp: IntrinsicGas_def Let_def params)

text \<open>What an executed message leaves: its gas, and the accounts to settle.\<close>

lemma executed_gas:
  assumes "\<not> DisableGasMetering (vmConfig env)" "message_ok msg" "bought E (start_of s msg gp) st2" "0 \<le> ig" "ig \<le> msg_Gas msg"
    "run_message n env a (st2\<lparr>st_gas := st_gas st2 - big_Uint64 ig\<rparr>) = Ret (st4, r, e)"
  shows "uint (st_gas st4) \<le> msg_Gas msg - ig" "st_initialGas st4 = msg_Gas msg" "st_gp st4 = gp - msg_Gas msg" "msg_Gas msg < 2 ^ 64"
    "st_msg st4 = msg" "st_gasPrice st4 = msg_GasPrice msg"
proof -
  note rm = run_message_returns [OF assms(1,6)]
  have b: "uint (st_gas st2) = msg_Gas msg" "st_initialGas st2 = msg_Gas msg" "st_gp st2 = gp - msg_Gas msg" "st_msg st2 = msg"
    "st_gasPrice st2 = msg_GasPrice msg"
    using assms(3) by (simp_all add: bought_def same_job_def)
  then show m: "msg_Gas msg < 2 ^ 64" using uint_lt2p [of "st_gas st2"] by simp
  then have "uint (big_Uint64 ig) = ig" using assms(4,5) by (simp add: uint_big_Uint64)
  then have "uint (st_gas st2 - big_Uint64 ig) = msg_Gas msg - ig" using b(1) assms(5) by (simp add: uint_sub_lem [THEN iffD1])
  then show "uint (st_gas st4) \<le> msg_Gas msg - ig" using rm(1) by (simp add: word_le_def)
  show "st_initialGas st4 = msg_Gas msg" "st_gp st4 = gp - msg_Gas msg" "st_msg st4 = msg" "st_gasPrice st4 = msg_GasPrice msg"
    using rm(2-) b by simp_all
qed

lemma bought_run:
  assumes "message_ok msg" "env_ok env" "bought (hashing env) (start_of s msg gp) st2"
    "run_message n env a (st2\<lparr>st_gas := g\<rparr>) = Ret (st4, r, e)"
  obtains B where "reached (hashing env) B (st_state st4)" "reached (hashing env) B (st_state st2)" "ad_view B = view (hashing env) (st_state st2)"
proof -
  obtain B where B: "reached (hashing env) B (st_state st2)" "ad_view B = view (hashing env) (st_state st2)"
    using assms(3) by (auto simp: bought_def)
  moreover have "reached (hashing env) B (st_state st4)"
    by (rule run_message_reached [OF assms(2) _ _ _ assms(4)]) (use assms(1,3) B in \<open>simp_all add: bought_def same_job_def message_ok_def\<close>)
  ultimately show ?thesis using that by blast
qed

end
