(* ===== verification/Transition_Properties.thy ===== *)
theory Transition_Properties
  imports State_Transition
begin

text \<open>
  What transactions do as a whole: gas accounting, funds, rejection, failed executions and
  termination, with a concrete transaction for each.
\<close>

section \<open>Gas\<close>

text \<open>C7. Gas accounting of an executed transaction: the gas it required is at least its intrinsic gas
  and at most its limit, the refund takes off at most half of it, and the block's gas pool goes down
  by exactly the gas that is finally used; no 64-bit step wraps.\<close>

theorem transition_gas:
  assumes "ready env (NewEVM s)" "message_ok msg" "\<not> DisableGasMetering (vmConfig env)"
    and "TransitionDb n env (start_of s msg gp) = Ret (st', Inr (ret, required, used))"
  shows "IntrinsicGas (msg_Data msg) (To msg = None) (IsHomestead (chainConfig env) (block env)) \<le> required \<and>
    required \<le> msg_Gas msg \<and> used \<le> required \<and> required \<le> 2 * used \<and> st_gp st' = gp - used"
proof -
  have m: "0 \<le> msg_Gas msg" "0 \<le> msg_GasPrice msg" using assms(2) by (simp_all add: message_ok_def)
  show ?thesis
  proof (rule TransitionDb_cases [OF start_reached(1) [OF assms(1)] _ _ _ assms(4)], simp_all add: m)
    fix st2 st4 e
    let ?E = "hashing env" and ?ig = "IntrinsicGas (msg_Data msg) (To msg = None) (IsHomestead (chainConfig env) (block env))"
    assume b: "bought ?E (start_of s msg gp) st2" and ig: "?ig \<le> msg_Gas msg"
      and rm: "run_message n env (From msg) (st2\<lparr>st_gas := st_gas st2 - big_Uint64 ?ig\<rparr>) = Ret (st4, ret, e)"
    note g = executed_gas [OF assms(3,2) b less_imp_le [OF Intrinsic_pos] ig rm]
    obtain B where B: "reached ?E B (st_state st4)" by (rule bought_run [OF assms(2) start_reached(2) [OF assms(1)] b rm])
    have le: "uint (st_gas st4) \<le> st_initialGas st4" "st_initialGas st4 < 2 ^ 64"
      using g Intrinsic_pos [of "msg_Data msg" "To msg = None" "IsHomestead (chainConfig env) (block env)"] by simp_all
    note rf = refundGas_effect [OF B le]
    have "refund_of ?E st4 \<le> gasUsed st4 div 2" by (simp add: refund_of_def)
    then show "?ig \<le> gasUsed st4 \<and> gasUsed st4 \<le> msg_Gas msg \<and> gasUsed (with_state x (refundGas ?E st4)) \<le> gasUsed st4 \<and>
        gasUsed st4 \<le> 2 * gasUsed (with_state x (refundGas ?E st4)) \<and>
        st_gp (refundGas ?E st4) = gp - gasUsed (with_state x (refundGas ?E st4))" for x
      using rf g le(1) by (simp add: gasUsed_def)
  qed
qed

lemma credit_balance:
  assumes "acct E v' = credit E a x v"
  shows "balance_of v' c = balance_of v c + (if c = a then x else 0)" "total v' = total v + x"
proof -
  show b: "balance_of v' c = balance_of v c + (if c = a then x else 0)" for c
    using assms by (simp add: balance_acct [of _ _ E] credit_def)
  show "total v' = total v + x" by (subst total_point [where a = a and v = v]) (simp_all add: b)
qed

lemma bought_debit:
  assumes "bought E st st2"
  shows "acct E (view E (st_state st2)) = credit E (From (st_msg st)) (- price_of st) (view E (st_state st))"
  using assms by (simp add: bought_def credit_def)

text \<open>Settling: the sender gets the gas that is left and the refund back, the miner the rest.\<close>

definition settled_with :: "crypto \<Rightarrow> address \<Rightarrow> StateTransition \<Rightarrow> StateTransition" where
  "settled_with E miner st =
     with_state (AddBalance E miner (gasUsed (refundGas E st) * st_gasPrice (refundGas E st)) (st_state (refundGas E st))) (refundGas E st)"

lemma settled_effect:
  assumes "reached E B (st_state st)" "uint (st_gas st) \<le> st_initialGas st" "st_initialGas st < 2 ^ 64"
  defines "k \<equiv> uint (st_gas st) + refund_of E st"
  shows "sdb_ok E (st_state (settled_with E miner st))"
    "\<exists>v1. acct E v1 = credit E (From (st_msg st)) (k * st_gasPrice st) (view E (st_state st)) \<and>
      acct E (view E (st_state (settled_with E miner st))) = credit E miner ((st_initialGas st - k) * st_gasPrice st) v1 \<and>
      same_logs (view E (st_state st)) (view E (st_state (settled_with E miner st)))"
    "k \<le> st_initialGas st" "0 \<le> k"
proof -
  note rf = refundGas_effect [OF assms(1-3)]
  note p = pay_view [OF reached_ok(1) [OF assms(1)] rf(2), of miner "gasUsed (refundGas E st) * st_gasPrice (refundGas E st)"]
  have g: "gasUsed (refundGas E st) = st_initialGas st - k" using rf by (simp add: gasUsed_def k_def)
  show "sdb_ok E (st_state (settled_with E miner st))" using p(1) by (simp add: settled_with_def)
  show "\<exists>v1. acct E v1 = credit E (From (st_msg st)) (k * st_gasPrice st) (view E (st_state st)) \<and>
      acct E (view E (st_state (settled_with E miner st))) = credit E miner ((st_initialGas st - k) * st_gasPrice st) v1 \<and>
      same_logs (view E (st_state st)) (view E (st_state (settled_with E miner st)))"
    using p(2,3) rf(3,4) g rf(8)
    by (intro exI [of _ "view E (st_state (refundGas E st))"])
      (simp add: settled_with_def credit_def k_def same_logs_def same_rest_def)
  show "k \<le> st_initialGas st" using assms(2) by (simp add: k_def refund_of_def gasUsed_def)
  show "0 \<le> k" using rf(1) by (simp add: k_def)
qed

lemma executed_settled:
  assumes "\<not> DisableGasMetering (vmConfig env)" "env_ok env" "message_ok msg" "bought (hashing env) (start_of s msg gp) st2" "0 < ig" "ig \<le> msg_Gas msg"
    "run_message n env (From msg) (st2\<lparr>st_gas := st_gas st2 - big_Uint64 ig\<rparr>) = Ret (st4, r, e)"
  obtains B v1 k where "reached (hashing env) B (st_state st4)" "ad_view B = view (hashing env) (st_state st2)"
    "0 \<le> k" "k \<le> msg_Gas msg" "k = uint (st_gas st4) + refund_of (hashing env) st4"
    "acct (hashing env) v1 = credit (hashing env) (From msg) (k * msg_GasPrice msg) (view (hashing env) (st_state st4))"
    "acct (hashing env) (view (hashing env) (st_state (settled_with (hashing env) miner st4))) =
       credit (hashing env) miner ((msg_Gas msg - k) * msg_GasPrice msg) v1"
    "same_logs (view (hashing env) (st_state st4)) (view (hashing env) (st_state (settled_with (hashing env) miner st4)))"
proof -
  obtain B where B: "reached (hashing env) B (st_state st4)" "ad_view B = view (hashing env) (st_state st2)"
    using assms(7) by (rule bought_run [OF assms(3,2,4)])
  note g = executed_gas [OF assms(1,3,4) less_imp_le [OF assms(5)] assms(6,7)]
  have le: "uint (st_gas st4) \<le> st_initialGas st4" "st_initialGas st4 < 2 ^ 64" using g assms(5) by simp_all
  note s = settled_effect(3,4) [OF B(1) le]
  from settled_effect(2) [OF B(1) le, of miner] obtain v1 where v1: "acct (hashing env) v1 = credit (hashing env) (From msg)
        ((uint (st_gas st4) + refund_of (hashing env) st4) * msg_GasPrice msg) (view (hashing env) (st_state st4))"
      "acct (hashing env) (view (hashing env) (st_state (settled_with (hashing env) miner st4))) =
       credit (hashing env) miner ((msg_Gas msg - (uint (st_gas st4) + refund_of (hashing env) st4)) * msg_GasPrice msg) v1"
      "same_logs (view (hashing env) (st_state st4)) (view (hashing env) (st_state (settled_with (hashing env) miner st4)))"
    unfolding g(2,5,6) by blast
  show ?thesis by (rule that [OF B s(2) s(1) [unfolded g(2)] refl v1])
qed

lemmas transition_cases [consumes 4, case_names refused unpaid broke executed] = TransitionDb_cases [where st = "start_of s msg gp" for s msg gp, simplified]

text \<open>C6. A transaction creates no funds, whether it is refused, rejected late or executed: gas that
  was bought is either given back to the sender or paid to the miner, no balance becomes negative,
  and the sum of all balances does not grow.\<close>

theorem transition_creates_no_funds:
  assumes "ready env (NewEVM s)" "message_ok msg" "\<not> DisableGasMetering (vmConfig env)"
    and "TransitionDb n env (start_of s msg gp) = Ret (st', res)"
  shows "(\<Sum>a\<in>UNIV. balance_of (view (hashing env) (st_state st')) a) \<le> (\<Sum>a\<in>UNIV. balance_of (view (hashing env) s) a) \<and>
    (\<forall>a. 0 \<le> balance_of (view (hashing env) (st_state st')) a)"
proof -
  let ?E = "hashing env" and ?v = "view (hashing env) s" and ?st = "start_of s msg gp"
  have m: "0 \<le> msg_Gas msg" "0 \<le> msg_GasPrice msg" using assms(2) by (simp_all add: message_ok_def)
  note r0 = start_reached(1) [OF assms(1), simplified] start_reached(2) [OF assms(1)]
  have ok: "total v' \<le> total ?v \<and> (\<forall>a. 0 \<le> balance_of v' a)"
    if "reached ?E B s'" "total (ad_view B) \<le> total ?v" "v' = view ?E s'" for B s' v'
    using reached_funds [OF that(1)] that(2,3) by (simp add: funds_ok_def)
  have p: "0 \<le> price_of ?st" using m by (simp add: price_of_def)
  from r0(1) m assms(4) have "total (view ?E (st_state st')) \<le> total ?v \<and> (\<forall>a. 0 \<le> balance_of (view ?E (st_state st')) a)"
  proof (cases rule: transition_cases)
    case (refused e)
    then have "reached ?E (initial ?E s) (st_state st')"
      using preCheck_cases [of ?E "initial ?E s" ?st "Some e" st'] r0(1) m by (simp add: refused_def)
    then show ?thesis by (rule ok) simp_all
  next
    case (unpaid st2)
    obtain B where "reached ?E B (st_state st2)" "ad_view B = view ?E (st_state st2)" using unpaid(1) by (auto simp: bought_def)
    then show ?thesis using credit_balance(2) [OF bought_debit [OF unpaid(1)]] p unpaid(4) by (intro ok) auto
  next
    case (broke st2 r)
    obtain B where "reached ?E B (st_state st')" "ad_view B = view ?E (st_state st2)"
      using broke(3) by (rule bought_run [OF assms(2) r0(2) broke(1)])
    then show ?thesis using credit_balance(2) [OF bought_debit [OF broke(1)]] p by (intro ok) auto
  next
    case (executed st2 st4 r e)
    have st': "st' = settled_with ?E (Coinbase (ctxt env)) st4" using executed(5) by (simp add: settled_with_def)
    obtain B v1 k where B: "reached ?E B (st_state st4)" "ad_view B = view ?E (st_state st2)" and k: "0 \<le> k" "k \<le> msg_Gas msg"
      and v1: "acct ?E v1 = credit ?E (From msg) (k * msg_GasPrice msg) (view ?E (st_state st4))"
        "acct ?E (view ?E (st_state st')) = credit ?E (Coinbase (ctxt env)) ((msg_Gas msg - k) * msg_GasPrice msg) v1"
      using executed_settled [OF assms(3) r0(2) assms(2) executed(1) Intrinsic_pos executed(2,3), of "Coinbase (ctxt env)"]
      unfolding st' by blast
    have "total (view ?E (st_state st')) = total (view ?E (st_state st4)) + price_of ?st"
      using credit_balance(2) [OF v1(1)] credit_balance(2) [OF v1(2)] by (simp add: price_of_def algebra_simps)
    moreover have "total (view ?E (st_state st4)) \<le> total ?v - price_of ?st"
      using reached_funds(2) [OF B(1)] credit_balance(2) [OF bought_debit [OF executed(1)]] B(2) by simp
    moreover have "0 \<le> balance_of (view ?E (st_state st')) a" for a
      using credit_balance(1) [OF v1(1)] credit_balance(1) [OF v1(2)] reached_funds(1) [OF B(1)] k m
      by (simp add: funds_ok_def)
    ultimately show ?thesis by simp
  qed
  then show ?thesis by (simp add: total_def)
qed

text \<open>C8. A transaction that is rejected with an error either leaves every account, the logs and the
  gas pool as they were (at most an empty sender account is created), or it is rejected after the
  gas was bought, for its intrinsic gas or its value: then the sender has paid for all of the gas,
  and the gas is missing from the block's gas pool.\<close>

theorem rejected_transitions:
  assumes "ready env (NewEVM s)" "message_ok msg" "\<not> DisableGasMetering (vmConfig env)"
    and "TransitionDb n env (start_of s msg gp) = Ret (st', Inl e)"
  shows "(acct (hashing env) (view (hashing env) (st_state st')) = acct (hashing env) (view (hashing env) s) \<and>
      same_rest (view (hashing env) s) (view (hashing env) (st_state st')) \<and> st_gp st' = gp) \<or>
    (e \<in> {CoreVm ErrOutOfGas, CoreVm ErrInsufficientBalance} \<and> st_gp st' = gp - msg_Gas msg \<and>
      (\<forall>a. balance_of (view (hashing env) (st_state st')) a =
         balance_of (view (hashing env) s) a - (if a = From msg then msg_Gas msg * msg_GasPrice msg else 0)))"
proof -
  let ?E = "hashing env" and ?v = "view (hashing env) s" and ?st = "start_of s msg gp"
  have m: "0 \<le> msg_Gas msg" "0 \<le> msg_GasPrice msg" using assms(2) by (simp_all add: message_ok_def)
  note r0 = start_reached(1) [OF assms(1), simplified] start_reached(2) [OF assms(1)]
  have paid: "balance_of (view ?E (st_state st2)) a = balance_of ?v a - (if a = From msg then msg_Gas msg * msg_GasPrice msg else 0)"
    "st_gp st2 = gp - msg_Gas msg" if "bought ?E ?st st2" for st2 a
    using credit_balance(1) [OF bought_debit [OF that], of a] that by (simp_all add: price_of_def bought_def)
  from r0(1) m assms(4) show ?thesis
  proof (cases rule: transition_cases)
    case (refused e1)
    then show ?thesis using preCheck_cases [of ?E "initial ?E s" ?st "Some e1" st'] r0(1) m by (simp add: refused_def)
  next
    case (unpaid st2)
    then show ?thesis using paid by simp
  next
    case (broke st2 r)
    obtain B where B: "reached ?E B (st_state st2)" using broke(1) by (auto simp: bought_def)
    have "balance_of (view ?E (st_state st')) = balance_of (view ?E (st_state st2))"
      by (rule broke_balances [OF r0(2) _ _ _ broke(3), simplified, OF B])
        (use broke(1) assms(2) in \<open>simp_all add: bought_def same_job_def message_ok_def\<close>)
    then show ?thesis using paid [OF broke(1)] run_message_returns(2) [OF assms(3) broke(3)] broke(4) by simp
  qed simp
qed

lemma Some_run_effect:
  assumes "env_ok env" "message_ok msg" "bought (hashing env) (start_of s msg gp) st2"
    "run_message n env (From msg) (st2\<lparr>st_gas := g\<rparr>) = Ret (st4, r, Some x)" "x \<noteq> ErrInsufficientBalance"
    "To msg = None \<and> x = ErrCodeStoreOutOfGas \<longrightarrow> IsHomestead (chainConfig env) (block env)"
  defines "v2 \<equiv> view (hashing env) (st_state st2)"
  shows "st_gas st4 = 0 \<and> same_rest v2 (view (hashing env) (st_state st4)) \<and> acct (hashing env) (view (hashing env) (st_state st4)) =
    (acct (hashing env) v2)(From msg := (acct (hashing env) v2 (From msg))\<lparr>av_nonce := av_nonce (acct (hashing env) v2 (From msg)) + 1\<rparr>)"
proof -
  obtain B where B: "reached (hashing env) B (st_state st2)" using assms(3) by (auto simp: bought_def)
  have j: "st_msg st2 = msg" "length (st_data st2) < 2 ^ 64" "is_word (st_value st2)" "depth (st_evm st2) = 0"
    using assms(2,3) by (simp_all add: bought_def same_job_def message_ok_def)
  show ?thesis
  proof (cases "To msg")
    case None
    then show ?thesis using run_creation_safe(2) [OF assms(1) _ _ _ assms(4), of B x] B j assms(5,6) by (simp add: v2_def)
  next
    case (Some b)
    then show ?thesis using run_call_safe(2) [OF assms(1) _ _ _ assms(4), of B b x] B j assms(5) by (simp add: v2_def)
  qed
qed

lemma TransitionDb_run:
  fixes env st
  defines "E \<equiv> hashing env" and "ig \<equiv> IntrinsicGas (st_data st) (To (st_msg st) = None) (IsHomestead (chainConfig env) (block env))"
  assumes "preCheck E st = (None, st1)" "bought E st st1" "ig \<le> msg_Gas (st_msg st)"
    "run_message n env (From (st_msg st)) (snd (useGas (big_Uint64 ig) (snd (st_from E st1)))) = Ret (st4, r, e)" "e \<noteq> Some ErrInsufficientBalance"
  shows "TransitionDb n env st = Ret (settled_with E (Coinbase (ctxt env)) st4,
      Inr (r, gasUsed st4, gasUsed (settled_with E (Coinbase (ctxt env)) st4)))"
    "snd (useGas (big_Uint64 ig) (snd (st_from E st1))) = (snd (st_from E st1))\<lparr>st_gas := st_gas st1 - big_Uint64 ig\<rparr>"
proof -
  have b: "uint (st_gas st1) = msg_Gas (st_msg st)" "st_msg st1 = st_msg st" "st_data st1 = st_data st"
    using assms(4) by (simp_all add: bought_def same_job_def)
  have i: "0 < ig" unfolding ig_def by (rule Intrinsic_pos)
  then have l: "BitLen ig \<le> 64" using b(1) assms(5) uint_lt2p [of "st_gas st1"] by (simp add: BitLen_le)
  then have "\<not> st_gas st1 < big_Uint64 ig" using b(1) assms(5) small_Uint64 [of ig] i by (simp add: word_less_def)
  then have u: "useGas (big_Uint64 ig) (snd (st_from E st1)) = (None, (snd (st_from E st1))\<lparr>st_gas := st_gas st1 - big_Uint64 ig\<rparr>)"
    by (simp add: useGas_def st_from_def Let_def)
  then show "snd (useGas (big_Uint64 ig) (snd (st_from E st1))) = (snd (st_from E st1))\<lparr>st_gas := st_gas st1 - big_Uint64 ig\<rparr>" by simp
  show "TransitionDb n env st = Ret (settled_with E (Coinbase (ctxt env)) st4,
      Inr (r, gasUsed st4, gasUsed (settled_with E (Coinbase (ctxt env)) st4)))"
    using assms(3,6,7) u l b(2,3) 
    by (simp add: TransitionDb_def E_def [symmetric] Let_def st_from_def ig_def [symmetric] settled_with_def)
qed


lemma obind_NoFuel: "obind x f = NoFuel \<longleftrightarrow> x = NoFuel \<or> (\<exists>y. x = Ret y \<and> f y = NoFuel)"
  by (cases x) simp_all

lemma run_message_below:
  assumes "n \<le> m"
  shows "below (run_message n env a st) (run_message m env a st)"
  using entry_below [OF assms] by (simp add: run_message_def Let_def split_beta below_obind)

lemma TransitionDb_below:
  assumes "n \<le> m"
  shows "below (TransitionDb n env st) (TransitionDb m env st)"
  using run_message_below [OF assms]
  by (simp add: TransitionDb_def Let_def split_beta below_obind split: option.split prod.split)

lemma run_message_fuel:
  assumes "\<not> DisableGasMetering (vmConfig env)" "unat (st_gas st) < n"
  shows "run_message n env a st \<noteq> NoFuel"
  using entry_fuel(1,4) [OF assms(1)] assms(2)
  by (simp add: run_message_def Let_def split_beta obind_eq)

lemma TransitionDb_fuel:
  assumes "\<not> DisableGasMetering (vmConfig env)" "\<And>st1. preCheck (hashing env) st = (None, st1) \<Longrightarrow> unat (st_gas st1) < n"
  shows "TransitionDb n env st \<noteq> NoFuel"
proof -
  have r: "run_message n env a (st2\<lparr>st_gas := st_gas st1 - ig\<rparr>) \<noteq> NoFuel" if "\<not> st_gas st1 < ig" "unat (st_gas st1) < n" for a st1 st2 ig
  proof (rule run_message_fuel [OF assms(1)])
    have "st_gas st1 - ig \<le> st_gas st1" using that(1) by (intro word_sub_le) simp
    then show "unat (st_gas (st2\<lparr>st_gas := st_gas st1 - ig\<rparr>)) < n" using that(2) by (simp add: word_le_nat_alt)
  qed
  obtain err st1 where p: "preCheck (hashing env) st = (err, st1)" by fastforce
  show ?thesis
  proof (cases err)
    case None
    then have "unat (st_gas st1) < n" using assms(2) p by simp
    then show ?thesis using p None r [of st1]
      by (auto simp: TransitionDb_def Let_def split_beta useGas_def obind_NoFuel st_from_def split: prod.split)
  qed (use p in \<open>simp add: TransitionDb_def\<close>)
qed

text \<open>C9. Applying a transaction terminates: one unit of fuel more than its gas limit settles the
  result for every larger amount of fuel.\<close>

theorem transactions_terminate:
  assumes "ready env (NewEVM s)" "message_ok msg" "\<not> DisableGasMetering (vmConfig env)"
  shows "\<exists>r. r \<noteq> NoFuel \<and> (\<forall>n > nat (msg_Gas msg). TransitionDb n env (start_of s msg gp) = r)"
proof -
  let ?st = "start_of s msg gp" and ?k = "nat (msg_Gas msg)"
  have m: "0 \<le> msg_Gas msg" "0 \<le> msg_GasPrice msg" using assms(2) by (simp_all add: message_ok_def)
  note r0 = start_reached(1) [OF assms(1), of msg gp]
  show ?thesis
  proof (rule settled)
    show "below (TransitionDb (Suc ?k) env ?st) (TransitionDb n env ?st)" if "?k < n" for n
      using that by (intro TransitionDb_below) simp
    show "TransitionDb (Suc ?k) env ?st \<noteq> NoFuel"
    proof (rule TransitionDb_fuel [OF assms(3)])
      fix st1 assume "preCheck (hashing env) ?st = (None, st1)"
      then have "bought (hashing env) ?st st1" using preCheck_cases [OF r0] m by (auto split: option.splits)
      then have "uint (st_gas st1) = msg_Gas msg" by (simp add: bought_def)
      then show "unat (st_gas st1) < Suc ?k" by (simp add: unat_eq_nat_uint)
    qed
  qed
qed

lemma BitLen_code [code]: "BitLen x = (let y = \<bar>x\<bar> in if y = 0 then 0 else Suc (BitLen (y div 2)))"
proof -
  have "nat (\<bar>x\<bar> div 2) = nat \<bar>x\<bar> div 2" by (simp add: nat_div_distrib)
  then show ?thesis by (simp add: BitLen_def nat_bitlen.simps [of "nat \<bar>x\<bar>"] Let_def)
qed

definition tx_example :: "int \<Rightarrow> Message" where
  "tx_example gas = \<lparr>From = 1, To = Some 9, msg_GasPrice = 0, msg_Gas = gas, msg_Value = 0, msg_Nonce = 0, CheckNonce = False, msg_Data = []\<rparr>"

abbreviation tx_start :: "int \<Rightarrow> StateTransition" where
  "tx_start gas \<equiv> start_of (sdb evm_example) (tx_example gas) 1000000"

lemma tx_example_simps [simp]:
  "From (tx_example gas) = 1" "To (tx_example gas) = Some 9" "msg_GasPrice (tx_example gas) = 0" "msg_Gas (tx_example gas) = gas"
  "msg_Data (tx_example gas) = []" "IntrinsicGas [] False h = 21000"
  by (simp_all add: tx_example_def IntrinsicGas_def params)

lemma ready_tx: "ready env_example (NewEVM (sdb evm_example))"
proof -
  have "NewEVM (sdb evm_example) = evm_example" by (simp add: NewEVM_def evm_example_def)
  then show ?thesis using ready_example by simp
qed

lemma tx_ok: "0 \<le> gas \<Longrightarrow> message_ok (tx_example gas)"
  by (simp add: message_ok_def tx_example_def is_word_def)

lemma tx_rejected:
  obtains st where "TransitionDb 2 env_example (tx_start 100) = Ret (st, Inl (CoreVm ErrOutOfGas))" "st_gp st = 999900"
proof -
  have "case TransitionDb 2 env_example (tx_start 100) of
     Ret (st, res) \<Rightarrow> res = Inl (CoreVm ErrOutOfGas) \<and> st_gp st = 999900 | _ \<Rightarrow> False"
    by code_simp
  then show ?thesis using that by (auto split: outcome.splits)
qed

lemma tx_fails:
  obtains st1 st4 r where "preCheck crypto_small (tx_start 21050) = (None, st1)"
    "run_message 2 env_example 1 (snd (useGas 21000 (snd (st_from crypto_small st1)))) = Ret (st4, r, Some (ErrInvalidOpcode 0xfe))"
proof -
  have p: "fst (preCheck crypto_small (tx_start 21050)) = None" by code_simp
  have "case run_message 2 env_example 1 (snd (useGas 21000 (snd (st_from crypto_small (snd (preCheck crypto_small (tx_start 21050))))))) of
     Ret (st, ret, e) \<Rightarrow> e = Some (ErrInvalidOpcode 0xfe) | _ \<Rightarrow> False"
    by code_simp
  then show ?thesis using that p by (cases "preCheck crypto_small (tx_start 21050)") (auto split: outcome.splits)
qed

theorem transactions_terminate_witness:
  "\<exists>r. r \<noteq> NoFuel \<and> (\<forall>n > 21050. TransitionDb n env_example (tx_start 21050) = r)"
  using transactions_terminate [OF ready_tx tx_ok, of 21050 1000000] by simp

theorem rejected_transitions_witness:
  "\<exists>st. TransitionDb 2 env_example (tx_start 100) = Ret (st, Inl (CoreVm ErrOutOfGas)) \<and> st_gp st = 1000000 - 100 \<and>
     balance_of (view crypto_small (st_state st)) 1 = balance_of (view crypto_small (sdb evm_example)) 1"
proof -
  obtain st where "TransitionDb 2 env_example (tx_start 100) = Ret (st, Inl (CoreVm ErrOutOfGas))" "st_gp st = 999900"
    by (rule tx_rejected)
  then show ?thesis using rejected_transitions [OF ready_tx tx_ok, of 100 2 1000000 st "CoreVm ErrOutOfGas"] by auto
qed

theorem transition_creates_no_funds_witness:
  "\<exists>st res. TransitionDb 2 env_example (tx_start 100) = Ret (st, res) \<and> (\<forall>a. 0 \<le> balance_of (view crypto_small (st_state st)) a)"
proof -
  obtain st where t: "TransitionDb 2 env_example (tx_start 100) = Ret (st, Inl (CoreVm ErrOutOfGas))" by (rule tx_rejected)
  then show ?thesis using transition_creates_no_funds [OF ready_tx tx_ok, of 100 2 1000000 st "Inl (CoreVm ErrOutOfGas)"] by auto
qed

lemma refund_example: "vw_refund (view crypto_small (sdb evm_example)) = 0"
  by (simp add: evm_example_def view_setters(5) [OF crypto_small_ok] view_example)


theorem transition_gas_witness:
  "\<exists>st r required used. TransitionDb 2 env_example (tx_start 21050) = Ret (st, Inr (r, required, used)) \<and> 21000 \<le> required \<and> st_gp st = 1000000 - used"
proof -
  obtain st1 st4 r where p: "preCheck crypto_small (tx_start 21050) = (None, st1)"
    and rm: "run_message 2 env_example 1 (snd (useGas 21000 (snd (st_from crypto_small st1)))) = Ret (st4, r, Some (ErrInvalidOpcode 0xfe))"
    by (rule tx_fails)
  have "bought crypto_small (tx_start 21050) st1"
    using preCheck_cases [OF start_reached(1) [OF ready_tx], of "tx_example 21050" 1000000] p by auto
  then obtain st used required where "TransitionDb 2 env_example (tx_start 21050) = Ret (st, Inr (r, required, used))"
    using TransitionDb_run(1) [of env_example "tx_start 21050" st1 2 st4 r] p rm by (auto simp: big_Uint64_def)
  then show ?thesis using transition_gas [OF ready_tx tx_ok, of 21050 2 1000000 st r required used] by auto
qed

end
