(* ===== verification/Spec2Isabelle.thy ===== *)
theory Spec2Isabelle
  imports Evm_Words Evm_Analysis Transition_Properties
begin

text \<open>
  A verification development for a Go implementation of an Ethereum-style node.
\<close>

end
